(* ===== verification/Prelude.thy ===== *)
theory Prelude
  imports Main "HOL-Library.Word" "HOL-Library.Monad_Syntax"
begin

text \<open>
  Shared vocabulary of the tetraOS development.

  The kernel is C++ compiled for RV64 (LP64, little endian, unsigned \<^verbatim>\<open>char\<close>), so
  its integers are machine words and its memory is a total map from 64-bit addresses to bytes.
  This theory fixes the names of those types, the little-endian encoding of words in memory,
  multi-byte loads and stores, and the generic laws about them (a load after a store at the same
  address, at a disjoint address, and the frame of a store). No definition here models a
  function of the repository: they are what the language gives to the code.
\<close>

unbundle bit_operations_syntax

type_synonym u8 = "8 word"
type_synonym u16 = "16 word"
type_synonym u32 = "32 word"
type_synonym u64 = "64 word"
type_synonym mem = "u64 \<Rightarrow> u8"

named_theorems mem_simps \<open>loads after stores, frames of stores\<close>
named_theorems state_simps \<open>fields an operation leaves alone\<close>
named_theorems layout_defs \<open>constants of the address-space layout\<close>

section \<open>Characters as bytes\<close>

definition byte_of_char :: "char \<Rightarrow> u8" where
  "byte_of_char c = of_nat (of_char c)"

definition char_of_byte :: "u8 \<Rightarrow> char" where
  "char_of_byte b = char_of (unat b)"

lemma char_of_byte_of_char [simp]: "char_of_byte (byte_of_char c) = c"
  by (simp add: char_of_byte_def byte_of_char_def unat_of_nat)

lemma byte_of_char_of_byte [simp]: "byte_of_char (char_of_byte b) = b"
  using unsigned_less [of b, where ?'a = nat] by (simp add: char_of_byte_def byte_of_char_def)

lemma byte_of_char_eq_iff [simp]: "byte_of_char c = byte_of_char d \<longleftrightarrow> c = d"
  by (metis char_of_byte_of_char)

section \<open>Words as bytes, little endian\<close>

primrec le_word :: "u8 list \<Rightarrow> 'a::len word" where
  "le_word [] = 0"
| "le_word (b # bs) = ucast b OR push_bit 8 (le_word bs)"

primrec bytes_of :: "nat \<Rightarrow> 'a::len word \<Rightarrow> u8 list" where
  "bytes_of 0 w = []"
| "bytes_of (Suc n) w = ucast w # bytes_of n (drop_bit 8 w)"

lemma length_bytes_of [simp]: "length (bytes_of n w) = n"
  by (induction n arbitrary: w) auto

lemma le_word_bytes_of: "le_word (bytes_of n (w :: 'a::len word)) = take_bit (8 * n) w"
proof (induction n arbitrary: w)
  case 0
  then show ?case by simp
next
  case (Suc n)
  show ?case
    by (rule bit_eqI)
      (auto simp: Suc bit_or_iff bit_push_bit_iff bit_take_bit_iff bit_drop_bit_eq
        bit_ucast_iff dest: bit_imp_le_length)
qed

section \<open>Loads and stores\<close>

definition load_bytes :: "mem \<Rightarrow> u64 \<Rightarrow> nat \<Rightarrow> u8 list" where
  "load_bytes m a n = map (\<lambda>i. m (a + of_nat i)) [0..<n]"

definition store_bytes :: "mem \<Rightarrow> u64 \<Rightarrow> u8 list \<Rightarrow> mem" where
  "store_bytes m a bs = (\<lambda>x. if unat (x - a) < length bs then bs ! unat (x - a) else m x)"

definition ld16 :: "mem \<Rightarrow> u64 \<Rightarrow> u16" where
  "ld16 m a = le_word (load_bytes m a 2)"

definition ld32 :: "mem \<Rightarrow> u64 \<Rightarrow> u32" where
  "ld32 m a = le_word (load_bytes m a 4)"

definition ld64 :: "mem \<Rightarrow> u64 \<Rightarrow> u64" where
  "ld64 m a = le_word (load_bytes m a 8)"

definition st16 :: "mem \<Rightarrow> u64 \<Rightarrow> u16 \<Rightarrow> mem" where
  "st16 m a v = store_bytes m a (bytes_of 2 v)"

definition st32 :: "mem \<Rightarrow> u64 \<Rightarrow> u32 \<Rightarrow> mem" where
  "st32 m a v = store_bytes m a (bytes_of 4 v)"

definition st64 :: "mem \<Rightarrow> u64 \<Rightarrow> u64 \<Rightarrow> mem" where
  "st64 m a v = store_bytes m a (bytes_of 8 v)"

text \<open>
  Two byte ranges of the (circular) address space are disjoint when neither start lies inside
  the other range.
\<close>

definition disj :: "u64 \<Rightarrow> nat \<Rightarrow> u64 \<Rightarrow> nat \<Rightarrow> bool" where
  "disj a n b k \<longleftrightarrow> n \<le> unat (b - a) \<and> k \<le> unat (a - b)"

lemma disj_sym: "disj a n b k \<longleftrightarrow> disj b k a n"
  by (auto simp: disj_def)

lemma unat_bound: "unat (x :: u64) < 18446744073709551616"
  using unsigned_less [of x, where ?'a = nat] by simp

lemma unat_add_one:
  assumes "(i :: 'a::len word) < n"
  shows "unat (i + 1) = Suc (unat i)"
proof -
  have "Suc (unat i) < 2 ^ LENGTH('a)"
    using assms by (metis Suc_leI le_less_trans word_less_nat_alt unsigned_less)
  then show ?thesis
    using unat_add_lem [of i 1] by simp
qed

lemma sint_u64_small:
  assumes "unat (w :: u64) < 2 ^ 63"
  shows "sint w = int (unat w)"
proof -
  have "int (unat w) < int (2 ^ 63)" using assms by (simp only: of_nat_less_iff)
  then have "int (unat w) < 2 ^ 63" by simp
  then have "signed_take_bit 63 (int (unat w)) = int (unat w)"
    by (intro signed_take_bit_int_eq_self) linarith+
  then show ?thesis by (simp add: sint_uint)
qed

lemma unat_take_bit: "unat (take_bit k w) = unat w mod 2 ^ k"
  by (simp add: unsigned_take_bit_eq flip: take_bit_eq_mod)

lemma and_not_mask_eq: "(w :: 'a::len word) AND NOT (mask k) = w - take_bit k w"
proof -
  have "w AND NOT (mask k) = push_bit k (drop_bit k w)"
    by (rule bit_word_eqI) (auto simp: bit_simps)
  then show ?thesis
    using bits_ident [of k w] by (simp add: eq_diff_eq)
qed

lemma unat_and_not_mask: "unat ((w :: 'a::len word) AND NOT (mask k)) = unat w div 2 ^ k * 2 ^ k"
proof -
  have "take_bit k w \<le> w" by (simp add: word_le_nat_alt unat_take_bit)
  then have "unat (w - take_bit k w) = unat w - unat w mod 2 ^ k"
    by (simp add: unat_sub unat_take_bit)
  then show ?thesis by (simp add: and_not_mask_eq minus_mod_eq_div_mult)
qed

lemma unat_sub_self_add:
  fixes a x b :: u64
  assumes "unat (x - b) < k" and "k \<le> unat (a - b)"
  shows "unat (x - a) = unat (x - b) + unat (b - a)"
  using assms unat_bound [of x] unat_bound [of a] unat_bound [of b]
  by (simp add: unat_sub_if' split: if_splits)

lemma disj_out:
  assumes "disj a n b k" and "unat (x - b) < k"
  shows "n \<le> unat (x - a)"
  using assms unat_sub_self_add [of x b k a] by (simp add: disj_def)

text \<open>Disjointness of ranges that do not wrap, by their end points.\<close>

lemma disj_nat:
  assumes "unat a + n \<le> unat b \<or> unat b + k \<le> unat a"
    and "unat a + n \<le> 2 ^ 64" and "unat b + k \<le> 2 ^ 64" and "0 < n" and "0 < k"
  shows "disj a n b k"
  using assms by (auto simp: disj_def unat_sub_if')

lemma length_load_bytes [simp]: "length (load_bytes m a n) = n"
  by (simp add: load_bytes_def)

lemma nth_load_bytes [simp]: "i < n \<Longrightarrow> load_bytes m a n ! i = m (a + of_nat i)"
  by (simp add: load_bytes_def)

lemma unat_of_nat_small:
  assumes "i < n" and "n \<le> 2 ^ 64"
  shows "unat (of_nat i :: u64) = i"
  using assms by (simp add: unat_of_nat)

lemma of_nat_u64_inj:
  assumes "i < 2 ^ 64" and "j < 2 ^ 64"
  shows "(of_nat i :: u64) = of_nat j \<longleftrightarrow> i = j"
  using unat_of_nat_small [OF assms(1) order_refl] unat_of_nat_small [OF assms(2) order_refl]
  by metis

lemma ucast_of_nat_u32: "k < 2 ^ 32 \<Longrightarrow> (ucast (of_nat k :: u32) :: u64) = of_nat k"
  by (simp add: unsigned_of_nat take_bit_nat_eq_self)

lemma load_store_same [mem_simps]:
  assumes "length bs = n" and "n \<le> 2 ^ 64"
  shows "load_bytes (store_bytes m a bs) a n = bs"
  using assms by (auto intro!: nth_equalityI simp: store_bytes_def unat_of_nat_small)

lemma store_bytes_out [mem_simps]: "length bs \<le> unat (x - a) \<Longrightarrow> store_bytes m a bs x = m x"
  by (simp add: store_bytes_def)

lemma load_bytes_cong:
  assumes "n \<le> 2 ^ 64" and "\<And>x. unat (x - a) < n \<Longrightarrow> m x = m' x"
  shows "load_bytes m a n = load_bytes m' a n"
  using assms by (auto intro!: nth_equalityI simp: unat_of_nat_small)

lemma load_store_disj [mem_simps]:
  assumes "disj a (length bs) b n" and "n \<le> 2 ^ 64"
  shows "load_bytes (store_bytes m a bs) b n = load_bytes m b n"
  using assms by (intro load_bytes_cong) (auto simp: store_bytes_out dest: disj_out)

lemma ld64_cong: "(\<And>x. unat (x - a) < 8 \<Longrightarrow> m x = m' x) \<Longrightarrow> ld64 m a = ld64 m' a"
  unfolding ld64_def by (subst load_bytes_cong [of 8 a m m']) auto

lemma ld64_upd_out [mem_simps]: "8 \<le> unat (x - a) \<Longrightarrow> ld64 (m(x := v)) a = ld64 m a"
  by (rule ld64_cong) auto

lemma ld64_st64 [mem_simps]: "ld64 (st64 m a v) a = v"
  by (simp add: ld64_def st64_def load_store_same le_word_bytes_of take_bit_word_eq_self)

lemma ld32_st32 [mem_simps]: "ld32 (st32 m a v) a = v"
  by (simp add: ld32_def st32_def load_store_same le_word_bytes_of take_bit_word_eq_self)

lemma ld16_st16 [mem_simps]: "ld16 (st16 m a v) a = v"
  by (simp add: ld16_def st16_def load_store_same le_word_bytes_of take_bit_word_eq_self)

lemma ld64_st64_disj [mem_simps]: "disj a 8 b 8 \<Longrightarrow> ld64 (st64 m a v) b = ld64 m b"
  by (simp add: ld64_def st64_def load_store_disj)

lemma st64_out [mem_simps]: "8 \<le> unat (x - a) \<Longrightarrow> st64 m a v x = m x"
  by (simp add: st64_def store_bytes_out)

lemma store_bytes_store_bytes_same:
  "length bs = length cs \<Longrightarrow> store_bytes (store_bytes m a bs) a cs = store_bytes m a cs"
  by (auto simp: store_bytes_def fun_eq_iff)

lemma st64_st64_same [mem_simps]: "st64 (st64 m a v) a w = st64 m a w"
  by (simp add: st64_def store_bytes_store_bytes_same)

lemma store_bytes_Cons:
  assumes "length (b # bs) \<le> 2 ^ 64"
  shows "store_bytes m a (b # bs) = store_bytes (m(a := b)) (a + 1) bs"
proof
  fix x
  show "store_bytes m a (b # bs) x = store_bytes (m(a := b)) (a + 1) bs x"
  proof (cases "x = a")
    case True
    have "unat (a - (a + 1)) = 2 ^ 64 - 1"
      by (simp add: unsigned_minus_1_eq_mask mask_eq_exp_minus_1)
    with True assms show ?thesis
      by (simp add: store_bytes_def)
  next
    case False
    then have "unat (x - a) = Suc (unat (x - a - 1))"
      using unat_minus_one [of "x - a"] unat_gt_0 [of "x - a"] by simp
    then have "unat (x - a) = Suc (unat (x - (a + 1)))"
      by (simp add: diff_diff_eq)
    with False show ?thesis
      by (simp add: store_bytes_def)
  qed
qed

lemma unat_offset_eq_iff:
  assumes "i < 2 ^ 64"
  shows "unat (x - a :: u64) = i \<longleftrightarrow> x = a + of_nat i"
proof
  assume "unat (x - a) = i"
  then have "x - a = of_nat i" by auto
  then show "x = a + of_nat i" by (simp add: diff_eq_eq add.commute)
next
  assume "x = a + of_nat i"
  with assms show "unat (x - a) = i" by (simp add: unat_of_nat)
qed

lemma store_bytes_snoc:
  assumes "length (bs @ [b]) \<le> 2 ^ 64"
  shows "(store_bytes m a bs)(a + of_nat (length bs) := b) = store_bytes m a (bs @ [b])"
proof
  fix x
  have "unat (x - a) = length bs \<longleftrightarrow> x = a + of_nat (length bs)"
    using assms by (intro unat_offset_eq_iff) simp
  then show "((store_bytes m a bs)(a + of_nat (length bs) := b)) x = store_bytes m a (bs @ [b]) x"
    by (auto simp: store_bytes_def nth_append)
qed

lemma ld64_zero: "(\<And>x. unat (x - a) < 8 \<Longrightarrow> m x = 0) \<Longrightarrow> ld64 m a = 0"
  using ld64_cong [of a m "\<lambda>_. 0"]
  by (simp add: ld64_def load_bytes_def upt_rec)

lemma bit_le_word:
  "bit (le_word bs :: 'a::len word) n \<longleftrightarrow> n < LENGTH('a) \<and> n div 8 < length bs \<and> bit (bs ! (n div 8)) (n mod 8)"
proof (induction bs arbitrary: n)
  case Nil
  then show ?case by simp
next
  case (Cons b bs)
  show ?case
  proof (cases "n < 8")
    case True
    then show ?thesis by (auto simp: bit_or_iff bit_push_bit_iff bit_ucast_iff)
  next
    case False
    then obtain k where k: "n = 8 + k" using le_Suc_ex by (metis not_less)
    have "\<not> bit b n" using False bit_imp_le_length [of b n] by auto
    moreover have "(8 + k) div 8 = Suc (k div 8)" by simp
    ultimately show ?thesis
      using k Cons [of k] by (auto simp: bit_or_iff bit_push_bit_iff bit_ucast_iff)
  qed
qed

lemma ld32_of_ld64: "ld32 m a = ucast (ld64 m a)"
  by (rule bit_word_eqI) (auto simp: ld32_def ld64_def bit_le_word bit_ucast_iff)

lemma load_store_sub [mem_simps]:
  assumes "k + n \<le> length bs" and "length bs \<le> 2 ^ 64"
  shows "load_bytes (store_bytes m a bs) (a + of_nat k) n = take n (drop k bs)"
proof (rule nth_equalityI)
  fix i assume "i < length (load_bytes (store_bytes m a bs) (a + of_nat k) n)"
  then have i: "i < n" by simp
  have "unat (of_nat (k + i) :: u64) = k + i"
    using i assms by (intro unat_of_nat_small [of _ "length bs"]) simp_all
  then have "unat (a + of_nat k + of_nat i - a) = k + i"
    by (simp add: add.assoc)
  then show "load_bytes (store_bytes m a bs) (a + of_nat k) n ! i = take n (drop k bs) ! i"
    using i assms by (simp add: store_bytes_def)
qed (use assms in simp)

end
