(* ===== verification/Console.thy ===== *)
theory Console
  imports Prelude
begin

text \<open>
  The kernel's text console: \<^verbatim>\<open>kernel/libk/printf.cpp\<close>,
  \<^verbatim>\<open>kernel/libk/logging.cpp\<close> and \<^verbatim>\<open>kernel/libk/read.cpp\<close>.

  The record \<open>kio\<close> is the part of the kernel state every other component extends:
  the memory, the bytes handed to the UART so far (\<open>out\<close>), the bytes the UART still
  has to deliver (\<open>inp\<close>) and the static \<^verbatim>\<open>logLevel\<close>. \<open>put_char\<close> and
  \<open>get_char\<close> are the contract of \<^verbatim>\<open>kernel/UART.cpp\<close>; theory \<open>Uart\<close> models the
  polling loops themselves and proves that they implement it. A variadic argument list is the
  list of its values: an integer argument is one 64-bit register, a \<^verbatim>\<open>char *\<close> is the
  string it points to.

  The lemmas show that \<open>vprintf\<close> renders what a textbook renderer (\<open>render\<close>, built on
  positional notation) prescribes, how many digits it buffers, that \<open>log\<close> is silent below
  the configured level, and what \<open>read\<close> leaves in the caller's buffer.
\<close>

section \<open>State\<close>

record kio =
  mem :: mem
  out :: string
  inp :: string
  logLevel :: u64

datatype va = VInt u64 | VStr string

definition put_char :: "char \<Rightarrow> 'a kio_scheme \<Rightarrow> 'a kio_scheme" where
  "put_char c s = s\<lparr>out := out s @ [c]\<rparr>"

definition get_char :: "'a kio_scheme \<Rightarrow> (char \<times> 'a kio_scheme) option" where
  "get_char s = (case inp s of [] \<Rightarrow> None | c # cs \<Rightarrow> Some (c, s\<lparr>inp := cs\<rparr>))"

section \<open>vprintf\<close>

text \<open>
  Variadic access. A \<^verbatim>\<open>va_arg\<close> past the last argument is undefined behaviour in C++;
  \<open>va_int\<close> and \<open>va_str\<close> read a zero or an empty string there. Every call of the
  development passes the arguments its format asks for (\<open>args_match\<close> below).
\<close>

fun va_int :: "va list \<Rightarrow> u64 \<times> va list" where
  "va_int (VInt w # as) = (w, as)"
| "va_int (_ # as) = (0, as)"
| "va_int [] = (0, [])"

fun va_str :: "va list \<Rightarrow> string \<times> va list" where
  "va_str (VStr t # as) = (t, as)"
| "va_str (_ # as) = ([], as)"
| "va_str [] = ([], [])"

text \<open>
  The decimal branch: digits are peeled off while \<^verbatim>\<open>i >= 10\<close> and stored at increasing
  indices of \<^verbatim>\<open>chars\<close>; what is left of \<^verbatim>\<open>i\<close> is printed first, then the buffer
  backwards.
\<close>

function dec_loop :: "int \<Rightarrow> string \<Rightarrow> int \<times> string" where
  "dec_loop i chars =
     (if i \<ge> 10 then dec_loop (i div 10) (chars @ [char_of (i mod 10 + 48)]) else (i, chars))"
  by pat_completeness auto
termination
  by (relation "measure (\<lambda>(i, _). nat i)") auto

declare dec_loop.simps [simp del]

fun put_back_to_front :: "string \<Rightarrow> 'a kio_scheme \<Rightarrow> 'a kio_scheme" where
  "put_back_to_front [] s = s"
| "put_back_to_front (c # cs) s = put_char c (put_back_to_front cs s)"

definition put_dec :: "int \<Rightarrow> 'a kio_scheme \<Rightarrow> 'a kio_scheme" where
  "put_dec i s =
     (let (i', chars) = dec_loop i [] in put_back_to_front chars (put_char (char_of (i' + 48)) s))"

function hex_loop :: "u64 \<Rightarrow> u64 list \<Rightarrow> u64 list" where
  "hex_loop i chars =
     (if i \<ge> 16 then hex_loop (i div 16) (chars @ [i mod 16]) else chars @ [i])"
  by pat_completeness auto
termination
  by (relation "measure (\<lambda>(i, _). unat i)") (auto simp: unat_div word_le_nat_alt)

declare hex_loop.simps [simp del]

definition hex_char :: "u64 \<Rightarrow> char" where
  "hex_char d = char_of (unat d + (if d > 9 then 65 - 10 else 48))"

definition put_hex :: "u64 \<Rightarrow> 'a kio_scheme \<Rightarrow> 'a kio_scheme" where
  "put_hex i s = put_back_to_front (map hex_char (hex_loop i [])) s"

fun put_str :: "string \<Rightarrow> 'a kio_scheme \<Rightarrow> 'a kio_scheme" where
  "put_str [] s = s"
| "put_str (c # cs) s = put_str cs (put_char c s)"

text \<open>
  One conversion, selected by the character after \<^verbatim>\<open>%\<close>; \<open>None\<close> when no branch of
  the source takes it, in which case the character is not consumed and the loop goes on with it.
\<close>

definition convert :: "char \<Rightarrow> va list \<Rightarrow> 'a kio_scheme \<Rightarrow> (va list \<times> 'a kio_scheme) option" where
  "convert d args s =
     (if d = CHR ''d'' \<or> d = CHR ''i'' then
        (let (w, args') = va_int args in Some (args', put_dec (sint (ucast w :: 32 word)) s))
      else if d = CHR ''x'' then
        (let (w, args') = va_int args in Some (args', put_hex w s))
      else if d = CHR ''s'' then
        (let (t, args') = va_str args in Some (args', put_str t s))
      else if d = CHR ''c'' then
        (let (w, args') = va_int args in Some (args', put_char (char_of_byte (ucast w)) s))
      else None)"

fun vprintf :: "string \<Rightarrow> va list \<Rightarrow> 'a kio_scheme \<Rightarrow> 'a kio_scheme" where
  "vprintf [] args s = s"
| "vprintf (c # fmt) args s =
     (if c = CHR ''%'' then
        (case fmt of
           [] \<Rightarrow> s
         | d # rest \<Rightarrow>
             (case convert d args s of
                Some (args', s') \<Rightarrow> vprintf rest args' s'
              | None \<Rightarrow> vprintf fmt args s))
      else vprintf fmt args (put_char c s))"

definition printf :: "string \<Rightarrow> va list \<Rightarrow> 'a kio_scheme \<Rightarrow> 'a kio_scheme" where
  "printf fmt args s = vprintf fmt args s"

section \<open>Logging\<close>

datatype LogLevel = DEBUG | PAGING | VIRTUAL_MEMORY | PHYSICAL_MEMORY | SYSTEM | ERROR
  | VIRTIO | WARNING | FS | PROCESS | EXCEPTION | SYSCALL

fun level_bit :: "LogLevel \<Rightarrow> u64" where
  "level_bit DEBUG = 1"
| "level_bit PAGING = 2"
| "level_bit VIRTUAL_MEMORY = 4"
| "level_bit PHYSICAL_MEMORY = 8"
| "level_bit SYSTEM = 16"
| "level_bit ERROR = 32"
| "level_bit VIRTIO = 64"
| "level_bit WARNING = 128"
| "level_bit FS = 256"
| "level_bit PROCESS = 512"
| "level_bit EXCEPTION = 1024"
| "level_bit SYSCALL = 2048"

text \<open>The escape character \<^verbatim>\<open>\u001b\<close> of the coloured prefixes.\<close>

definition esc :: string where
  "esc = [char_of (27 :: nat)]"

fun level_prefix :: "LogLevel \<Rightarrow> string" where
  "level_prefix DEBUG = ''[DEBUG]''"
| "level_prefix PAGING = ''[PAGING]''"
| "level_prefix VIRTUAL_MEMORY = ''[VMEM]''"
| "level_prefix PHYSICAL_MEMORY = ''[PMEM]''"
| "level_prefix SYSTEM = ''[SYSTEM]''"
| "level_prefix ERROR = esc @ ''[31m[ERROR]'' @ esc @ ''[37m''"
| "level_prefix VIRTIO = ''[VIRTIO]''"
| "level_prefix WARNING = esc @ ''[33m[WARN]'' @ esc @ ''[37m''"
| "level_prefix FS = ''[FS]''"
| "level_prefix PROCESS = ''[PROCESS]''"
| "level_prefix EXCEPTION = esc @ ''[31m[EXCEPTION]'' @ esc @ ''[37m''"
| "level_prefix SYSCALL = ''[SYSCALL]''"

definition log :: "LogLevel \<Rightarrow> string \<Rightarrow> va list \<Rightarrow> 'a kio_scheme \<Rightarrow> 'a kio_scheme" where
  "log level fmt args s =
     (if logLevel s AND level_bit level = 0 then s
      else printf [CHR 0x0A] []
             (vprintf fmt args (printf '' '' [] (printf (level_prefix level) [] s))))"

definition set_log_level :: "u64 \<Rightarrow> 'a kio_scheme \<Rightarrow> 'a kio_scheme" where
  "set_log_level level s = s\<lparr>logLevel := level\<rparr>"

section \<open>Reading a line\<close>

text \<open>
  The loop of \<^verbatim>\<open>read\<close>; the result is the final \<^verbatim>\<open>counter\<close>. \<open>None\<close> is a read
  that waits for input that never comes.
\<close>

function read_loop :: "u64 \<Rightarrow> u64 \<Rightarrow> u64 \<Rightarrow> 'a kio_scheme \<Rightarrow> (u64 \<times> 'a kio_scheme) option" where
  "read_loop buffer len counter s =
     (if counter < len then
        (case get_char s of
           None \<Rightarrow> None
         | Some (c, s1) \<Rightarrow>
             if c = CHR 0x0D then
               Some (counter,
                 put_char (CHR 0x0A) (s1\<lparr>mem := (mem s1)(buffer + counter := 0)\<rparr>))
             else
               (let s2 = put_char c s1
                in read_loop buffer len (counter + 1)
                     (s2\<lparr>mem := (mem s2)(buffer + counter := byte_of_char c)\<rparr>)))
      else Some (counter, s))"
  by pat_completeness auto
termination
  by (relation "measure (\<lambda>(_, _, _, s). length (inp s))")
    (auto simp: get_char_def put_char_def split: list.splits)

declare read_loop.simps [simp del]

definition read :: "u64 \<Rightarrow> u64 \<Rightarrow> 'a kio_scheme \<Rightarrow> (u64 \<times> 'a kio_scheme) option" where
  "read buffer len s = read_loop buffer len 0 s"

section \<open>Frames\<close>

lemma put_back_to_front_eq: "put_back_to_front cs s = s\<lparr>out := out s @ rev cs\<rparr>"
  by (induction cs) (auto simp: put_char_def)

lemma put_str_eq: "put_str cs s = s\<lparr>out := out s @ cs\<rparr>"
  by (induction cs arbitrary: s) (auto simp: put_char_def)

text \<open>What \<open>vprintf\<close> emits, as a function of the format and the arguments alone.\<close>

definition dec_text :: "int \<Rightarrow> string" where
  "dec_text i = (let (i', chars) = dec_loop i [] in char_of (i' + 48) # rev chars)"

definition hex_text :: "u64 \<Rightarrow> string" where
  "hex_text i = rev (map hex_char (hex_loop i []))"

lemma put_dec_eq: "put_dec i s = s\<lparr>out := out s @ dec_text i\<rparr>"
  by (simp add: put_dec_def dec_text_def put_back_to_front_eq put_char_def split: prod.split)

lemma put_hex_eq: "put_hex i s = s\<lparr>out := out s @ hex_text i\<rparr>"
  by (simp add: put_hex_def hex_text_def put_back_to_front_eq)

definition convert_text :: "char \<Rightarrow> va list \<Rightarrow> (string \<times> va list) option" where
  "convert_text d args =
     (if d = CHR ''d'' \<or> d = CHR ''i'' then
        Some (dec_text (sint (ucast (fst (va_int args)) :: 32 word)), snd (va_int args))
      else if d = CHR ''x'' then Some (hex_text (fst (va_int args)), snd (va_int args))
      else if d = CHR ''s'' then Some (va_str args)
      else if d = CHR ''c'' then Some ([char_of_byte (ucast (fst (va_int args)))], snd (va_int args))
      else None)"

fun fmt_text :: "string \<Rightarrow> va list \<Rightarrow> string" where
  "fmt_text [] args = []"
| "fmt_text (c # fmt) args =
     (if c = CHR ''%'' then
        (case fmt of
           [] \<Rightarrow> []
         | d # rest \<Rightarrow>
             (case convert_text d args of
                Some (t, args') \<Rightarrow> t @ fmt_text rest args'
              | None \<Rightarrow> fmt_text fmt args))
      else c # fmt_text fmt args)"

lemma convert_eq:
  "convert d args s =
     map_option (\<lambda>(t, args'). (args', s\<lparr>out := out s @ t\<rparr>)) (convert_text d args)"
  by (simp add: convert_def convert_text_def put_dec_eq put_hex_eq put_str_eq put_char_def
      split_beta)

lemma vprintf_eq: "vprintf fmt args s = s\<lparr>out := out s @ fmt_text fmt args\<rparr>"
proof (induction fmt args arbitrary: s rule: fmt_text.induct)
  case (1 args)
  then show ?case by simp
next
  case (2 c fmt args)
  show ?case
  proof (cases fmt)
    case Nil
    then show ?thesis by (simp add: put_char_def)
  next
    case (Cons d rest)
    with 2 show ?thesis
      by (subst vprintf.simps, subst fmt_text.simps)
        (auto simp: convert_eq put_char_def split: option.split simp del: vprintf.simps fmt_text.simps)
  qed
qed

definition log_text :: "u64 \<Rightarrow> LogLevel \<Rightarrow> string \<Rightarrow> va list \<Rightarrow> string" where
  "log_text l level fmt args =
     (if l AND level_bit level = 0 then []
      else fmt_text (level_prefix level) [] @ '' '' @ fmt_text fmt args @ [CHR 0x0A])"

lemma log_eq [state_simps]:
  "log level fmt args s = s\<lparr>out := out s @ log_text (logLevel s) level fmt args\<rparr>"
  by (simp add: log_def log_text_def printf_def vprintf_eq)

lemma log_frame [simp]:
  "mem (log level fmt args s) = mem s" "inp (log level fmt args s) = inp s"
  "logLevel (log level fmt args s) = logLevel s"
  by (simp_all add: log_eq)

lemma printf_frame [simp]:
  "mem (printf fmt args s) = mem s" "inp (printf fmt args s) = inp s"
  "logLevel (printf fmt args s) = logLevel s"
  by (simp_all add: printf_def vprintf_eq)

lemma printf_eq [state_simps]: "printf fmt args s = s\<lparr>out := out s @ fmt_text fmt args\<rparr>"
  by (simp add: printf_def vprintf_eq)

section \<open>What the number branches print\<close>

text \<open>Positional notation: the value a string of digits denotes in a base.\<close>

definition digit_val :: "char \<Rightarrow> nat" where
  "digit_val c = (let n = of_char c in if n > 57 then n - 55 else n - 48)"

definition positional :: "nat \<Rightarrow> string \<Rightarrow> nat" where
  "positional b cs = foldl (\<lambda>a c. b * a + digit_val c) 0 cs"

lemma positional_snoc: "positional b (cs @ [c]) = b * positional b cs + digit_val c"
  by (simp add: positional_def)

text \<open>The textbook renderer: most significant digit first, no leading zero.\<close>

definition digit_char :: "nat \<Rightarrow> char" where
  "digit_char d = char_of (d + (if d > 9 then 55 else 48))"

fun numeral_text :: "nat \<Rightarrow> nat \<Rightarrow> string" where
  "numeral_text b n =
     (if n < b \<or> b < 2 then [digit_char n]
      else numeral_text b (n div b) @ [digit_char (n mod b)])"

declare numeral_text.simps [simp del]

lemma numeral_text_small: "n < b \<Longrightarrow> numeral_text b n = [digit_char n]"
  by (simp add: numeral_text.simps)

lemma numeral_text_step:
  "b \<le> n \<Longrightarrow> 2 \<le> b \<Longrightarrow> numeral_text b n = numeral_text b (n div b) @ [digit_char (n mod b)]"
  by (subst numeral_text.simps) simp

lemma digit_val_digit_char: "d < 16 \<Longrightarrow> digit_val (digit_char d) = d"
  by (simp add: digit_val_def digit_char_def Let_def take_bit_eq_mod)

lemma positional_numeral_text:
  assumes "2 \<le> b" and "b \<le> 16"
  shows "positional b (numeral_text b n) = n"
  using assms
proof (induction b n rule: numeral_text.induct)
  case (1 b n)
  show ?case
  proof (cases "n < b")
    case True
    with 1(3) show ?thesis
      by (simp add: numeral_text_small positional_def digit_val_digit_char)
  next
    case False
    moreover have "n mod b < 16"
      using 1(2,3) mod_less_divisor [of b n] by linarith
    ultimately show ?thesis
      using 1 by (simp add: numeral_text_step positional_snoc digit_val_digit_char)
  qed
qed

lemma numeral_text_length:
  assumes "2 \<le> b" and "n < b ^ Suc k"
  shows "length (numeral_text b n) \<le> Suc k"
  using assms
proof (induction k arbitrary: n)
  case 0
  then show ?case by (simp add: numeral_text_small)
next
  case (Suc k)
  have "n div b < b ^ Suc k"
    using Suc.prems by (simp add: less_mult_imp_div_less mult.commute)
  with Suc show ?case
    by (cases "n < b") (auto simp: numeral_text_small numeral_text_step)
qed

lemma char_of_int: "0 \<le> i \<Longrightarrow> char_of (i :: int) = char_of (nat i)"
  by (simp add: char_of_def bit_nat_iff)

lemma char_of_digit: "0 \<le> d \<Longrightarrow> d < 10 \<Longrightarrow> char_of (d + 48 :: int) = digit_char (nat d)"
  by (simp add: char_of_int digit_char_def nat_add_distrib)

text \<open>
  The loop invariant of the decimal branch: the head still to be printed followed by the
  reversed buffer spells the number.
\<close>

lemma dec_loop_text:
  assumes "0 \<le> i" and "dec_loop i chars = (i', chars')"
  shows "char_of (i' + 48) # rev chars' = numeral_text 10 (nat i) @ rev chars"
  using assms
proof (induction i chars rule: dec_loop.induct)
  case (1 i chars)
  show ?case
  proof (cases "10 \<le> i")
    case True
    with 1 show ?thesis
      by (simp add: dec_loop.simps [of i] numeral_text_step char_of_digit nat_div_distrib
          nat_mod_distrib)
  next
    case False
    with 1(2,3) show ?thesis
      by (auto simp: dec_loop.simps [of i] numeral_text_small char_of_digit)
  qed
qed

lemma dec_text_nonneg: "0 \<le> i \<Longrightarrow> dec_text i = numeral_text 10 (nat i)"
  using dec_loop_text [of i "[]"] by (simp add: dec_text_def split: prod.split)

lemma dec_text_neg: "i < 0 \<Longrightarrow> dec_text i = [char_of (i + 48)]"
  by (simp add: dec_text_def dec_loop.simps)

lemma hex_char_eq: "d < 16 \<Longrightarrow> hex_char d = digit_char (unat d)"
  by (simp add: hex_char_def digit_char_def word_less_nat_alt)

lemma hex_loop_text:
  "rev (map hex_char (hex_loop i chars)) = numeral_text 16 (unat i) @ rev (map hex_char chars)"
proof (induction i chars rule: hex_loop.induct)
  case (1 i chars)
  show ?case
  proof (cases "i \<ge> 16")
    case True
    moreover have "i mod 16 < 16"
      by (simp add: word_less_nat_alt unat_mod)
    ultimately show ?thesis
      using 1 by (simp add: hex_loop.simps [of i] numeral_text_step hex_char_eq unat_div unat_mod
          word_le_nat_alt)
  next
    case False
    then show ?thesis
      by (simp add: hex_loop.simps [of i] numeral_text_small hex_char_eq word_le_nat_alt
          word_less_nat_alt not_le)
  qed
qed

lemma hex_text_eq: "hex_text i = numeral_text 16 (unat i)"
  using hex_loop_text [of i "[]"] by (simp add: hex_text_def)

section \<open>The format language\<close>

text \<open>
  What a caller of \<open>vprintf\<close> means: a format is a sequence of literal pieces and
  conversions, and each conversion comes with the argument it prints.
\<close>

datatype piece = Lit string | Dec "32 word" | Hex u64 | Str string | Chr char

fun piece_fmt :: "piece \<Rightarrow> string" where
  "piece_fmt (Lit t) = t"
| "piece_fmt (Dec _) = ''%i''"
| "piece_fmt (Hex _) = ''%x''"
| "piece_fmt (Str _) = ''%s''"
| "piece_fmt (Chr _) = ''%c''"

fun piece_args :: "piece \<Rightarrow> va list" where
  "piece_args (Lit _) = []"
| "piece_args (Dec w) = [VInt (ucast w)]"
| "piece_args (Hex w) = [VInt w]"
| "piece_args (Str t) = [VStr t]"
| "piece_args (Chr c) = [VInt (ucast (byte_of_char c))]"

fun piece_ok :: "piece \<Rightarrow> bool" where
  "piece_ok (Lit t) = (CHR ''%'' \<notin> set t)"
| "piece_ok (Dec w) = (0 \<le> sint w)"
| "piece_ok _ = True"

fun piece_text :: "piece \<Rightarrow> string" where
  "piece_text (Lit t) = t"
| "piece_text (Dec w) = numeral_text 10 (unat w)"
| "piece_text (Hex w) = numeral_text 16 (unat w)"
| "piece_text (Str t) = t"
| "piece_text (Chr c) = [c]"

lemma fmt_text_lit: "CHR ''%'' \<notin> set t \<Longrightarrow> fmt_text (t @ fmt) args = t @ fmt_text fmt args"
  by (induction t) auto

lemma sint_nonneg_unat:
  assumes "0 \<le> sint (w :: 32 word)"
  shows "nat (sint w) = unat w"
proof -
  have "uint w = take_bit (Suc 31) (uint w)"
    by (simp flip: unsigned_take_bit_eq add: take_bit_word_eq_self)
  also have "\<dots> = 2 ^ 31 * of_bool (bit (uint w) 31) + take_bit 31 (uint w)"
    by (rule take_bit_Suc_from_most)
  finally show ?thesis
    using assms by (simp add: sint_uint signed_take_bit_eq_if_positive)
qed

lemma ucast_ucast_up [simp]:
  "ucast (ucast (w :: 32 word) :: u64) = w" "ucast (ucast (b :: u8) :: u64) = b"
  by (rule bit_word_eqI, simp add: bit_ucast_iff)+

lemma fmt_text_piece:
  assumes "piece_ok p"
  shows "fmt_text (piece_fmt p @ fmt) (piece_args p @ args) = piece_text p @ fmt_text fmt args"
  using assms
  by (cases p) (simp_all add: fmt_text_lit convert_text_def dec_text_nonneg hex_text_eq
      sint_nonneg_unat)

lemma fmt_text_pieces:
  "\<forall>p \<in> set ps. piece_ok p \<Longrightarrow>
   fmt_text (concat (map piece_fmt ps)) (concat (map piece_args ps)) = concat (map piece_text ps)"
  by (induction ps) (auto simp: fmt_text_piece)

lemma dec_loop_length:
  assumes "0 \<le> i"
  shows "Suc (length (snd (dec_loop i []))) = length (numeral_text 10 (nat i))"
  using dec_loop_text [of i "[]" "fst (dec_loop i [])" "snd (dec_loop i [])"] assms
  by (auto dest: arg_cong [of _ _ length])

section \<open>What read leaves behind\<close>

lemma read_loop_step:
  assumes "counter < len" and "inp s = c # cs" and "c \<noteq> CHR 0x0D"
  shows "read_loop buffer len counter s =
    read_loop buffer len (counter + 1)
      (s\<lparr>mem := (mem s)(buffer + counter := byte_of_char c), out := out s @ [c], inp := cs\<rparr>)"
  using assms by (subst read_loop.simps) (cases s, simp add: get_char_def put_char_def)

lemma read_loop_chars:
  assumes "inp s = line @ rest" and "CHR 0x0D \<notin> set line"
    and "unat counter + length line \<le> unat len"
  shows "read_loop buffer len counter s =
    read_loop buffer len (counter + of_nat (length line))
      (s\<lparr>mem := store_bytes (mem s) (buffer + counter) (map byte_of_char line),
         out := out s @ line, inp := rest\<rparr>)"
  using assms
proof (induction line arbitrary: counter s)
  case Nil
  then show ?case by (cases s) (simp add: store_bytes_def)
next
  case (Cons c line)
  have lt: "counter < len"
    using Cons.prems(3) by (simp add: word_less_nat_alt)
  have suc: "unat (counter + 1) = unat counter + 1"
    using Cons.prems(3) unat_bound [of len] by (simp add: unat_word_ariths)
  have upd: "store_bytes ((mem s)(buffer + counter := byte_of_char c)) (buffer + (counter + 1))
      (map byte_of_char line) = store_bytes (mem s) (buffer + counter) (map byte_of_char (c # line))"
    using store_bytes_Cons [of "byte_of_char c" "map byte_of_char line" "mem s" "buffer + counter"]
      Cons.prems(3) unat_bound [of len]
    by (simp add: add.assoc)
  let ?s1 = "s\<lparr>mem := (mem s)(buffer + counter := byte_of_char c), out := out s @ [c],
    inp := line @ rest\<rparr>"
  have "read_loop buffer len counter s = read_loop buffer len (counter + 1) ?s1"
    by (rule read_loop_step) (use Cons.prems lt in auto)
  also have "\<dots> = read_loop buffer len (counter + 1 + of_nat (length line))
      (?s1\<lparr>mem := store_bytes (mem ?s1) (buffer + (counter + 1)) (map byte_of_char line),
         out := out ?s1 @ line, inp := rest\<rparr>)"
    by (rule Cons.IH) (use Cons.prems suc in auto)
  finally show ?case
    using upd by (simp add: add.assoc)
qed

lemma read_loop_cr:
  assumes "counter < len" and "inp s = CHR 0x0D # cs"
  shows "read_loop buffer len counter s =
    Some (counter, s\<lparr>mem := (mem s)(buffer + counter := 0), out := out s @ [CHR 0x0A], inp := cs\<rparr>)"
  using assms by (subst read_loop.simps) (cases s, simp add: get_char_def put_char_def)

lemma read_loop_full: "\<not> counter < len \<Longrightarrow> read_loop buffer len counter s = Some (counter, s)"
  by (subst read_loop.simps) simp

section \<open>Properties\<close>

text \<open>
  C15: the kernel's \<^verbatim>\<open>vprintf\<close> prints what its format means. For every format made of
  literal text and the conversions \<^verbatim>\<open>%i %x %s %c\<close>, called with the arguments those
  conversions ask for (non-negative where \<^verbatim>\<open>%i\<close> prints), the bytes sent to the UART are
  exactly the literals and the decimal, upper-case hexadecimal, string and character renderings
  of the arguments, in order, and nothing else of the state changes.
\<close>

theorem vprintf_renders:
  assumes "\<forall>p \<in> set ps. piece_ok p"
  shows "vprintf (concat (map piece_fmt ps)) (concat (map piece_args ps)) s =
    s\<lparr>out := out s @ concat (map piece_text ps)\<rparr>"
  using assms by (simp add: vprintf_eq fmt_text_pieces)

theorem vprintf_renders_witness:
  "vprintf ''Allocated %i bytes at 0x%x'' [VInt 512, VInt 0xFFFF800100000010]
     \<lparr>mem = \<lambda>_. 0, out = [], inp = [], logLevel = 0\<rparr> =
   \<lparr>mem = \<lambda>_. 0, out = ''Allocated 512 bytes at 0xFFFF800100000010'', inp = [], logLevel = 0\<rparr>"
proof -
  have "numeral_text 10 512 = ''512''" "numeral_text 16 0xFFFF800100000010 = ''FFFF800100000010''"
    by (simp_all add: numeral_text.simps digit_char_def char_of_def bit_0)
  then show ?thesis
    using vprintf_renders [of "[Lit ''Allocated '', Dec 512, Lit '' bytes at 0x'', Hex 0xFFFF800100000010]"
        "\<lparr>mem = \<lambda>_. 0, out = [], inp = [], logLevel = 0\<rparr>"]
    by (simp del: vprintf.simps)
qed

text \<open>
  C30: the numbers \<^verbatim>\<open>%i\<close> and \<^verbatim>\<open>%x\<close> print can be read back: the text is a
  numeral of the argument's value in base ten or sixteen.
\<close>

theorem printed_numbers_read_back:
  assumes "0 \<le> i"
  shows "(\<exists>t. put_dec i s = s\<lparr>out := out s @ t\<rparr> \<and> positional 10 t = nat i) \<and>
    (\<exists>t. put_hex w s = s\<lparr>out := out s @ t\<rparr> \<and> positional 16 t = unat w)"
  using assms
  by (auto simp: put_dec_eq put_hex_eq dec_text_nonneg hex_text_eq positional_numeral_text)

theorem printed_numbers_read_back_witness:
  "(\<exists>t. put_dec 4096 \<lparr>mem = \<lambda>_. 0, out = ''>'', inp = [], logLevel = 0\<rparr> =
     \<lparr>mem = \<lambda>_. 0, out = CHR ''>'' # t, inp = [], logLevel = 0\<rparr> \<and> positional 10 t = 4096) \<and>
   (\<exists>t. put_hex 0xFF \<lparr>mem = \<lambda>_. 0, out = ''>'', inp = [], logLevel = 0\<rparr> =
     \<lparr>mem = \<lambda>_. 0, out = CHR ''>'' # t, inp = [], logLevel = 0\<rparr> \<and> positional 16 t = 255)"
  using printed_numbers_read_back
    [where i = 4096 and s = "\<lparr>mem = \<lambda>_. 0, out = ''>'', inp = [], logLevel = 0\<rparr>" and w = "0xFF"]
  by simp

text \<open>
  C40: a negative argument of \<^verbatim>\<open>%i\<close> is not printed as a number: one byte is sent, with the
  code 48 plus the value, modulo 256 (so \<open>-1\<close> prints a slash).
\<close>

theorem negative_decimal_prints_one_byte:
  assumes "i < 0"
  shows "put_dec i s = s\<lparr>out := out s @ [char_of (i + 48)]\<rparr>"
  using assms by (simp add: put_dec_eq dec_text_neg)

theorem negative_decimal_prints_one_byte_witness:
  "put_dec (- 1) \<lparr>mem = \<lambda>_. 0, out = [], inp = [], logLevel = 0\<rparr> =
   \<lparr>mem = \<lambda>_. 0, out = ''/'', inp = [], logLevel = 0\<rparr>"
proof -
  have "char_of (47 :: int) = CHR ''/''" by (simp add: char_of_def bit_0)
  then show ?thesis
    using negative_decimal_prints_one_byte [of "- 1" "\<lparr>mem = \<lambda>_. 0, out = [], inp = [], logLevel = 0\<rparr>"]
    by simp
qed

text \<open>
  C31: the digit buffers of \<^verbatim>\<open>vprintf\<close> never overflow: at most 9 of the 40 bytes of
  the decimal buffer and at most 16 of the 200 bytes of the hexadecimal buffer are used,
  whatever the argument.
\<close>

theorem vprintf_digit_buffers:
  "length (snd (dec_loop (sint (w :: 32 word)) [])) \<le> 9 \<and> length (hex_loop v []) \<le> 16"
proof
  show "length (snd (dec_loop (sint w) [])) \<le> 9"
  proof (cases "0 \<le> sint w")
    case True
    have "sint w < 2 ^ 31" using sint_lt [of w] by simp
    then have "length (numeral_text 10 (nat (sint w))) \<le> Suc 9"
      by (intro numeral_text_length) auto
    with dec_loop_length [OF True] show ?thesis by simp
  next
    case False
    then show ?thesis by (simp add: dec_loop.simps)
  qed
  have "length (numeral_text 16 (unat v)) \<le> Suc 15"
    using unat_bound [of v] by (intro numeral_text_length) auto
  moreover have "length (hex_loop v []) = length (numeral_text 16 (unat v))"
    using arg_cong [OF hex_loop_text [of v "[]"], of length] by simp
  ultimately show "length (hex_loop v []) \<le> 16" by simp
qed

text \<open>
  C25: \<^verbatim>\<open>read\<close> on a line that fits: the line's bytes and a terminating NUL are in
  the caller's buffer, every other byte of memory is unchanged, the line and a newline were
  echoed, the carriage return was consumed and the line's length is returned.
\<close>

theorem read_line_fits:
  assumes "inp s = line @ CHR 0x0D # rest" and "CHR 0x0D \<notin> set line"
    and "length line < unat len"
  shows "read buffer len s =
    Some (of_nat (length line),
      s\<lparr>mem := store_bytes (mem s) buffer (map byte_of_char line @ [0]),
        out := out s @ line @ [CHR 0x0A], inp := rest\<rparr>)"
proof -
  have "of_nat (length line) < len"
    using assms(3) unat_bound [of len] by (simp add: word_less_nat_alt unat_of_nat)
  then show ?thesis
    using assms unat_bound [of len] store_bytes_snoc [of "map byte_of_char line" 0 "mem s" buffer]
    by (simp add: read_def read_loop_chars [of s line] read_loop_cr)
qed

theorem read_line_fits_witness:
  "read 0x1000 20 \<lparr>mem = \<lambda>_. 7, out = [], inp = ''ls'' @ CHR 0x0D # ''x'', logLevel = 0\<rparr> =
   Some (2, \<lparr>mem = store_bytes (\<lambda>_. 7) 0x1000 (map byte_of_char ''ls'' @ [0]),
     out = ''ls'' @ [CHR 0x0A], inp = ''x'', logLevel = 0\<rparr>)"
  using read_line_fits
    [where s = "\<lparr>mem = \<lambda>_. 7, out = [], inp = ''ls'' @ CHR 0x0D # ''x'', logLevel = 0\<rparr>"
      and line = "''ls''" and rest = "''x''" and len = 20 and buffer = "0x1000"]
  by simp

text \<open>
  \<^verbatim>\<open>read\<close> when the line does not fit: exactly \<^verbatim>\<open>size\<close> bytes are stored,
  none beyond the buffer, and no terminating NUL is written.
\<close>

theorem read_line_too_long:
  assumes "inp s = line @ rest" and "CHR 0x0D \<notin> set line" and "length line = unat len"
  shows "read buffer len s =
    Some (len, s\<lparr>mem := store_bytes (mem s) buffer (map byte_of_char line),
      out := out s @ line, inp := rest\<rparr>)"
  using assms by (simp add: read_def read_loop_chars [of s line] read_loop_full)

theorem read_line_too_long_witness:
  "read 0x1000 2 \<lparr>mem = \<lambda>_. 7, out = [], inp = ''ls'' @ CHR 0x0D # ''x'', logLevel = 0\<rparr> =
   Some (2, \<lparr>mem = store_bytes (\<lambda>_. 7) 0x1000 (map byte_of_char ''ls''),
     out = ''ls'', inp = CHR 0x0D # ''x'', logLevel = 0\<rparr>)"
  using read_line_too_long
    [where s = "\<lparr>mem = \<lambda>_. 7, out = [], inp = ''ls'' @ CHR 0x0D # ''x'', logLevel = 0\<rparr>"
      and line = "''ls''" and rest = "CHR 0x0D # ''x''" and len = 2 and buffer = "0x1000"]
  by simp

end
