(* ===== verification/Uart.thy ===== *)
theory Uart
  imports Console
begin

text \<open>
  The UART driver, \<^verbatim>\<open>kernel/UART.cpp\<close>: initialisation and the two polling loops.

  The device is not code of the repository; it is the parameter \<open>D\<close>, a pair of functions
  for reading and writing a register of a device state. What the loops rely on is the named
  hypothesis \<open>uart_spec\<close>: a line-status read loses nothing, a busy transmitter becomes empty
  and a pending character becomes available after finitely many polls, and the data register then
  accepts or delivers one character. The device \<open>ns16550\<close> satisfies it.

  The result is that the polling loops implement the contract \<open>put_char\<close>/\<open>get_char\<close> of
  theory \<open>Console\<close> on which every other component is built.
\<close>

section \<open>Registers\<close>

definition UART :: u64 where
  [layout_defs]: "UART = 0xFFFF800000000000 + 0x10000000"

definition UART_THR :: u64 where
  [layout_defs]: "UART_THR = UART + 0x00"

definition UART_RHR :: u64 where
  [layout_defs]: "UART_RHR = UART + 0x00"

definition UART_DLL :: u64 where
  [layout_defs]: "UART_DLL = UART + 0x00"

definition UART_DLM :: u64 where
  [layout_defs]: "UART_DLM = UART + 0x01"

definition UART_IER :: u64 where
  [layout_defs]: "UART_IER = UART + 0x01"

definition UART_LCR :: u64 where
  [layout_defs]: "UART_LCR = UART + 0x03"

definition UART_LSR :: u64 where
  [layout_defs]: "UART_LSR = UART + 0x05"

definition UART_LSR_EMPTY_MASK :: u8 where
  "UART_LSR_EMPTY_MASK = 0x40"

definition UART_LSR_RX_READY :: u8 where
  "UART_LSR_RX_READY = 0x01"

record 'd uart_dev =
  regr :: "u64 \<Rightarrow> 'd \<Rightarrow> u8 \<times> 'd"
  regw :: "u64 \<Rightarrow> u8 \<Rightarrow> 'd \<Rightarrow> 'd"

section \<open>The driver\<close>

definition uart_init :: "'d uart_dev \<Rightarrow> 'd \<Rightarrow> 'd" where
  "uart_init D d =
     (let d = regw D UART_IER 0x00 d;
          (lcr, d) = regr D UART_LCR d;
          d = regw D UART_LCR (lcr OR push_bit 7 1) d;
          d = regw D UART_DLL 0x03 d;
          d = regw D UART_DLM 0x00 d;
          lcr = 0;
          d = regw D UART_LCR (lcr OR push_bit 0 3) d;
          (ier, d) = regr D UART_IER d
      in regw D UART_IER (ier OR push_bit 0 1) d)"

partial_function (option) uart_put_char :: "'d uart_dev \<Rightarrow> u8 \<Rightarrow> 'd \<Rightarrow> 'd option" where
  "uart_put_char D c d =
     (let (lsr, d) = regr D UART_LSR d in
      if lsr AND UART_LSR_EMPTY_MASK = 0 then uart_put_char D c d
      else Some (regw D UART_THR c d))"

partial_function (option) uart_get_char :: "'d uart_dev \<Rightarrow> 'd \<Rightarrow> (u8 \<times> 'd) option" where
  "uart_get_char D d =
     (let (lsr, d) = regr D UART_LSR d in
      if lsr AND UART_LSR_RX_READY = 0 then uart_get_char D d
      else Some (regr D UART_RHR d))"

section \<open>What the loops rely on\<close>

text \<open>
  \<open>tx\<close> is what the device has transmitted, \<open>rx\<close> what it will still deliver, \<open>wait\<close> a
  bound on the number of polls until the next event. The hypothesis is about states \<open>ok\<close>,
  in which the divisor latch is closed.
\<close>

definition uart_spec ::
  "'d uart_dev \<Rightarrow> ('d \<Rightarrow> bool) \<Rightarrow> ('d \<Rightarrow> string) \<Rightarrow> ('d \<Rightarrow> string) \<Rightarrow> ('d \<Rightarrow> nat) \<Rightarrow> bool" where
  "uart_spec D ok tx rx wait \<longleftrightarrow>
     (\<forall>d. ok d \<longrightarrow> (let (v, d') = regr D UART_LSR d in
        ok d' \<and> tx d' = tx d \<and> rx d' = rx d \<and>
        (v AND UART_LSR_EMPTY_MASK = 0 \<longrightarrow> wait d' < wait d) \<and>
        (v AND UART_LSR_RX_READY = 0 \<and> rx d \<noteq> [] \<longrightarrow> wait d' < wait d) \<and>
        (v AND UART_LSR_EMPTY_MASK \<noteq> 0 \<longrightarrow> (\<forall>c. let d'' = regw D UART_THR c d' in
           ok d'' \<and> tx d'' = tx d @ [char_of_byte c] \<and> rx d'' = rx d)) \<and>
        (v AND UART_LSR_RX_READY \<noteq> 0 \<longrightarrow> rx d \<noteq> [] \<and> (let (c, d'') = regr D UART_RHR d' in
           ok d'' \<and> tx d'' = tx d \<and> rx d = char_of_byte c # rx d''))))"

definition uart_refines ::
  "('d \<Rightarrow> bool) \<Rightarrow> ('d \<Rightarrow> string) \<Rightarrow> ('d \<Rightarrow> string) \<Rightarrow> 'd \<Rightarrow> 'a kio_scheme \<Rightarrow> bool" where
  "uart_refines ok tx rx d s \<longleftrightarrow> ok d \<and> tx d = out s \<and> rx d = inp s"

lemma uart_poll:
  assumes "uart_spec D ok tx rx wait" and "ok d"
  obtains v d' where "regr D UART_LSR d = (v, d')" "ok d'" "tx d' = tx d" "rx d' = rx d"
    "v AND UART_LSR_EMPTY_MASK = 0 \<Longrightarrow> wait d' < wait d"
    "v AND UART_LSR_RX_READY = 0 \<Longrightarrow> rx d \<noteq> [] \<Longrightarrow> wait d' < wait d"
    "\<And>c. v AND UART_LSR_EMPTY_MASK \<noteq> 0 \<Longrightarrow> ok (regw D UART_THR c d') \<and>
       tx (regw D UART_THR c d') = tx d @ [char_of_byte c] \<and> rx (regw D UART_THR c d') = rx d"
    "v AND UART_LSR_RX_READY \<noteq> 0 \<Longrightarrow> \<exists>c d''. regr D UART_RHR d' = (c, d'') \<and> ok d'' \<and>
       tx d'' = tx d \<and> rx d = char_of_byte c # rx d''"
proof -
  obtain v d' where v: "regr D UART_LSR d = (v, d')" by (cases "regr D UART_LSR d")
  have sp: "let (v, d') = regr D UART_LSR d in
        ok d' \<and> tx d' = tx d \<and> rx d' = rx d \<and>
        (v AND UART_LSR_EMPTY_MASK = 0 \<longrightarrow> wait d' < wait d) \<and>
        (v AND UART_LSR_RX_READY = 0 \<and> rx d \<noteq> [] \<longrightarrow> wait d' < wait d) \<and>
        (v AND UART_LSR_EMPTY_MASK \<noteq> 0 \<longrightarrow> (\<forall>c. let d'' = regw D UART_THR c d' in
           ok d'' \<and> tx d'' = tx d @ [char_of_byte c] \<and> rx d'' = rx d)) \<and>
        (v AND UART_LSR_RX_READY \<noteq> 0 \<longrightarrow> rx d \<noteq> [] \<and> (let (c, d'') = regr D UART_RHR d' in
           ok d'' \<and> tx d'' = tx d \<and> rx d = char_of_byte c # rx d''))"
    using assms unfolding uart_spec_def by blast
  show ?thesis
    using sp v by (intro that [of v d']) (auto simp: Let_def split: prod.splits)
qed

lemma uart_put_char_ok:
  assumes "uart_spec D ok tx rx wait" and "ok d"
  shows "\<exists>d'. uart_put_char D c d = Some d' \<and> ok d' \<and> tx d' = tx d @ [char_of_byte c] \<and> rx d' = rx d"
  using assms(2)
proof (induction "wait d" arbitrary: d rule: less_induct)
  case less
  obtain v d' where p: "regr D UART_LSR d = (v, d')" "ok d'" "tx d' = tx d" "rx d' = rx d"
    "v AND UART_LSR_EMPTY_MASK = 0 \<Longrightarrow> wait d' < wait d"
    "\<And>c. v AND UART_LSR_EMPTY_MASK \<noteq> 0 \<Longrightarrow> ok (regw D UART_THR c d') \<and>
       tx (regw D UART_THR c d') = tx d @ [char_of_byte c] \<and> rx (regw D UART_THR c d') = rx d"
    using uart_poll [OF assms(1) less.prems] by metis
  show ?case
  proof (cases "v AND UART_LSR_EMPTY_MASK = 0")
    case True
    with p less.hyps [OF p(5) [OF True] p(2)] show ?thesis
      by (subst uart_put_char.simps) simp
  next
    case False
    with p show ?thesis by (subst uart_put_char.simps) simp
  qed
qed

lemma uart_get_char_ok:
  assumes "uart_spec D ok tx rx wait" and "ok d" and "rx d = ch # cs"
  shows "\<exists>c d'. uart_get_char D d = Some (c, d') \<and> ch = char_of_byte c \<and> ok d' \<and> tx d' = tx d \<and> rx d' = cs"
  using assms(2,3)
proof (induction "wait d" arbitrary: d rule: less_induct)
  case less
  obtain v d' where p: "regr D UART_LSR d = (v, d')" "ok d'" "tx d' = tx d" "rx d' = rx d"
    "v AND UART_LSR_RX_READY = 0 \<Longrightarrow> wait d' < wait d"
    "v AND UART_LSR_RX_READY \<noteq> 0 \<Longrightarrow> \<exists>c d''. regr D UART_RHR d' = (c, d'') \<and> ok d'' \<and>
       tx d'' = tx d \<and> rx d = char_of_byte c # rx d''"
    using uart_poll [OF assms(1) less.prems(1)] less.prems(2) by (metis list.distinct(1))
  show ?case
  proof (cases "v AND UART_LSR_RX_READY = 0")
    case True
    with p less.prems(2) less.hyps [OF p(5) [OF True] p(2)] show ?thesis
      by (subst uart_get_char.simps) simp
  next
    case False
    with p less.prems(2) show ?thesis by (subst uart_get_char.simps) auto
  qed
qed

text \<open>With nothing to deliver the loop never returns.\<close>

lemma uart_get_char_waits:
  assumes "uart_spec D ok tx rx wait" and "ok d" and "rx d = []"
  shows "uart_get_char D d = None"
proof (rule ccontr)
  assume "uart_get_char D d \<noteq> None"
  then obtain y where y: "uart_get_char D d = Some y" by blast
  have "D = D \<longrightarrow> ok d \<longrightarrow> rx d \<noteq> []"
  proof (rule uart_get_char.raw_induct [OF _ y, of "\<lambda>D' d _. D' = D \<longrightarrow> ok d \<longrightarrow> rx d \<noteq> []"], intro impI)
    fix f D' d y
    assume IH: "\<And>D' d y. f D' d = Some y \<Longrightarrow> D' = D \<longrightarrow> ok d \<longrightarrow> rx d \<noteq> []"
      and step: "(let (lsr, d) = regr D' UART_LSR d in
        if lsr AND UART_LSR_RX_READY = 0 then f D' d else Some (regr D' UART_RHR d)) = Some y"
      and "D' = D" and "ok d"
    obtain v d' where p: "regr D UART_LSR d = (v, d')" "ok d'" "rx d' = rx d"
      "v AND UART_LSR_RX_READY \<noteq> 0 \<Longrightarrow> \<exists>c d''. regr D UART_RHR d' = (c, d'') \<and> ok d'' \<and>
         tx d'' = tx d \<and> rx d = char_of_byte c # rx d''"
      using uart_poll [OF assms(1) \<open>ok d\<close>] by metis
    show "rx d \<noteq> []"
    proof (cases "v AND UART_LSR_RX_READY = 0")
      case True
      then show ?thesis using IH [of D d' y] step p(1-3) \<open>D' = D\<close> by simp
    next
      case False
      then show ?thesis using p(4) by auto
    qed
  qed
  with assms show False by simp
qed

section \<open>A 16550\<close>

text \<open>
  A register-level device: the divisor latch is open while bit 7 of the line control register is
  set, in which case offsets 0 and 1 are the divisor. \<open>busy\<close> counts the polls the transmitter
  needs after a character.
\<close>

record ns16550 =
  ier :: u8
  lcr :: u8
  dll :: u8
  dlm :: u8
  sent :: string
  queue :: string
  busy :: nat

definition ns_regr :: "u64 \<Rightarrow> ns16550 \<Rightarrow> u8 \<times> ns16550" where
  "ns_regr a d =
     (if a = UART_LSR then
        ((if busy d = 0 then 0x40 else 0) OR (if queue d = [] then 0 else 1), d\<lparr>busy := busy d - 1\<rparr>)
      else if a = UART_LCR then (lcr d, d)
      else if a = UART_IER then (if bit (lcr d) 7 then (dlm d, d) else (ier d, d))
      else if a = UART_RHR then
        (if bit (lcr d) 7 then (dll d, d)
         else case queue d of [] \<Rightarrow> (0, d) | c # cs \<Rightarrow> (byte_of_char c, d\<lparr>queue := cs\<rparr>))
      else (0, d))"

definition ns_regw :: "u64 \<Rightarrow> u8 \<Rightarrow> ns16550 \<Rightarrow> ns16550" where
  "ns_regw a v d =
     (if a = UART_LCR then d\<lparr>lcr := v\<rparr>
      else if a = UART_IER then (if bit (lcr d) 7 then d\<lparr>dlm := v\<rparr> else d\<lparr>ier := v\<rparr>)
      else if a = UART_THR then
        (if bit (lcr d) 7 then d\<lparr>dll := v\<rparr> else d\<lparr>sent := sent d @ [char_of_byte v], busy := 10\<rparr>)
      else d)"

definition ns_dev :: "ns16550 uart_dev" where
  "ns_dev = \<lparr>regr = ns_regr, regw = ns_regw\<rparr>"

lemma ns_dev_spec: "uart_spec ns_dev (\<lambda>d. \<not> bit (lcr d) 7) sent queue busy"
  by (auto simp: uart_spec_def ns_dev_def ns_regr_def ns_regw_def layout_defs Let_def
      UART_LSR_EMPTY_MASK_def UART_LSR_RX_READY_def split: list.splits)

section \<open>Properties\<close>

text \<open>
  C22: the polling \<^verbatim>\<open>put_char\<close> terminates on every device that satisfies \<open>uart_spec\<close>
  and refines the contract the rest of the development uses: one more character in \<open>out\<close>.
\<close>

theorem uart_put_char_refines:
  assumes "uart_spec D ok tx rx wait" and "uart_refines ok tx rx d s"
  shows "\<exists>d'. uart_put_char D (byte_of_char c) d = Some d' \<and> uart_refines ok tx rx d' (put_char c s)"
  using uart_put_char_ok [OF assms(1), of d "byte_of_char c"] assms(2)
  by (auto simp: uart_refines_def put_char_def)

theorem uart_put_char_refines_witness:
  "\<exists>d'. uart_put_char ns_dev (byte_of_char (CHR ''A''))
     \<lparr>ier = 0, lcr = 3, dll = 3, dlm = 0, sent = [], queue = [], busy = 4\<rparr> = Some d' \<and> sent d' = ''A''"
proof -
  have "uart_refines (\<lambda>d. \<not> bit (lcr d) 7) sent queue
      \<lparr>ier = 0, lcr = 3, dll = 3, dlm = 0, sent = [], queue = [], busy = 4\<rparr>
      \<lparr>mem = \<lambda>_. 0, out = [], inp = [], logLevel = 0\<rparr>"
    by (simp add: uart_refines_def)
  from uart_put_char_refines [OF ns_dev_spec this, of "CHR ''A''"] show ?thesis
    by (auto simp: uart_refines_def put_char_def)
qed

text \<open>
  C23: the polling \<^verbatim>\<open>get_char\<close> returns exactly when the contract does: with a character
  to come it terminates and delivers that character, with none it polls forever.
\<close>

theorem uart_get_char_refines:
  assumes "uart_spec D ok tx rx wait" and "uart_refines ok tx rx d s"
  shows "case get_char s of
      None \<Rightarrow> uart_get_char D d = None
    | Some (c, s') \<Rightarrow> \<exists>d'. uart_get_char D d = Some (byte_of_char c, d') \<and> uart_refines ok tx rx d' s'"
proof (cases "inp s")
  case Nil
  then show ?thesis
    using uart_get_char_waits [OF assms(1), of d] assms(2) by (simp add: get_char_def uart_refines_def)
next
  case (Cons c cs)
  then show ?thesis
    using uart_get_char_ok [OF assms(1), of d c cs] assms(2)
    by (auto simp: get_char_def uart_refines_def)
qed

theorem uart_get_char_refines_witness:
  "\<exists>d'. uart_get_char ns_dev
     \<lparr>ier = 0, lcr = 3, dll = 3, dlm = 0, sent = [], queue = ''xy'', busy = 0\<rparr> =
       Some (byte_of_char (CHR ''x''), d') \<and> queue d' = ''y''"
proof -
  have "uart_refines (\<lambda>d. \<not> bit (lcr d) 7) sent queue
      \<lparr>ier = 0, lcr = 3, dll = 3, dlm = 0, sent = [], queue = ''xy'', busy = 0\<rparr>
      \<lparr>mem = \<lambda>_. 0, out = [], inp = ''xy'', logLevel = 0\<rparr>"
    by (simp add: uart_refines_def)
  from uart_get_char_refines [OF ns_dev_spec this] show ?thesis
    by (auto simp: uart_refines_def get_char_def)
qed

text \<open>
  \<^verbatim>\<open>uart_init\<close> on a 16550 in any state: the divisor becomes 3, the line is set to
  eight data bits with the divisor latch closed, the receive interrupt is enabled, and no
  character is transmitted or lost on the way. The other interrupts are disabled unless the
  divisor latch was open before, in which case the first write does not reach the interrupt
  register.
\<close>

theorem uart_init_16550:
  "uart_init ns_dev d = d\<lparr>ier := 1, lcr := 3, dll := 3, dlm := 0\<rparr> \<or>
   bit (lcr d) 7 \<and> uart_init ns_dev d = d\<lparr>ier := ier d OR 1, lcr := 3, dll := 3, dlm := 0\<rparr>"
  by (cases d) (auto simp: uart_init_def ns_dev_def ns_regr_def ns_regw_def layout_defs Let_def bit_or_iff)

end
