(* ===== verification/Phys_Alloc.thy ===== *)
theory Phys_Alloc
  imports Console
begin

text \<open>
  The physical frame allocator, \<^verbatim>\<open>kernel/memory/physical_allocator.cpp\<close>.

  The allocator keeps one flag byte per 4096-byte frame, from
  \<^verbatim>\<open>managed_frames_address_start\<close> on, and hands out frames from
  \<^verbatim>\<open>first_frame_address\<close> on. The symbols the linker script and \<^verbatim>\<open>mem.s\<close> provide
  are the record \<open>linker\<close>; \<open>linker_ok\<close> is what \<^verbatim>\<open>kernel/linker.ld\<close> makes of them.

  The interface other components use is the locale \<open>frame_allocator\<close>: allocation returns a
  frame nobody owns and makes it owned, release gives it back, and both keep the invariant. It
  is interpreted here on \<open>kalloc_frame\<close> and \<open>kfree_frame\<close>.
\<close>

section \<open>Layout constants\<close>

definition VIRTUAL_OFFSET :: u64 where
  [layout_defs]: "VIRTUAL_OFFSET = 0xFFFF800000000000"

definition FRAME_SIZE :: u64 where
  [layout_defs]: "FRAME_SIZE = 4096"

definition FRAMES_FOR_MANAGING :: u64 where
  [layout_defs]: "FRAMES_FOR_MANAGING = 8"

record linker =
  TEXT_START :: u64
  TEXT_END :: u64
  RODATA_START :: u64
  RODATA_END :: u64
  DATA_START :: u64
  DATA_END :: u64
  BSS_START :: u64
  BSS_END :: u64
  PHYSICAL_HEAP_START :: u64
  PHYSICAL_HEAP_SIZE :: u64

section \<open>State and operations\<close>

record phys = kio +
  managed_frames_address_start :: u64
  first_frame_address :: u64

definition get_frame_number :: "u64 \<Rightarrow> 'a phys_scheme \<Rightarrow> u32" where
  "get_frame_number frame_address s = ucast ((frame_address - first_frame_address s) div FRAME_SIZE)"

definition set_pageframe_free :: "u64 \<Rightarrow> 'a kio_scheme \<Rightarrow> 'a kio_scheme" where
  "set_pageframe_free frame s = s\<lparr>mem := (mem s)(frame := 0)\<rparr>"

definition set_pageframe_allocated :: "u64 \<Rightarrow> 'a kio_scheme \<Rightarrow> 'a kio_scheme" where
  "set_pageframe_allocated frame s = s\<lparr>mem := (mem s)(frame := 1)\<rparr>"

definition is_free :: "u64 \<Rightarrow> mem \<Rightarrow> bool" where
  "is_free frameFlags m \<longleftrightarrow> m frameFlags = 0"

definition allign_address :: "u64 \<Rightarrow> u64 \<Rightarrow> u64" where
  "allign_address address num = (address + num - 1) AND NOT (num - 1)"

text \<open>
  The number of frames is computed in \<^verbatim>\<open>int64_t\<close> (truncating division) and stored in a
  \<^verbatim>\<open>uint32_t\<close>.
\<close>

definition num_frames :: "linker \<Rightarrow> u32" where
  "num_frames L =
     (let q = sint (PHYSICAL_HEAP_SIZE L) in
      word_of_int (sgn q * (\<bar>q\<bar> div 4096) - 8))"

function init_flags :: "u32 \<Rightarrow> u32 \<Rightarrow> 'a phys_scheme \<Rightarrow> 'a phys_scheme" where
  "init_flags i n s =
     (if i < n then
        init_flags (i + 1) n (set_pageframe_free (managed_frames_address_start s + ucast i) s)
      else s)"
  by pat_completeness auto
termination
  by (relation "measure (\<lambda>(i, n, _). unat n - unat i)")
    (auto simp: unat_add_one, simp add: word_less_nat_alt)

declare init_flags.simps [simp del]

definition physical_allocator_init :: "linker \<Rightarrow> 'a phys_scheme \<Rightarrow> 'a phys_scheme" where
  "physical_allocator_init L s0 =
     (let s = log PHYSICAL_MEMORY ''Initialising physical allocator'' [] s0;
          n = num_frames L;
          s = log SYSTEM ''TEXT:            0x%x -> 0x%x'' [VInt (TEXT_START L), VInt (TEXT_END L)] s;
          s = log SYSTEM ''RODATA:          0x%x -> 0x%x'' [VInt (RODATA_START L), VInt (RODATA_END L)] s;
          s = log SYSTEM ''DATA:            0x%x -> 0x%x'' [VInt (DATA_START L), VInt (DATA_END L)] s;
          s = log SYSTEM ''BSS:             0x%x -> 0x%x'' [VInt (BSS_START L), VInt (BSS_END L)] s;
          s = log SYSTEM ''PHYSICAL HEAP:   0x%x -> 0x%x''
                [VInt (PHYSICAL_HEAP_START L), VInt (PHYSICAL_HEAP_START L + PHYSICAL_HEAP_SIZE L)] s;
          s = log SYSTEM ''Amount of frames that can be allocated by the physical allocator: %i''
                [VInt (ucast n)] s;
          s = s\<lparr>managed_frames_address_start := allign_address (BSS_END L) FRAME_SIZE\<rparr>;
          s = s\<lparr>first_frame_address :=
                allign_address (PHYSICAL_HEAP_START L + FRAMES_FOR_MANAGING * FRAME_SIZE) FRAME_SIZE\<rparr>;
          s = log SYSTEM ''Location of frame management: 0x%x''
                [VInt (managed_frames_address_start s)] s;
          s = init_flags 0 n s
      in log PHYSICAL_MEMORY ''Initialization of physical allocator done'' [] s)"

text \<open>
  The search of \<^verbatim>\<open>kalloc_frame\<close> has no bound: it walks the flag bytes until one is zero.
  \<open>None\<close> is a search that never stops.
\<close>

partial_function (option) find_free :: "mem \<Rightarrow> u64 \<Rightarrow> u32 \<Rightarrow> (u64 \<times> u32) option" where
  "find_free m currentFrameFlags currentIndex =
     (if is_free currentFrameFlags m then Some (currentFrameFlags, currentIndex)
      else find_free m (currentFrameFlags + 1) (currentIndex + 1))"

definition kalloc_frame :: "'a phys_scheme \<Rightarrow> (u64 \<times> 'a phys_scheme) option" where
  "kalloc_frame s = do {
     (flags, currentIndex) \<leftarrow> find_free (mem s) (managed_frames_address_start s) 0;
     let s1 = set_pageframe_allocated flags s;
     let addr = first_frame_address s1 + ucast (currentIndex * 4096);
     Some (addr, log PHYSICAL_MEMORY ''Allocated frame %i at address 0x%x''
                   [VInt (ucast currentIndex), VInt addr] s1)
   }"

definition kfree_frame :: "u64 \<Rightarrow> 'a phys_scheme \<Rightarrow> 'a phys_scheme" where
  "kfree_frame frame s =
     set_pageframe_free (managed_frames_address_start s + ucast (get_frame_number frame s)) s"

lemma log_frame_phys [simp]:
  "managed_frames_address_start (log level fmt args s) = managed_frames_address_start s"
  "first_frame_address (log level fmt args s) = first_frame_address s"
  by (simp_all add: log_eq)

section \<open>The contract\<close>

text \<open>
  A frame allocator owns a finite set of frames, part of which is handed out. Clients rely on
  these laws only.
\<close>

locale frame_allocator =
  fixes alloc :: "'s \<Rightarrow> (u64 \<times> 's) option"
    and release :: "u64 \<Rightarrow> 's \<Rightarrow> 's"
    and frames :: "'s \<Rightarrow> u64 set"
    and owned :: "'s \<Rightarrow> u64 set"
    and invar :: "'s \<Rightarrow> bool"
  assumes finite_frames: "finite (frames s)"
    and owned_frames: "owned s \<subseteq> frames s"
    and alloc_total: "invar s \<Longrightarrow> owned s \<noteq> frames s \<Longrightarrow> \<exists>f s'. alloc s = Some (f, s')"
    and alloc_fresh: "invar s \<Longrightarrow> owned s \<noteq> frames s \<Longrightarrow> alloc s = Some (f, s') \<Longrightarrow>
      f \<in> frames s - owned s"
    and alloc_owned: "invar s \<Longrightarrow> owned s \<noteq> frames s \<Longrightarrow> alloc s = Some (f, s') \<Longrightarrow>
      owned s' = insert f (owned s)"
    and alloc_frames: "invar s \<Longrightarrow> owned s \<noteq> frames s \<Longrightarrow> alloc s = Some (f, s') \<Longrightarrow>
      frames s' = frames s"
    and alloc_invar: "invar s \<Longrightarrow> owned s \<noteq> frames s \<Longrightarrow> alloc s = Some (f, s') \<Longrightarrow> invar s'"
    and release_owned: "invar s \<Longrightarrow> f \<in> owned s \<Longrightarrow> owned (release f s) = owned s - {f}"
    and release_frames: "invar s \<Longrightarrow> f \<in> owned s \<Longrightarrow> frames (release f s) = frames s"
    and release_invar: "invar s \<Longrightarrow> f \<in> owned s \<Longrightarrow> invar (release f s)"
begin

primrec allocs :: "nat \<Rightarrow> 's \<Rightarrow> (u64 list \<times> 's) option" where
  "allocs 0 s = Some ([], s)"
| "allocs (Suc n) s = (case alloc s of
     None \<Rightarrow> None
   | Some (f, s') \<Rightarrow> map_option (\<lambda>(fs, t). (f # fs, t)) (allocs n s'))"

lemma card_owned: "card (owned s) \<le> card (frames s)"
  using owned_frames finite_frames by (rule card_mono [rotated])

lemma owned_neq_iff: "owned s \<noteq> frames s \<longleftrightarrow> card (owned s) < card (frames s)"
  using owned_frames finite_frames card_owned
  by (metis card_subset_eq le_neq_implies_less nat_less_le)

text \<open>
  As long as enough frames are left, any number of allocations succeeds, and they return
  pairwise distinct frames, none of which was owned before.
\<close>

lemma allocs_distinct:
  assumes "invar s" and "card (owned s) + n \<le> card (frames s)"
  shows "\<exists>fs s'. allocs n s = Some (fs, s') \<and> length fs = n \<and> distinct fs \<and>
    set fs \<subseteq> frames s - owned s \<and> owned s' = owned s \<union> set fs \<and> frames s' = frames s \<and> invar s'"
  using assms
proof (induction n arbitrary: s)
  case 0
  then show ?case by simp
next
  case (Suc n)
  then have ne: "owned s \<noteq> frames s" by (simp add: owned_neq_iff)
  then obtain f s1 where a: "alloc s = Some (f, s1)"
    using alloc_total Suc.prems(1) by blast
  note fr = alloc_fresh [OF Suc.prems(1) ne a] and own = alloc_owned [OF Suc.prems(1) ne a]
    and frs = alloc_frames [OF Suc.prems(1) ne a] and iv = alloc_invar [OF Suc.prems(1) ne a]
  have "card (owned s1) = Suc (card (owned s))"
    using own fr finite_subset [OF owned_frames finite_frames] by simp
  then have "card (owned s1) + n \<le> card (frames s1)"
    using Suc.prems(2) frs by simp
  from Suc.IH [OF iv this] obtain fs s' where
    "allocs n s1 = Some (fs, s')" "length fs = n" "distinct fs" "set fs \<subseteq> frames s1 - owned s1"
    "owned s' = owned s1 \<union> set fs" "frames s' = frames s1" "invar s'"
    by blast
  with a fr own frs show ?case by auto
qed

text \<open>Giving a freshly allocated frame back restores what was owned.\<close>

lemma release_alloc:
  assumes "invar s" and "owned s \<noteq> frames s" and "alloc s = Some (f, s')"
  shows "owned (release f s') = owned s"
  using assms alloc_fresh [OF assms] alloc_owned [OF assms] alloc_invar [OF assms]
  by (simp add: release_owned)

end

section \<open>The invariant of the allocator\<close>

text \<open>
  The flags of the first \<open>NFRAMES\<close> frames are what the eight management frames can hold.
  \<open>phys_layout\<close> says where the flags and the frames lie: the flags start at a page
  boundary of the direct map, the first frame follows eight pages later, and all of it is below
  4 GiB of physical memory.
\<close>

definition NFRAMES :: nat where
  "NFRAMES = 32768"

definition phys_base :: "'a phys_scheme \<Rightarrow> u64" where
  "phys_base s = managed_frames_address_start s - VIRTUAL_OFFSET"

definition phys_layout :: "'a phys_scheme \<Rightarrow> bool" where
  "phys_layout s \<longleftrightarrow>
     4096 dvd unat (phys_base s) \<and> unat (phys_base s) + 32768 + 4096 * NFRAMES \<le> 2 ^ 32 \<and>
     first_frame_address s = phys_base s + 32768"

definition flag_addr :: "'a phys_scheme \<Rightarrow> nat \<Rightarrow> u64" where
  "flag_addr s i = managed_frames_address_start s + of_nat i"

definition frame_addr :: "'a phys_scheme \<Rightarrow> nat \<Rightarrow> u64" where
  "frame_addr s i = first_frame_address s + of_nat (4096 * i)"

definition frame_set :: "'a phys_scheme \<Rightarrow> u64 set" where
  "frame_set s = frame_addr s ` {..<NFRAMES}"

definition used :: "'a phys_scheme \<Rightarrow> nat set" where
  "used s = {i. i < NFRAMES \<and> mem s (flag_addr s i) \<noteq> 0}"

definition owned_frames :: "'a phys_scheme \<Rightarrow> u64 set" where
  "owned_frames s = frame_addr s ` used s"

lemma unat_frame_addr:
  assumes "phys_layout s" and "i < NFRAMES"
  shows "unat (frame_addr s i) = unat (phys_base s) + 32768 + 4096 * i"
proof -
  have "frame_addr s i = of_nat (unat (phys_base s) + 32768 + 4096 * i)"
    using assms(1) by (simp add: frame_addr_def phys_layout_def)
  moreover have "unat (phys_base s) + 32768 + 4096 * i < 2 ^ 64"
    using assms by (simp add: phys_layout_def NFRAMES_def)
  ultimately show ?thesis
    by (simp only: unat_of_nat) simp
qed

lemma frame_addr_inj:
  assumes "phys_layout s" and "i < NFRAMES" and "j < NFRAMES"
  shows "frame_addr s i = frame_addr s j \<longleftrightarrow> i = j"
proof
  assume "frame_addr s i = frame_addr s j"
  then have "unat (frame_addr s i) = unat (frame_addr s j)" by (rule arg_cong)
  with assms show "i = j" by (simp only: unat_frame_addr)
qed (rule arg_cong)

lemma flag_addr_inj:
  "i < NFRAMES \<Longrightarrow> j < NFRAMES \<Longrightarrow> flag_addr s i = flag_addr s j \<longleftrightarrow> i = j"
  by (simp add: flag_addr_def of_nat_u64_inj NFRAMES_def)

lemma finite_used [simp]: "finite (used s)"
  by (rule finite_subset [of _ "{..<NFRAMES}"]) (auto simp: used_def)

lemma card_frame_set: "phys_layout s \<Longrightarrow> card (frame_set s) = NFRAMES"
  by (simp add: frame_set_def card_image inj_on_def frame_addr_inj)

lemma card_owned_frames: "phys_layout s \<Longrightarrow> card (owned_frames s) = card (used s)"
  unfolding owned_frames_def
  by (rule card_image) (auto simp: inj_on_def frame_addr_inj used_def)

lemma owned_full_iff:
  assumes "phys_layout s"
  shows "owned_frames s = frame_set s \<longleftrightarrow> used s = {..<NFRAMES}"
proof -
  have "inj_on (frame_addr s) {..<NFRAMES}"
    using assms by (simp add: inj_on_def frame_addr_inj)
  then show ?thesis
    unfolding owned_frames_def frame_set_def
    by (rule inj_on_image_eq_iff) (auto simp: used_def)
qed

text \<open>The layout depends on the two statics alone.\<close>

lemma phys_layout_cong [state_simps]:
  "phys_layout (s\<lparr>mem := m\<rparr>) = phys_layout s" "phys_layout (s\<lparr>out := t\<rparr>) = phys_layout s"
  "frame_addr (s\<lparr>mem := m\<rparr>) i = frame_addr s i" "frame_addr (s\<lparr>out := t\<rparr>) i = frame_addr s i"
  "flag_addr (s\<lparr>mem := m\<rparr>) i = flag_addr s i" "flag_addr (s\<lparr>out := t\<rparr>) i = flag_addr s i"
  "phys_base (s\<lparr>mem := m\<rparr>) = phys_base s" "phys_base (s\<lparr>out := t\<rparr>) = phys_base s"
  "used (s\<lparr>out := t\<rparr>) = used s"
  by (simp_all add: phys_layout_def phys_base_def frame_addr_def flag_addr_def used_def)

section \<open>What the operations do\<close>

lemma find_free_least:
  assumes "\<forall>j<k. m (p + of_nat j) \<noteq> 0" and "m (p + of_nat k) = 0"
  shows "find_free m p idx = Some (p + of_nat k, idx + of_nat k)"
  using assms
proof (induction k arbitrary: p idx)
  case 0
  then show ?case by (simp add: find_free.simps is_free_def)
next
  case (Suc k)
  have "\<forall>j<k. m (p + 1 + of_nat j) \<noteq> 0"
    using Suc.prems(1) by (metis Suc_less_eq add.assoc of_nat_Suc)
  moreover have "m (p + 1 + of_nat k) = 0"
    using Suc.prems(2) by (simp add: add.assoc)
  ultimately have "find_free m (p + 1) (idx + 1) = Some (p + 1 + of_nat k, idx + 1 + of_nat k)"
    by (rule Suc.IH)
  moreover have "m p \<noteq> 0"
    using Suc.prems(1) by force
  ultimately show ?case
    by (simp add: find_free.simps [of m p] is_free_def add.assoc)
qed

definition is_first_free :: "'a phys_scheme \<Rightarrow> nat \<Rightarrow> bool" where
  "is_first_free s k \<longleftrightarrow>
     k < NFRAMES \<and> mem s (flag_addr s k) = 0 \<and> (\<forall>j<k. mem s (flag_addr s j) \<noteq> 0)"

lemma first_free_exists:
  assumes "used s \<noteq> {..<NFRAMES}"
  obtains k where "is_first_free s k"
proof -
  have ex: "\<exists>i. i < NFRAMES \<and> mem s (flag_addr s i) = 0"
    using assms by (auto simp: used_def)
  let ?k = "LEAST i. i < NFRAMES \<and> mem s (flag_addr s i) = 0"
  from LeastI_ex [OF ex] not_less_Least [of _ "\<lambda>i. i < NFRAMES \<and> mem s (flag_addr s i) = 0"]
  have "is_first_free s ?k"
    unfolding is_first_free_def by (meson less_trans)
  then show ?thesis by (rule that)
qed

lemma kalloc_frame_eq:
  assumes "is_first_free s k"
  shows "kalloc_frame s = Some (frame_addr s k,
    s\<lparr>mem := (mem s)(flag_addr s k := 1),
      out := out s @ log_text (logLevel s) PHYSICAL_MEMORY ''Allocated frame %i at address 0x%x''
        [VInt (of_nat k), VInt (frame_addr s k)]\<rparr>)"
proof -
  have k: "k < NFRAMES" using assms by (simp add: is_first_free_def)
  have "find_free (mem s) (managed_frames_address_start s) 0 = Some (flag_addr s k, of_nat k)"
    using assms find_free_least [of k "mem s" "managed_frames_address_start s" 0]
    by (simp add: is_first_free_def flag_addr_def)
  moreover have "(ucast (of_nat k * 4096 :: u32) :: u64) = of_nat (4096 * k)"
    using k ucast_of_nat_u32 [of "k * 4096"] by (simp add: NFRAMES_def mult.commute)
  moreover have "(ucast (of_nat k :: u32) :: u64) = of_nat k"
    using k by (simp add: NFRAMES_def ucast_of_nat_u32)
  ultimately show ?thesis
    by (simp add: kalloc_frame_def set_pageframe_allocated_def log_eq frame_addr_def Let_def)
qed

lemma used_alloc:
  assumes "is_first_free s k"
  shows "used (s\<lparr>mem := (mem s)(flag_addr s k := 1)\<rparr>) = insert k (used s)"
  using assms by (auto simp: used_def is_first_free_def state_simps flag_addr_inj)

lemma used_free:
  assumes "k < NFRAMES"
  shows "used (s\<lparr>mem := (mem s)(flag_addr s k := 0)\<rparr>) = used s - {k}"
  using assms by (auto simp: used_def state_simps flag_addr_inj)

lemma first_free_unused: "is_first_free s k \<Longrightarrow> k < NFRAMES \<and> k \<notin> used s"
  by (auto simp: is_first_free_def used_def)

text \<open>Freeing undoes the address computation of allocating.\<close>

lemma get_frame_number_frame_addr:
  assumes "k < NFRAMES"
  shows "get_frame_number (frame_addr s k) s = of_nat k"
proof -
  have "unat (of_nat (4096 * k) :: u64) = 4096 * k"
    using assms by (intro unat_of_nat_small [of _ "2 ^ 64"]) (auto simp: NFRAMES_def)
  then have "unat (of_nat (4096 * k) div 4096 :: u64) = k"
    by (simp add: unat_div)
  then have "(of_nat (4096 * k) div 4096 :: u64) = of_nat k"
    by (metis of_nat_unat ucast_id)
  moreover have "(ucast (of_nat k :: u64) :: u32) = of_nat k"
    using assms by (simp add: NFRAMES_def unsigned_of_nat take_bit_nat_eq_self)
  ultimately show ?thesis
    by (simp add: get_frame_number_def frame_addr_def FRAME_SIZE_def)
qed

lemma kfree_frame_eq:
  assumes "k < NFRAMES"
  shows "kfree_frame (frame_addr s k) s = s\<lparr>mem := (mem s)(flag_addr s k := 0)\<rparr>"
  using assms
  by (simp add: kfree_frame_def get_frame_number_frame_addr set_pageframe_free_def flag_addr_def
      ucast_of_nat_u32 NFRAMES_def)

lemma kalloc_frame_cases:
  assumes "phys_layout s" and "owned_frames s \<noteq> frame_set s"
  obtains k t where "is_first_free s k"
    and "kalloc_frame s = Some (frame_addr s k, s\<lparr>mem := (mem s)(flag_addr s k := 1), out := t\<rparr>)"
  using assms first_free_exists [of s] kalloc_frame_eq [of s] by (metis owned_full_iff)

interpretation pa: frame_allocator kalloc_frame kfree_frame frame_set owned_frames phys_layout
proof (unfold_locales, goal_cases)
  case (1 s)
  show ?case by (simp add: frame_set_def)
next
  case (2 s)
  show ?case by (auto simp: owned_frames_def frame_set_def used_def)
next
  case (3 s)
  then show ?case by (metis kalloc_frame_cases)
next
  case (4 s f s')
  show ?case
    by (rule kalloc_frame_cases [OF 4(1,2)])
      (use 4 in \<open>auto simp: owned_frames_def frame_set_def used_def is_first_free_def frame_addr_inj\<close>)
next
  case (5 s f s')
  obtain k t where k: "is_first_free s k" and
    eq: "kalloc_frame s = Some (frame_addr s k, s\<lparr>mem := (mem s)(flag_addr s k := 1), out := t\<rparr>)"
    by (rule kalloc_frame_cases [OF 5(1,2)])
  with 5(3) show ?case
    using used_alloc [OF k] by (auto simp: owned_frames_def state_simps)
next
  case (6 s f s')
  show ?case
    by (rule kalloc_frame_cases [OF 6(1,2)])
      (use 6 in \<open>auto simp: frame_set_def state_simps\<close>)
next
  case (7 s f s')
  show ?case
    by (rule kalloc_frame_cases [OF 7(1,2)])
      (use 7 in \<open>auto simp: state_simps\<close>)
next
  case (8 s f)
  then obtain k where k: "f = frame_addr s k" "k \<in> used s" "k < NFRAMES"
    by (auto simp: owned_frames_def used_def)
  have "frame_addr s ` (used s - {k}) = frame_addr s ` used s - {frame_addr s k}"
    using 8(1) k by (auto simp: frame_addr_inj used_def)
  with k show ?case
    by (simp add: kfree_frame_eq owned_frames_def used_free state_simps image_def)
next
  case (9 s f)
  then show ?case
    by (auto simp: owned_frames_def used_def kfree_frame_eq frame_set_def state_simps)
next
  case (10 s f)
  then show ?case
    by (auto simp: owned_frames_def used_def kfree_frame_eq state_simps)
qed

section \<open>Initialisation\<close>

text \<open>
  What \<^verbatim>\<open>linker.ld\<close> fixes: the physical heap starts where \<^verbatim>\<open>.bss\<close> ends
  (moved down by the virtual offset) and reaches to the end of the 2 GiB of RAM at
  \<^verbatim>\<open>0x80000000\<close>. The last conjunct bounds the size of the kernel image.
\<close>

definition linker_ok :: "linker \<Rightarrow> bool" where
  "linker_ok L \<longleftrightarrow>
     BSS_END L = PHYSICAL_HEAP_START L + VIRTUAL_OFFSET \<and>
     PHYSICAL_HEAP_SIZE L = 0x100000000 - PHYSICAL_HEAP_START L \<and>
     0x80000000 \<le> PHYSICAL_HEAP_START L \<and> PHYSICAL_HEAP_START L \<le> 0xF0000000"

lemma unat_allign_address:
  assumes "unat a + 2 ^ k - 1 < 2 ^ 64" and "k < 64"
  shows "unat (allign_address a (2 ^ k)) = (unat a + 2 ^ k - 1) div 2 ^ k * 2 ^ k"
proof -
  have "1 \<le> unat a + 2 ^ k" by (simp add: trans_le_add2)
  then have "a + 2 ^ k - 1 = of_nat (unat a + 2 ^ k - 1)"
    by (simp only: of_nat_diff) simp
  then have "unat (a + 2 ^ k - 1) = unat a + 2 ^ k - 1"
    using assms(1) by (simp only: unat_of_nat) simp
  then show ?thesis
    using unat_and_not_mask [of "a + 2 ^ k - 1" k]
    by (simp add: allign_address_def mask_eq_exp_minus_1)
qed

lemma init_flags_eq:
  "init_flags i n s = s\<lparr>mem := (\<lambda>x.
     if unat i \<le> unat (x - managed_frames_address_start s) \<and>
        unat (x - managed_frames_address_start s) < unat n then 0 else mem s x)\<rparr>"
proof (induction i n s rule: init_flags.induct)
  case (1 i n s)
  let ?m = "managed_frames_address_start s"
  show ?case
  proof (cases "i < n")
    case True
    let ?s1 = "s\<lparr>mem := (mem s)(?m + ucast i := 0)\<rparr>"
    have at: "unat (x - ?m) = unat i \<longleftrightarrow> x = ?m + ucast i" for x
      using unat_offset_eq_iff [of "unat i" x ?m] unsigned_less [of i, where ?'a = nat]
      by simp
    have "init_flags i n s = init_flags (i + 1) n ?s1"
      using True by (simp add: init_flags.simps [of i] set_pageframe_free_def)
    also have "\<dots> = s\<lparr>mem := (\<lambda>x. if unat (i + 1) \<le> unat (x - ?m) \<and> unat (x - ?m) < unat n
        then 0 else mem ?s1 x)\<rparr>"
      using 1 [OF True, unfolded set_pageframe_free_def] by simp
    also have "(\<lambda>x. if unat (i + 1) \<le> unat (x - ?m) \<and> unat (x - ?m) < unat n then 0 else mem ?s1 x)
        = (\<lambda>x. if unat i \<le> unat (x - ?m) \<and> unat (x - ?m) < unat n then 0 else mem s x)"
    proof
      fix x
      show "(if unat (i + 1) \<le> unat (x - ?m) \<and> unat (x - ?m) < unat n then 0 else mem ?s1 x)
          = (if unat i \<le> unat (x - ?m) \<and> unat (x - ?m) < unat n then 0 else mem s x)"
      proof (cases "unat (x - ?m) = unat i")
        case True
        with \<open>i < n\<close> at [of x] show ?thesis by (simp add: word_less_nat_alt)
      next
        case False
        with at [of x] unat_add_one [OF \<open>i < n\<close>] show ?thesis by simp
      qed
    qed
    finally show ?thesis .
  next
    case False
    then have "(\<lambda>x. if unat i \<le> unat (x - ?m) \<and> unat (x - ?m) < unat n then 0 else mem s x) = mem s"
      by (auto simp: word_less_nat_alt fun_eq_iff)
    with False show ?thesis
      by (subst init_flags.simps) simp
  qed
qed

lemma num_frames_linker:
  assumes "linker_ok L"
  shows "unat (num_frames L) = (2 ^ 32 - unat (PHYSICAL_HEAP_START L)) div 4096 - 8"
proof -
  let ?p = "PHYSICAL_HEAP_START L"
  have le: "?p \<le> 0x100000000" and "0x80000000 \<le> ?p" "?p \<le> 0xF0000000"
    using assms by (auto simp: linker_ok_def word_le_nat_alt)
  then have b: "2147483648 \<le> unat ?p" "unat ?p \<le> 4026531840"
    by (simp_all add: word_le_nat_alt)
  have size: "unat (PHYSICAL_HEAP_SIZE L) = 4294967296 - unat ?p"
    using assms le by (simp add: linker_ok_def unat_sub)
  define q where "q = 4294967296 - unat ?p"
  have q: "268435456 \<le> q" using b by (simp add: q_def)
  have "sint (PHYSICAL_HEAP_SIZE L) = int q"
    using size sint_u64_small [of "PHYSICAL_HEAP_SIZE L"] by (simp add: q_def)
  then have "num_frames L = word_of_int (int q div 4096 - 8)"
    using q by (simp add: num_frames_def Let_def)
  also have "int q div 4096 - 8 = int (q div 4096 - 8)"
    using q by (simp add: of_nat_diff zdiv_int)
  finally have "num_frames L = of_nat ((4294967296 - unat ?p) div 4096 - 8)"
    by (simp add: q_def)
  moreover have "(4294967296 - unat ?p) div 4096 - 8 < 2 ^ 32" by simp
  ultimately show ?thesis
    by (simp only: unat_of_nat) simp
qed

lemma physical_allocator_init_fields:
  shows "managed_frames_address_start (physical_allocator_init L s) = allign_address (BSS_END L) 4096"
    and "first_frame_address (physical_allocator_init L s) =
      allign_address (PHYSICAL_HEAP_START L + 32768) 4096"
    and "mem (physical_allocator_init L s) x =
      (if unat (x - allign_address (BSS_END L) 4096) < unat (num_frames L) then 0 else mem s x)"
  by (simp_all add: physical_allocator_init_def init_flags_eq FRAME_SIZE_def
      FRAMES_FOR_MANAGING_def Let_def)

lemma allign_4096:
  assumes "unat a + 4095 < 2 ^ 64"
  shows "unat (allign_address a 4096) = (unat a + 4095) div 4096 * 4096"
  using unat_allign_address [of a 12] assms by simp

text \<open>Alignment commutes with moving an address by a multiple of the frame size.\<close>

lemma allign_4096_add:
  assumes "4096 dvd unat d" and "unat a + unat d + 4095 < 2 ^ 64"
  shows "allign_address (a + d) 4096 = allign_address a 4096 + d"
proof -
  obtain k where k: "unat d = 4096 * k" using assms(1) by auto
  have ad: "unat (a + d) = unat a + unat d"
    using assms(2) by (simp add: unat_word_ariths)
  have le: "(unat a + 4095) div 4096 * 4096 \<le> unat a + 4095" by simp
  have "unat (allign_address a 4096 + d) = unat (allign_address a 4096) + unat d"
    using assms(2) le allign_4096 [of a] by (simp add: unat_word_ariths)
  moreover have "(unat a + unat d + 4095) div 4096 * 4096 = (unat a + 4095) div 4096 * 4096 + unat d"
    using div_mult_self1 [of 4096 "unat a + 4095" k] k by (simp add: ac_simps)
  ultimately show ?thesis
    using ad assms(2) by (simp add: word_unat_eq_iff allign_4096)
qed

lemma phys_layout_init:
  assumes "linker_ok L"
  shows "phys_layout (physical_allocator_init L s)"
    and "phys_base (physical_allocator_init L s) = allign_address (PHYSICAL_HEAP_START L) 4096"
proof -
  let ?p = "PHYSICAL_HEAP_START L" and ?b = "allign_address (PHYSICAL_HEAP_START L) 4096"
  have p: "unat ?p \<le> 4026531840"
    using assms by (simp add: linker_ok_def word_le_nat_alt)
  have bss: "BSS_END L = ?p + VIRTUAL_OFFSET"
    using assms by (simp add: linker_ok_def)
  have "allign_address (BSS_END L) 4096 = ?b + VIRTUAL_OFFSET"
    unfolding bss using p by (intro allign_4096_add) (auto simp: VIRTUAL_OFFSET_def)
  then show base: "phys_base (physical_allocator_init L s) = ?b"
    by (simp add: phys_base_def physical_allocator_init_fields)
  have "allign_address (?p + 32768) 4096 = ?b + 32768"
    using p by (intro allign_4096_add) auto
  moreover have "unat ?b = (unat ?p + 4095) div 4096 * 4096"
    using p by (intro allign_4096) simp
  ultimately show "phys_layout (physical_allocator_init L s)"
    using p by (simp add: phys_layout_def base physical_allocator_init_fields NFRAMES_def)
qed

lemma used_init:
  assumes "linker_ok L"
  shows "used (physical_allocator_init L s) = {}"
proof -
  have "unat (PHYSICAL_HEAP_START L) \<le> 4026531840"
    using assms by (simp add: linker_ok_def word_le_nat_alt)
  then have "32768 \<le> unat (num_frames L)"
    using num_frames_linker [OF assms] by simp
  moreover have "unat (of_nat i :: u64) = i" if "i < NFRAMES" for i
    using that by (intro unat_of_nat_small [of _ "2 ^ 64"]) (auto simp: NFRAMES_def)
  ultimately show ?thesis
    by (auto simp: used_def flag_addr_def physical_allocator_init_fields NFRAMES_def)
qed

lemma round_complement:
  fixes p N :: nat
  assumes "p \<le> 4096 * N"
  shows "(p + 4095) div 4096 + (4096 * N - p) div 4096 = N"
proof -
  define a where "a = (p + 4095) div 4096"
  have a: "p \<le> 4096 * a" "4096 * a < p + 4096"
    unfolding a_def by linarith+
  with assms have le: "a \<le> N" by linarith
  have "(4096 * N - p) div 4096 = N - a"
    using a le assms by (intro div_nat_eqI) (simp_all add: diff_mult_distrib2)
  with le show ?thesis by (simp add: a_def)
qed

section \<open>Properties\<close>

text \<open>A sequence of allocations, each on the state the one before left.\<close>

fun kalloc_frames :: "nat \<Rightarrow> 'a phys_scheme \<Rightarrow> (u64 list \<times> 'a phys_scheme) option" where
  "kalloc_frames 0 s = Some ([], s)"
| "kalloc_frames (Suc n) s = do {
     (f, s1) \<leftarrow> kalloc_frame s;
     (fs, s2) \<leftarrow> kalloc_frames n s1;
     Some (f # fs, s2)
   }"

lemma kalloc_frames_allocs: "kalloc_frames n s = pa.allocs n s"
  by (induction n arbitrary: s) (auto split: option.split bind_split)

text \<open>A linker layout and a boot state, for the concrete instances.\<close>

definition sample_linker :: linker where
  "sample_linker = \<lparr>TEXT_START = 0xFFFF800080000000, TEXT_END = 0xFFFF800080008000,
     RODATA_START = 0xFFFF800080008000, RODATA_END = 0xFFFF800080009000,
     DATA_START = 0xFFFF800080009000, DATA_END = 0xFFFF80008000A000,
     BSS_START = 0xFFFF80008000A000, BSS_END = 0xFFFF800080012340,
     PHYSICAL_HEAP_START = 0x80012340, PHYSICAL_HEAP_SIZE = 0x7FFEDCC0\<rparr>"

definition sample_phys :: phys where
  "sample_phys = \<lparr>mem = \<lambda>_. 0, out = [], inp = [], logLevel = 0,
     managed_frames_address_start = 0, first_frame_address = 0\<rparr>"

lemma some_frame: "{} \<noteq> {..<NFRAMES}"
proof -
  have "0 \<in> {..<NFRAMES}" by (simp add: NFRAMES_def)
  then show ?thesis by blast
qed

lemma linker_ok_sample: "linker_ok sample_linker"
  by (simp add: linker_ok_def sample_linker_def VIRTUAL_OFFSET_def)

text \<open>
  \<^verbatim>\<open>kalloc_frame\<close> in a well laid out allocator that has a free frame among the
  32768 its management frames describe: it returns the free frame with the least number, that
  frame was not in use and is now, no other frame changes hands, and the only byte of memory
  written is that frame's flag.
\<close>

theorem kalloc_frame_correct:
  assumes "phys_layout s" and "used s \<noteq> {..<NFRAMES}"
  shows "\<exists>k s'. kalloc_frame s = Some (frame_addr s k, s') \<and> k < NFRAMES \<and> k \<notin> used s \<and>
    {..<k} \<subseteq> used s \<and> used s' = insert k (used s) \<and>
    mem s' = (mem s)(flag_addr s k := 1) \<and> phys_layout s'"
proof -
  obtain k where k: "is_first_free s k"
    using first_free_exists [OF assms(2)] by blast
  then have "k < NFRAMES" "k \<notin> used s" "{..<k} \<subseteq> used s"
    by (auto simp: is_first_free_def used_def)
  with k assms(1) show ?thesis
    using used_alloc [OF k] kalloc_frame_eq [OF k] by (auto simp: state_simps)
qed

theorem kalloc_frame_correct_witness:
  "\<exists>k s'. kalloc_frame (physical_allocator_init sample_linker sample_phys) =
     Some (frame_addr (physical_allocator_init sample_linker sample_phys) k, s') \<and> used s' = {k}"
  using kalloc_frame_correct [of "physical_allocator_init sample_linker sample_phys",
      OF phys_layout_init(1) [OF linker_ok_sample]]
  unfolding used_init [OF linker_ok_sample] using some_frame by blast

text \<open>
  C18: after \<^verbatim>\<open>physical_allocator_init\<close> on the linker script's layout, any
  \<open>n \<le> 32768\<close> calls of \<^verbatim>\<open>kalloc_frame\<close> all return, and the frames they return are
  pairwise distinct, page aligned, above the kernel image and inside RAM.
\<close>

theorem boot_frames_distinct:
  assumes "linker_ok L" and "n \<le> 32768"
  shows "\<exists>fs s'. kalloc_frames n (physical_allocator_init L s) = Some (fs, s') \<and>
    length fs = n \<and> distinct fs \<and>
    (\<forall>f \<in> set fs. 4096 dvd unat f \<and> unat (PHYSICAL_HEAP_START L) \<le> unat f \<and> unat f + 4096 \<le> 2 ^ 32)"
proof -
  let ?s = "physical_allocator_init L s"
  note lay = phys_layout_init(1) [OF assms(1), of s]
  have "card (owned_frames ?s) + n \<le> card (frame_set ?s)"
    using assms(2) used_init [OF assms(1), of s] by (simp add: card_owned_frames lay card_frame_set NFRAMES_def)
  from pa.allocs_distinct [OF lay this] obtain fs s' where
    fs: "kalloc_frames n ?s = Some (fs, s')" "length fs = n" "distinct fs" "set fs \<subseteq> frame_set ?s"
    unfolding kalloc_frames_allocs by blast
  have "unat (PHYSICAL_HEAP_START L) \<le> 4026531840"
    using assms(1) by (simp add: linker_ok_def word_le_nat_alt)
  then have "unat (phys_base ?s) = (unat (PHYSICAL_HEAP_START L) + 4095) div 4096 * 4096"
    using phys_layout_init(2) [OF assms(1), of s] by (simp add: allign_4096)
  then have base: "unat (PHYSICAL_HEAP_START L) \<le> unat (phys_base ?s)" by linarith
  have "4096 dvd unat f \<and> unat (PHYSICAL_HEAP_START L) \<le> unat f \<and> unat f + 4096 \<le> 2 ^ 32"
    if "f \<in> frame_set ?s" for f
  proof -
    obtain i where i: "f = frame_addr ?s i" "i < NFRAMES"
      using \<open>f \<in> frame_set ?s\<close> by (auto simp: frame_set_def)
    have "4096 dvd unat (phys_base ?s)" "unat (phys_base ?s) + 32768 + 4096 * NFRAMES \<le> 2 ^ 32"
      using lay by (simp_all add: phys_layout_def)
    with base i(2) show ?thesis
      unfolding i(1) unat_frame_addr [OF lay i(2)] by (auto intro!: dvd_add)
  qed
  with fs show ?thesis by blast
qed

theorem boot_frames_distinct_witness:
  "\<exists>fs s'. kalloc_frames 20000 (physical_allocator_init sample_linker sample_phys) = Some (fs, s') \<and>
     length fs = 20000 \<and> distinct fs"
  using boot_frames_distinct [OF linker_ok_sample, where n = 20000 and s = sample_phys] by auto

text \<open>
  C29: \<^verbatim>\<open>kfree_frame\<close> undoes \<^verbatim>\<open>kalloc_frame\<close>: freeing the frame just
  allocated restores the whole memory, and with it the set of frames in use.
\<close>

theorem kfree_frame_undoes_kalloc_frame:
  assumes "phys_layout s" and "used s \<noteq> {..<NFRAMES}"
  shows "\<exists>f s'. kalloc_frame s = Some (f, s') \<and> mem (kfree_frame f s') = mem s \<and>
    used (kfree_frame f s') = used s"
proof -
  obtain k where k: "is_first_free s k"
    using first_free_exists [OF assms(2)] by blast
  let ?s' = "s\<lparr>mem := (mem s)(flag_addr s k := 1),
    out := out s @ log_text (logLevel s) PHYSICAL_MEMORY ''Allocated frame %i at address 0x%x''
      [VInt (of_nat k), VInt (frame_addr s k)]\<rparr>"
  have "kfree_frame (frame_addr ?s' k) ?s' = ?s'\<lparr>mem := (mem ?s')(flag_addr ?s' k := 0)\<rparr>"
    using k by (intro kfree_frame_eq) (simp add: is_first_free_def)
  moreover have "(mem s)(flag_addr s k := 0) = mem s"
    using k by (intro fun_upd_idem) (simp add: is_first_free_def)
  ultimately have "mem (kfree_frame (frame_addr s k) ?s') = mem s"
    by (simp add: state_simps)
  moreover from this have "used (kfree_frame (frame_addr s k) ?s') = used s"
    by (simp add: used_def flag_addr_def kfree_frame_def set_pageframe_free_def)
  ultimately show ?thesis
    using kalloc_frame_eq [OF k] by blast
qed

theorem kfree_frame_undoes_kalloc_frame_witness:
  "\<exists>f s'. kalloc_frame (physical_allocator_init sample_linker sample_phys) = Some (f, s') \<and>
     used (kfree_frame f s') = {}"
  using kfree_frame_undoes_kalloc_frame [of "physical_allocator_init sample_linker sample_phys",
      OF phys_layout_init(1) [OF linker_ok_sample]]
  unfolding used_init [OF linker_ok_sample] using some_frame by blast

text \<open>
  C38: the flags overrun their management frames. On the linker script's layout
  \<^verbatim>\<open>physical_allocator_init\<close> sets up more than 32768 flags, one byte each, but reserves
  only eight pages for them: the flag byte of frame 32768 is the first byte (seen through the
  direct map) of frame 0, which \<^verbatim>\<open>kalloc_frame\<close> hands out first. Storing a non-zero
  byte there makes frame 32768 look allocated.
\<close>

theorem frame_flags_overlap_frames:
  assumes "linker_ok L"
  shows "32768 < unat (num_frames L) \<and>
    flag_addr (physical_allocator_init L s) 32768 =
      VIRTUAL_OFFSET + frame_addr (physical_allocator_init L s) 0"
proof -
  have "unat (PHYSICAL_HEAP_START L) \<le> 4026531840"
    using assms by (simp add: linker_ok_def word_le_nat_alt)
  then have "32768 < unat (num_frames L)"
    using num_frames_linker [OF assms] by simp
  moreover have "first_frame_address (physical_allocator_init L s) =
      phys_base (physical_allocator_init L s) + 32768"
    using phys_layout_init(1) [OF assms, of s] by (simp add: phys_layout_def)
  ultimately show ?thesis
    by (simp add: flag_addr_def frame_addr_def phys_base_def)
qed

theorem frame_flags_overlap_frames_witness:
  "flag_addr (physical_allocator_init sample_linker sample_phys) 32768 =
     VIRTUAL_OFFSET + frame_addr (physical_allocator_init sample_linker sample_phys) 0"
  using frame_flags_overlap_frames [OF linker_ok_sample, of sample_phys] by simp

text \<open>
  \<^verbatim>\<open>kalloc_frame\<close> does not know how many frames there are. When every flag set up
  by \<^verbatim>\<open>physical_allocator_init\<close> is taken, it goes on to the byte after them and, if
  that byte is zero, returns \<^verbatim>\<open>0x100000000\<close>: the first address past the end of RAM.
\<close>

theorem kalloc_frame_past_end_of_ram:
  assumes "linker_ok L" and "phys_base s = allign_address (PHYSICAL_HEAP_START L) 4096"
    and "phys_layout s"
    and "\<forall>i < unat (num_frames L). mem s (flag_addr s i) \<noteq> 0"
    and "mem s (flag_addr s (unat (num_frames L))) = 0"
  shows "map_option fst (kalloc_frame s) = Some 0x100000000"
proof -
  let ?p = "unat (PHYSICAL_HEAP_START L)" and ?n = "unat (num_frames L)"
  have p: "2147483648 \<le> ?p" "?p \<le> 4026531840"
    using assms(1) by (simp_all add: linker_ok_def word_le_nat_alt)
  have n: "?n = (4294967296 - ?p) div 4096 - 8"
    using num_frames_linker [OF assms(1)] by simp
  have base: "unat (phys_base s) = (?p + 4095) div 4096 * 4096"
    using p assms(2) by (simp add: allign_4096)
  have "find_free (mem s) (managed_frames_address_start s) 0 = Some (flag_addr s ?n, num_frames L)"
    using assms(4,5) find_free_least [of ?n "mem s" "managed_frames_address_start s" 0]
    by (simp add: flag_addr_def)
  moreover have "unat (num_frames L * 4096) = ?n * 4096"
    using n p by (simp add: unat_word_ariths)
  then have "(ucast (num_frames L * 4096) :: u64) = of_nat (?n * 4096)"
    by (metis of_nat_unat)
  moreover have "first_frame_address s = of_nat (unat (phys_base s) + 32768)"
    using assms(3) by (simp add: phys_layout_def)
  then have "first_frame_address s + of_nat (?n * 4096) =
      of_nat (unat (phys_base s) + 32768 + ?n * 4096)"
    by simp
  moreover have "unat (phys_base s) + 32768 + ?n * 4096 = 4294967296"
  proof -
    define B where "B = (4294967296 - ?p) div 4096"
    have "8 \<le> B" unfolding B_def using p by linarith
    moreover have "(?p + 4095) div 4096 + B = 1048576"
      using round_complement [of ?p 1048576] p by (simp add: B_def)
    ultimately show ?thesis
      unfolding base n B_def [symmetric] by linarith
  qed
  ultimately show ?thesis
    by (simp add: kalloc_frame_def Let_def set_pageframe_allocated_def log_eq del: of_nat_add of_nat_mult)
qed

definition exhausted_phys :: phys where
  "exhausted_phys = sample_phys\<lparr>managed_frames_address_start := 0xFFFF800080013000,
     first_frame_address := 0x8001B000,
     mem := (\<lambda>x. if unat (x - 0xFFFF800080013000) < unat (num_frames sample_linker) then 1 else 0)\<rparr>"

theorem kalloc_frame_past_end_of_ram_witness:
  "map_option fst (kalloc_frame exhausted_phys) = Some 0x100000000"
proof -
  have "unat (num_frames sample_linker) = 524261"
    using num_frames_linker [OF linker_ok_sample] by (simp add: sample_linker_def)
  moreover have "unat (of_nat i :: u64) = i" if "i < 524262" for i
    using that by (intro unat_of_nat_small [of _ "2 ^ 64"]) auto
  moreover have "allign_address (PHYSICAL_HEAP_START sample_linker) 4096 = 0x80013000"
    by (simp add: allign_address_def sample_linker_def)
  ultimately show ?thesis
    by (intro kalloc_frame_past_end_of_ram [OF linker_ok_sample])
      (auto simp: exhausted_phys_def phys_layout_def phys_base_def flag_addr_def NFRAMES_def
        VIRTUAL_OFFSET_def)
qed

text \<open>
  \<^verbatim>\<open>allign_address\<close> with a power of two rounds up: the result is the least multiple
  of that power that is not below the address, as long as the addition does not wrap.
\<close>

theorem allign_address_rounds_up:
  assumes "k < 64" and "unat a + 2 ^ k - 1 < 2 ^ 64"
  shows "2 ^ k dvd unat (allign_address a (2 ^ k)) \<and> unat a \<le> unat (allign_address a (2 ^ k)) \<and>
    (\<forall>m. 2 ^ k dvd m \<and> unat a \<le> m \<longrightarrow> unat (allign_address a (2 ^ k)) \<le> m)"
proof -
  let ?r = "(unat a + 2 ^ k - 1) div 2 ^ k"
  have r: "unat (allign_address a (2 ^ k)) = ?r * 2 ^ k"
    using assms by (intro unat_allign_address) auto
  have "unat a \<le> ?r * 2 ^ k"
  proof -
    have "(unat a + 2 ^ k - 1) mod 2 ^ k < 2 ^ k" by simp
    then show ?thesis
      using div_mult_mod_eq [of "unat a + 2 ^ k - 1" "2 ^ k"] by linarith
  qed
  moreover have "?r * 2 ^ k \<le> m" if "2 ^ k dvd m" "unat a \<le> m" for m
  proof -
    obtain q where q: "m = 2 ^ k * q" using \<open>2 ^ k dvd m\<close> by blast
    then have "unat a + 2 ^ k - 1 < 2 ^ k * Suc q"
      using \<open>unat a \<le> m\<close> zero_less_power [of "2 :: nat" k] by (simp only: mult_Suc_right) linarith
    then have "?r < Suc q" by (simp add: less_mult_imp_div_less mult.commute)
    with q show ?thesis by (simp add: mult.commute)
  qed
  ultimately show ?thesis by (simp add: r)
qed

theorem allign_address_rounds_up_witness:
  "4096 dvd unat (allign_address 0x80012340 4096) \<and> 0x80012340 \<le> unat (allign_address 0x80012340 4096)"
  using allign_address_rounds_up [of 12 "0x80012340"] by simp

end
