(* ===== verification/Paging.thy ===== *)
theory Paging
  imports Phys_Alloc
begin

text \<open>
  Address arithmetic and page tables: \<^verbatim>\<open>kernel/memory/memory.cpp\<close>,
  \<^verbatim>\<open>kernel/memory/paging.cpp\<close> and the register write of
  \<^verbatim>\<open>kernel/memory/paging.s\<close>.

  A \<^verbatim>\<open>PageTable *\<close>, \<^verbatim>\<open>VirtualPage *\<close> or \<^verbatim>\<open>PhysicalFrame *\<close> is an address;
  the methods take it as their first argument. The tables themselves are bytes of memory,
  reached through the direct map at \<open>VIRTUAL_OFFSET\<close>.

  The reference the code is measured against is \<open>sv48\<close>, the address translation of the
  RISC-V privileged architecture with four levels of 9-bit indices, reading page-table entries
  from physical memory. The lemmas show that \<open>map_page\<close> makes the hardware translate the
  mapped page to the given frame and leaves every other translation alone, that the kernel's
  software walk agrees with the hardware, and that \<open>paging_init\<close> builds the direct map.
\<close>

section \<open>Addresses\<close>

definition get_virtual_address :: "u64 \<Rightarrow> u64" where
  "get_virtual_address frame = frame + VIRTUAL_OFFSET"

definition frame_get_ppn :: "u64 \<Rightarrow> u64" where
  "frame_get_ppn frame = drop_bit 12 frame"

definition get_vpn_3 :: "u64 \<Rightarrow> u16" where
  "get_vpn_3 page = ucast (drop_bit 39 page AND 511)"

definition get_vpn_2 :: "u64 \<Rightarrow> u16" where
  "get_vpn_2 page = ucast (drop_bit 30 page AND 511)"

definition get_vpn_1 :: "u64 \<Rightarrow> u16" where
  "get_vpn_1 page = ucast (drop_bit 21 page AND 511)"

definition get_vpn_0 :: "u64 \<Rightarrow> u16" where
  "get_vpn_0 page = ucast (drop_bit 12 page AND 511)"

definition get_offset :: "u64 \<Rightarrow> u16" where
  "get_offset page = ucast (page AND 0xFFF)"

section \<open>State and page-table methods\<close>

record paging = phys +
  first_level_table :: u64
  satp :: u64

definition createValidPageTableEntry :: "u64 \<Rightarrow> u64" where
  "createValidPageTableEntry ppn = push_bit 10 (ppn AND 0xFFFFFFFFFF) OR 1"

definition isValidPageTableEntry :: "u64 \<Rightarrow> bool" where
  "isValidPageTableEntry entry \<longleftrightarrow> entry AND 1 \<noteq> 0"

definition setEntry :: "u64 \<Rightarrow> u16 \<Rightarrow> u64 \<Rightarrow> 'a kio_scheme \<Rightarrow> 'a kio_scheme" where
  "setEntry this index entry s = s\<lparr>mem := st64 (mem s) (this + 8 * ucast index) entry\<rparr>"

definition getEntry :: "u64 \<Rightarrow> u16 \<Rightarrow> mem \<Rightarrow> u64" where
  "getEntry this index m = ld64 m (this + 8 * ucast index)"

definition getPhysicalFrame :: "u64 \<Rightarrow> u16 \<Rightarrow> mem \<Rightarrow> u64" where
  "getPhysicalFrame this index m = push_bit 12 (drop_bit 10 (getEntry this index m))"

definition table_get_ppn :: "u64 \<Rightarrow> u64" where
  "table_get_ppn this = drop_bit 12 (this - VIRTUAL_OFFSET) AND 0xFFFFFFFFFFF"

definition isEntryValid :: "u64 \<Rightarrow> u16 \<Rightarrow> mem \<Rightarrow> bool" where
  "isEntryValid this index m \<longleftrightarrow> getEntry this index m AND 1 = 1"

section \<open>Setting paging up\<close>

definition map_page_for_setup :: "u64 \<Rightarrow> u64 \<Rightarrow> u64 \<Rightarrow> u64 \<Rightarrow> 'a kio_scheme \<Rightarrow> 'a kio_scheme" where
  "map_page_for_setup first_table second_table page_to_map frame s =
     (let s = log PAGING ''Mapping page for initializion: page: 0x%x, frame: 0x%x''
                [VInt page_to_map, VInt frame] s;
          vpn_3 = get_vpn_3 page_to_map;
          vpn_2 = get_vpn_2 page_to_map;
          s = setEntry first_table vpn_3 (createValidPageTableEntry (table_get_ppn second_table)) s
      in setEntry second_table vpn_2 (createValidPageTableEntry (frame_get_ppn frame) OR 0xF) s)"

function setup_loop :: "u64 \<Rightarrow> u64 \<Rightarrow> u64 \<Rightarrow> 'a kio_scheme \<Rightarrow> 'a kio_scheme" where
  "setup_loop first_table second_table kernel_page s =
     (if kernel_page < VIRTUAL_OFFSET + 4 * 0x40000000 then
        setup_loop first_table second_table (kernel_page + 0x40000000)
          (map_page_for_setup first_table second_table kernel_page (kernel_page - VIRTUAL_OFFSET) s)
      else s)"
  by pat_completeness auto
termination
proof (relation "measure (\<lambda>(_, _, p, _). unat (VIRTUAL_OFFSET + 4 * 0x40000000) - unat p)", simp)
  fix p :: u64
  assume "p < VIRTUAL_OFFSET + 4 * 0x40000000"
  then have "unat p < 0xFFFF800100000000"
    by (simp add: VIRTUAL_OFFSET_def word_less_nat_alt)
  moreover from this have "unat (p + 0x40000000) = unat p + 0x40000000"
    by (simp add: unat_word_ariths)
  ultimately show "((f, g, p + 0x40000000, t), (f, g, p, s))
      \<in> measure (\<lambda>(_, _, p, _). unat (VIRTUAL_OFFSET + 4 * 0x40000000) - unat p)"
    for f g :: u64 and s t :: "'a kio_scheme"
    by (simp add: VIRTUAL_OFFSET_def)
qed

declare setup_loop.simps [simp del]

text \<open>\<^verbatim>\<open>switch_to_new_page_table\<close> of \<^verbatim>\<open>paging.s\<close>: mode 9 (Sv48) and the root's page number.\<close>

definition switch_to_new_page_table :: "u64 \<Rightarrow> 'a paging_scheme \<Rightarrow> 'a paging_scheme" where
  "switch_to_new_page_table ppn s = s\<lparr>satp := ppn OR push_bit 60 9\<rparr>"

definition paging_init :: "'a paging_scheme \<Rightarrow> 'a paging_scheme option" where
  "paging_init s = do {
     let s = log PAGING ''Initialising paging'' [] s;
     (first_frame, s) \<leftarrow> kalloc_frame s;
     (second_frame, s) \<leftarrow> kalloc_frame s;
     let first_table = first_frame + VIRTUAL_OFFSET;
     let s = s\<lparr>first_level_table := first_table\<rparr>;
     let second_table = second_frame + VIRTUAL_OFFSET;
     let s = log PAGING ''First level table: 0x%x'' [VInt first_table] s;
     let s = log PAGING ''Second level table: 0x%x'' [VInt second_table] s;
     let s = setup_loop first_table second_table VIRTUAL_OFFSET s;
     let s = switch_to_new_page_table (frame_get_ppn first_frame) s;
     Some (log PAGING ''Paging initializion done'' [] s)
   }"

section \<open>Mapping and translating\<close>

text \<open>
  One level of \<^verbatim>\<open>map_page\<close>: if the entry is not valid, a frame is allocated for the next
  table and the entry made to point to it. The frame is not cleared.
\<close>

definition ensure_entry :: "u64 \<Rightarrow> u16 \<Rightarrow> 'a phys_scheme \<Rightarrow> 'a phys_scheme option" where
  "ensure_entry table index s =
     (if \<not> isEntryValid table index (mem s) then do {
        (frame, s) \<leftarrow> kalloc_frame s;
        Some (setEntry table index (createValidPageTableEntry (frame_get_ppn frame)) s)
      } else Some s)"

definition map_page :: "u64 \<Rightarrow> u64 \<Rightarrow> u16 \<Rightarrow> 'a paging_scheme \<Rightarrow> 'a paging_scheme option" where
  "map_page virtual_page physical_frame flag s = do {
     let s = log PAGING ''Mapping virtual page 0x%x to physical frame 0x%x with flags 0x%x''
               [VInt virtual_page, VInt physical_frame, VInt (ucast flag)] s;
     let first_table = first_level_table s;
     s \<leftarrow> ensure_entry first_table (get_vpn_3 virtual_page) s;
     let second_table = getPhysicalFrame first_table (get_vpn_3 virtual_page) (mem s) + VIRTUAL_OFFSET;
     s \<leftarrow> ensure_entry second_table (get_vpn_2 virtual_page) s;
     let third_table = getPhysicalFrame second_table (get_vpn_2 virtual_page) (mem s) + VIRTUAL_OFFSET;
     s \<leftarrow> ensure_entry third_table (get_vpn_1 virtual_page) s;
     let fourth_table = getPhysicalFrame third_table (get_vpn_1 virtual_page) (mem s) + VIRTUAL_OFFSET;
     Some (setEntry fourth_table (get_vpn_0 virtual_page)
             (createValidPageTableEntry (frame_get_ppn physical_frame) OR ucast flag) s)
   }"

text \<open>The software walk; the null pointer is returned when a level has no valid entry.\<close>

definition get_physical_address_of_virtual_address ::
  "u64 \<Rightarrow> 'a paging_scheme \<Rightarrow> u64 \<times> 'a paging_scheme" where
  "get_physical_address_of_virtual_address va s =
     (let first_table = first_level_table s in
      if \<not> isEntryValid first_table (get_vpn_3 va) (mem s) then
        (0, log ERROR ''Translating virtual address went wrong: Index in first level table at 0x%x is invalid.''
              [VInt first_table] s)
      else
      let second_table = getPhysicalFrame first_table (get_vpn_3 va) (mem s) + VIRTUAL_OFFSET in
      if \<not> isEntryValid second_table (get_vpn_2 va) (mem s) then
        (0, log ERROR ''Translating virtual address went wrong: Index in second level table at 0x%x is invalid.''
              [VInt second_table] s)
      else
      let third_table = getPhysicalFrame second_table (get_vpn_2 va) (mem s) + VIRTUAL_OFFSET in
      if \<not> isEntryValid third_table (get_vpn_1 va) (mem s) then
        (0, log ERROR ''Translating virtual address went wrong: Index in third level table at 0x%x is invalid.''
              [VInt third_table] s)
      else
      let fourth_table = getPhysicalFrame third_table (get_vpn_1 va) (mem s) + VIRTUAL_OFFSET in
      if \<not> isEntryValid fourth_table (get_vpn_0 va) (mem s) then
        (0, log ERROR ''Translating virtual address went wrong: Index in fourth level table at 0x%x is invalid.''
              [VInt fourth_table] s)
      else (getPhysicalFrame fourth_table (get_vpn_0 va) (mem s) OR ucast (get_offset va), s))"

section \<open>The reference: Sv48\<close>

text \<open>
  Address translation as the RISC-V privileged specification describes it. \<open>rd\<close> reads a
  64-bit entry of physical memory, \<open>a\<close> is the physical address of the table of level
  \<open>lvl\<close>. An entry with \<open>V = 0\<close>, with \<open>W\<close> but not \<open>R\<close>, or with a reserved bit
  set faults; an entry with \<open>R\<close> or \<open>X\<close> is a leaf and must be aligned to its level.
  The result is the physical address and the leaf's flag bits. The accessed and dirty bits are
  taken to be maintained by the hardware, as on the emulated machine.
\<close>

definition vpn :: "nat \<Rightarrow> u64 \<Rightarrow> u64" where
  "vpn lvl va = drop_bit (12 + 9 * lvl) va AND 511"

definition pte_pa :: "u64 \<Rightarrow> u64" where
  "pte_pa e = push_bit 12 (drop_bit 10 e)"

definition sv48_leaf :: "nat \<Rightarrow> u64 \<Rightarrow> u64 \<Rightarrow> (u64 \<times> u64) option" where
  "sv48_leaf lvl e va =
     (if take_bit (12 + 9 * lvl) (pte_pa e) \<noteq> 0 then None
      else Some (pte_pa e OR take_bit (12 + 9 * lvl) va, e AND 0x1F))"

definition pte_fault :: "u64 \<Rightarrow> bool" where
  "pte_fault e \<longleftrightarrow> \<not> bit e 0 \<or> (\<not> bit e 1 \<and> bit e 2) \<or> drop_bit 54 e \<noteq> 0"

fun sv48_walk :: "(u64 \<Rightarrow> u64) \<Rightarrow> nat \<Rightarrow> u64 \<Rightarrow> u64 \<Rightarrow> (u64 \<times> u64) option" where
  "sv48_walk rd lvl a va =
     (let e = rd (a + 8 * vpn lvl va) in
      if pte_fault e then None
      else if bit e 1 \<or> bit e 3 then sv48_leaf lvl e va
      else (case lvl of 0 \<Rightarrow> None | Suc l \<Rightarrow> sv48_walk rd l (pte_pa e) va))"

declare sv48_walk.simps [simp del]

definition canonical :: "u64 \<Rightarrow> bool" where
  "canonical va \<longleftrightarrow> drop_bit 47 va = 0 \<or> drop_bit 47 va = mask 17"

text \<open>The translation in force: the tables are read through the direct map.\<close>

definition sv48 :: "'a paging_scheme \<Rightarrow> u64 \<Rightarrow> (u64 \<times> u64) option" where
  "sv48 s va =
     (if canonical va then
        sv48_walk (\<lambda>p. ld64 (mem s) (p + VIRTUAL_OFFSET)) 3 (first_level_table s - VIRTUAL_OFFSET) va
      else None)"

section \<open>Indices and entries\<close>

lemma unat_vpn: "unat (vpn lvl va) < 512"
proof -
  have "vpn lvl va = take_bit 9 (drop_bit (12 + 9 * lvl) va)"
    by (simp add: vpn_def take_bit_eq_mask mask_eq_exp_minus_1)
  then show ?thesis
    using unat_take_bit [of 9 "drop_bit (12 + 9 * lvl) va"] by simp
qed

lemma and_511: "(x :: u64) AND 511 = take_bit 9 x"
  by (simp add: take_bit_eq_mask mask_eq_exp_minus_1)

lemma ucast_and_511: "(ucast (ucast (x AND 511 :: u64) :: u16) :: u64) = x AND 511"
  unfolding and_511 by (rule bit_word_eqI) (auto simp: bit_simps)

lemma ucast_get_vpn [simp]:
  "ucast (get_vpn_3 va) = vpn 3 va" "ucast (get_vpn_2 va) = vpn 2 va"
  "ucast (get_vpn_1 va) = vpn 1 va" "ucast (get_vpn_0 va) = vpn 0 va"
  by (simp_all add: get_vpn_3_def get_vpn_2_def get_vpn_1_def get_vpn_0_def ucast_and_511 vpn_def)

definition page_of :: "'a phys_scheme \<Rightarrow> nat \<Rightarrow> u64" where
  "page_of s i = VIRTUAL_OFFSET + frame_addr s i"

lemma page_of_cong [state_simps]:
  "page_of (s\<lparr>mem := m\<rparr>) i = page_of s i" "page_of (s\<lparr>out := t\<rparr>) i = page_of s i"
  by (simp_all add: page_of_def state_simps)

lemma unat_page_of:
  assumes "phys_layout s" and "i < NFRAMES"
  shows "unat (page_of s i) = 0xFFFF800000000000 + unat (phys_base s) + 32768 + 4096 * i"
proof -
  have "unat (phys_base s) + 32768 + 4096 * NFRAMES \<le> 2 ^ 32"
    using assms(1) by (simp add: phys_layout_def)
  with assms(2) show ?thesis
    unfolding page_of_def
    by (simp add: unat_word_ariths unat_frame_addr [OF assms] VIRTUAL_OFFSET_def NFRAMES_def)
qed

lemma unat_entry_addr:
  assumes "phys_layout s" and "i < NFRAMES" and "unat x < 512"
  shows "unat (page_of s i + 8 * x) = unat (page_of s i) + 8 * unat x"
proof -
  have "unat (phys_base s) + 32768 + 4096 * NFRAMES \<le> 2 ^ 32"
    using assms(1) by (simp add: phys_layout_def)
  with assms show ?thesis
    by (simp add: unat_word_ariths unat_page_of NFRAMES_def)
qed

lemma entries_disj:
  assumes "phys_layout s" and "i < NFRAMES" "j < NFRAMES" and "unat x < 512" "unat y < 512"
    and "i \<noteq> j \<or> x \<noteq> y"
  shows "disj (page_of s i + 8 * x) 8 (page_of s j + 8 * y) 8"
proof (rule disj_nat)
  have b: "unat (phys_base s) + 32768 + 4096 * NFRAMES \<le> 2 ^ 32"
    using assms(1) by (simp add: phys_layout_def)
  note ea = unat_entry_addr [OF assms(1)] unat_page_of [OF assms(1)]
  show "unat (page_of s i + 8 * x) + 8 \<le> 2 ^ 64" "unat (page_of s j + 8 * y) + 8 \<le> 2 ^ 64"
    using b assms by (simp_all add: ea NFRAMES_def)
  have "i \<noteq> j \<or> unat x \<noteq> unat y"
    using assms(6) by (simp add: word_unat_eq_iff)
  then have "4096 * i + 8 * unat x + 8 \<le> 4096 * j + 8 * unat y \<or>
      4096 * j + 8 * unat y + 8 \<le> 4096 * i + 8 * unat x"
    using assms(4,5) by (cases i j rule: linorder_cases; cases "unat x" "unat y" rule: linorder_cases) auto
  then show "unat (page_of s i + 8 * x) + 8 \<le> unat (page_of s j + 8 * y) \<or>
      unat (page_of s j + 8 * y) + 8 \<le> unat (page_of s i + 8 * x)"
    using assms by (auto simp: ea)
qed simp_all

lemma unat_flag_addr:
  assumes "phys_layout s" and "k < NFRAMES"
  shows "unat (flag_addr s k) = 0xFFFF800000000000 + unat (phys_base s) + k"
proof -
  have "flag_addr s k = VIRTUAL_OFFSET + phys_base s + of_nat k"
    by (simp add: flag_addr_def phys_base_def)
  moreover have "unat (phys_base s) + 32768 + 4096 * NFRAMES \<le> 2 ^ 32"
    using assms(1) by (simp add: phys_layout_def)
  moreover have "unat (of_nat k :: u64) = k"
    using assms(2) by (intro unat_of_nat_small [of _ "2 ^ 64"]) (auto simp: NFRAMES_def)
  ultimately show ?thesis
    using assms(2) by (simp add: unat_word_ariths VIRTUAL_OFFSET_def NFRAMES_def)
qed

lemma flag_entry_out:
  assumes "phys_layout s" and "i < NFRAMES" "k < NFRAMES" and "unat x < 512"
  shows "8 \<le> unat (flag_addr s k - (page_of s i + 8 * x))"
  using assms unat_flag_addr [OF assms(1,3)] unat_page_of [OF assms(1,2)]
    unat_entry_addr [OF assms(1,2,4)]
  by (simp add: unat_sub_if' phys_layout_def NFRAMES_def)

lemma ld64_flag_upd:
  assumes "phys_layout s" and "i < NFRAMES" "k < NFRAMES" and "unat x < 512"
  shows "ld64 (m(flag_addr s k := v)) (page_of s i + 8 * x) = ld64 m (page_of s i + 8 * x)"
  by (rule ld64_upd_out) (rule flag_entry_out [OF assms])

lemma flag_outside_page:
  assumes "phys_layout s" and "i < NFRAMES" "k < NFRAMES"
  shows "4096 \<le> unat (flag_addr s k - page_of s i)"
  using assms unat_flag_addr [OF assms(1,3)] unat_page_of [OF assms(1,2)]
  by (simp add: unat_sub_if' phys_layout_def NFRAMES_def)

lemma used_entry_store:
  assumes "phys_layout s" and "i < NFRAMES" and "unat x < 512"
  shows "used (s\<lparr>mem := st64 (mem s) (page_of s i + 8 * x) e\<rparr>) = used s"
  using assms by (auto simp: used_def state_simps st64_out flag_entry_out)

lemma page_entry_out:
  assumes "phys_layout s" and "i < NFRAMES" "j < NFRAMES" "i \<noteq> j" and "unat y < 512"
    and "unat (x - page_of s j) < 4096"
  shows "8 \<le> unat (x - (page_of s i + 8 * y))"
proof (rule disj_out [OF _ assms(6)])
  have b: "unat (phys_base s) + 32768 + 4096 * NFRAMES \<le> 2 ^ 32"
    using assms(1) by (simp add: phys_layout_def)
  note ea = unat_entry_addr [OF assms(1)] unat_page_of [OF assms(1)]
  show "disj (page_of s i + 8 * y) 8 (page_of s j) 4096"
    using b assms(2-5)
    by (intro disj_nat; cases i j rule: linorder_cases) (auto simp: ea NFRAMES_def)
qed

lemma ld64_page_zero:
  assumes "\<And>x. unat (x - page_of s i) < 4096 \<Longrightarrow> m x = 0" and "unat y < 512"
  shows "ld64 m (page_of s i + 8 * y) = 0"
proof (rule ld64_zero)
  fix x
  assume "unat (x - (page_of s i + 8 * y)) < 8"
  moreover have "x - page_of s i = x - (page_of s i + 8 * y) + 8 * y" by simp
  ultimately have "unat (x - page_of s i) < 4096"
    using assms(2) by (simp only: unat_word_ariths) auto
  then show "m x = 0" by (rule assms(1))
qed

text \<open>The flags and the frames: the only memory the allocator and the page tables use.\<close>

definition in_pool :: "'a phys_scheme \<Rightarrow> u64 \<Rightarrow> bool" where
  "in_pool s x \<longleftrightarrow> unat (x - managed_frames_address_start s) < 32768 + 4096 * NFRAMES"

lemma in_pool_cong [state_simps]:
  "in_pool (s\<lparr>mem := m\<rparr>) = in_pool s" "in_pool (s\<lparr>out := t\<rparr>) = in_pool s"
  by (simp_all add: in_pool_def fun_eq_iff)

lemma flag_in_pool: "i < NFRAMES \<Longrightarrow> in_pool s (flag_addr s i)"
  by (simp add: in_pool_def flag_addr_def unat_of_nat_small [of i NFRAMES] NFRAMES_def)

lemma entry_in_pool:
  assumes "phys_layout s" and "i < NFRAMES" and "unat y < 512" and "\<not> in_pool s x"
  shows "8 \<le> unat (x - (page_of s i + 8 * y))"
proof (rule ccontr)
  let ?m = "managed_frames_address_start s" and ?a = "page_of s i + 8 * y"
  assume "\<not> 8 \<le> unat (x - ?a)"
  moreover have "unat (?a - ?m) = 32768 + 4096 * i + 8 * unat y"
  proof -
    have "?a - ?m = of_nat (32768 + 4096 * i + 8 * unat y)"
      using assms(1) by (simp add: page_of_def frame_addr_def phys_layout_def phys_base_def)
    moreover have "32768 + 4096 * i + 8 * unat y < 2 ^ 64"
      using assms(2,3) by (simp add: NFRAMES_def)
    ultimately show ?thesis by (simp only: unat_of_nat) simp
  qed
  moreover have "x - ?m = (x - ?a) + (?a - ?m)" by simp
  ultimately have "unat (x - ?m) < 32768 + 4096 * NFRAMES"
    using assms(2,3) by (simp only: unat_word_ariths) (simp add: NFRAMES_def)
  with assms(4) show False by (simp add: in_pool_def)
qed

section \<open>Well-formed page tables\<close>

text \<open>
  \<open>tbl m root n va\<close> is the table a walk for \<open>va\<close> reaches after \<open>n\<close> steps, if
  every entry on the way points to a table. Its entry for \<open>va\<close> is \<open>entry m t n va\<close>.
\<close>

definition table_entry :: "u64 \<Rightarrow> bool" where
  "table_entry e \<longleftrightarrow> \<not> pte_fault e \<and> \<not> bit e 1 \<and> \<not> bit e 3"

abbreviation entry :: "mem \<Rightarrow> u64 \<Rightarrow> nat \<Rightarrow> u64 \<Rightarrow> u64" where
  "entry m t n va \<equiv> ld64 m (t + 8 * vpn (3 - n) va)"

fun tbl :: "mem \<Rightarrow> u64 \<Rightarrow> nat \<Rightarrow> u64 \<Rightarrow> u64 option" where
  "tbl m root 0 va = Some root"
| "tbl m root (Suc n) va = (case tbl m root n va of
     None \<Rightarrow> None
   | Some t \<Rightarrow> if table_entry (entry m t n va) then Some (pte_pa (entry m t n va) + VIRTUAL_OFFSET) else None)"

definition agree :: "nat \<Rightarrow> u64 \<Rightarrow> u64 \<Rightarrow> bool" where
  "agree n va va' \<longleftrightarrow> (\<forall>k<n. vpn (3 - k) va = vpn (3 - k) va')"

lemma agree_0 [simp]: "agree 0 va va'"
  by (simp add: agree_def)

lemma agree_refl [simp]: "agree n va va"
  by (simp add: agree_def)

lemma agree_Suc: "agree (Suc n) va va' \<longleftrightarrow> agree n va va' \<and> vpn (3 - n) va = vpn (3 - n) va'"
  by (auto simp: agree_def less_Suc_eq)

lemma agree_sym: "agree n va va' \<longleftrightarrow> agree n va' va"
  by (auto simp: agree_def)

lemma agree_trans: "agree n va va' \<Longrightarrow> agree n va' va'' \<Longrightarrow> agree n va va''"
  by (auto simp: agree_def)

lemma agree_mono: "agree n va va' \<Longrightarrow> k \<le> n \<Longrightarrow> agree k va va'"
  by (auto simp: agree_def)

lemma tbl_agree: "agree n va va' \<Longrightarrow> tbl m root n va = tbl m root n va'"
  by (induction n) (auto simp: agree_Suc split: option.split)

lemma tbl_prefix: "tbl m root n va = Some t \<Longrightarrow> k \<le> n \<Longrightarrow> \<exists>u. tbl m root k va = Some u"
  by (induction n arbitrary: t) (auto simp: le_Suc_eq split: option.splits if_splits)

text \<open>The addresses of the direct map: the four gigapages from \<open>VIRTUAL_OFFSET\<close> on.\<close>

definition direct :: "u64 \<Rightarrow> bool" where
  "direct va \<longleftrightarrow> vpn 3 va = 256 \<and> vpn 2 va < 4"

lemma direct_agree: "agree 2 va va' \<Longrightarrow> direct va = direct va'"
  by (simp add: agree_def direct_def numeral_2_eq_2 less_Suc_eq)

text \<open>
  Four properties of the tables a kernel page table is made of. Every table lies in a frame in
  use; a table is reached at one level by one prefix of the address only; a valid entry of an
  inner table points to a table, the direct map's gigapages excepted, and one of a last table
  is a leaf; and the frames not in use are zero.
\<close>

definition tables_used :: "'a paging_scheme \<Rightarrow> bool" where
  "tables_used s \<longleftrightarrow> (\<forall>n va t. n \<le> 3 \<and> tbl (mem s) (first_level_table s) n va = Some t \<longrightarrow>
     (\<exists>i \<in> used s. t = page_of s i))"

definition tables_inj :: "mem \<Rightarrow> u64 \<Rightarrow> bool" where
  "tables_inj m root \<longleftrightarrow> (\<forall>n n' va va' t. n \<le> 3 \<and> n' \<le> 3 \<and> tbl m root n va = Some t \<and>
     tbl m root n' va' = Some t \<longrightarrow> n = n' \<and> agree n va va')"

definition entry_ok :: "nat \<Rightarrow> u64 \<Rightarrow> u64 \<Rightarrow> bool" where
  "entry_ok n va e \<longleftrightarrow> \<not> bit e 0 \<or>
     (if n = 3 then \<not> pte_fault e \<and> bit e 1 else table_entry e \<or> n = 1 \<and> direct va)"

definition entries_ok :: "mem \<Rightarrow> u64 \<Rightarrow> bool" where
  "entries_ok m root \<longleftrightarrow> (\<forall>n va t. n \<le> 3 \<and> tbl m root n va = Some t \<longrightarrow> entry_ok n va (entry m t n va))"

definition frames_zero :: "'a phys_scheme \<Rightarrow> bool" where
  "frames_zero s \<longleftrightarrow> (\<forall>i x. i < NFRAMES \<and> i \<notin> used s \<and> unat (x - page_of s i) < 4096 \<longrightarrow> mem s x = 0)"

definition pt_wf :: "'a paging_scheme \<Rightarrow> bool" where
  "pt_wf s \<longleftrightarrow> phys_layout s \<and> tables_used s \<and> tables_inj (mem s) (first_level_table s) \<and>
     entries_ok (mem s) (first_level_table s) \<and> frames_zero s"

lemma pt_wf_out [state_simps]:
  "frames_zero (s\<lparr>out := t\<rparr>) = frames_zero s" "tables_used (p\<lparr>out := t\<rparr>) = tables_used p"
  "pt_wf (p\<lparr>out := t\<rparr>) = pt_wf p" "sv48 (p\<lparr>out := t\<rparr>) = sv48 p"
  by (simp_all add: pt_wf_def tables_used_def frames_zero_def sv48_def state_simps fun_eq_iff)

lemma pt_wf_table:
  assumes "pt_wf s" and "n \<le> 3" and "tbl (mem s) (first_level_table s) n va = Some t"
  obtains i where "i \<in> used s" "t = page_of s i"
  using assms unfolding pt_wf_def tables_used_def by blast

lemma used_bound: "i \<in> used s \<Longrightarrow> i < NFRAMES"
  by (simp add: used_def)

section \<open>The walk over the tables\<close>

abbreviation pwalk :: "mem \<Rightarrow> nat \<Rightarrow> u64 \<Rightarrow> u64 \<Rightarrow> (u64 \<times> u64) option" where
  "pwalk m l t va \<equiv> sv48_walk (\<lambda>p. ld64 m (p + VIRTUAL_OFFSET)) l (t - VIRTUAL_OFFSET) va"

lemma pwalk_step:
  "pwalk m l t va =
     (let e = ld64 m (t + 8 * vpn l va) in
      if pte_fault e then None
      else if bit e 1 \<or> bit e 3 then sv48_leaf l e va
      else (case l of 0 \<Rightarrow> None | Suc k \<Rightarrow> pwalk m k (pte_pa e + VIRTUAL_OFFSET) va))"
proof -
  have "t - VIRTUAL_OFFSET + 8 * vpn l va + VIRTUAL_OFFSET = t + 8 * vpn l va" by simp
  moreover have "pte_pa e + VIRTUAL_OFFSET - VIRTUAL_OFFSET = pte_pa e" for e by simp
  ultimately show ?thesis
    by (subst sv48_walk.simps) (simp only:)
qed

lemma pwalk_tbl:
  assumes "tbl m root n va = Some t" and "n \<le> 3"
  shows "pwalk m 3 root va = pwalk m (3 - n) t va"
  using assms
proof (induction n arbitrary: t)
  case 0
  then show ?case by simp
next
  case (Suc n)
  then obtain u where u: "tbl m root n va = Some u" "table_entry (entry m u n va)"
    "t = pte_pa (entry m u n va) + VIRTUAL_OFFSET"
    by (auto split: option.splits if_splits)
  moreover have "3 - n = Suc (3 - Suc n)" using Suc.prems(2) by simp
  ultimately show ?case
    using Suc.IH [OF u(1)] Suc.prems(2) pwalk_step [of m "3 - n" u va]
    by (simp add: table_entry_def Let_def)
qed

lemma pwalk_cong:
  assumes "tbl m root n va = Some t" and "n \<le> 3"
    and "\<And>k u. n \<le> k \<Longrightarrow> k \<le> 3 \<Longrightarrow> tbl m root k va = Some u \<Longrightarrow> entry m' u k va = entry m u k va"
  shows "pwalk m' (3 - n) t va = pwalk m (3 - n) t va"
  using assms
proof (induction "3 - n" arbitrary: n t)
  case 0
  then have "n = 3" by simp
  with 0 show ?case by (simp add: pwalk_step [of _ 0] Let_def)
next
  case (Suc l)
  then have l: "l = 3 - Suc n" "3 - n = Suc l" "Suc n \<le> 3" by simp_all
  have e: "entry m' t n va = entry m t n va"
    using Suc.prems by simp
  show ?case
  proof (cases "table_entry (entry m t n va)")
    case True
    then have "tbl m root (Suc n) va = Some (pte_pa (entry m t n va) + VIRTUAL_OFFSET)"
      using Suc.prems(1) by simp
    from Suc.hyps(1) [OF l(1) this l(3)] Suc.prems(3) l e True
    show ?thesis
      by (simp add: pwalk_step [of _ "Suc (2 - n)"] Let_def)
  next
    case False
    then show ?thesis
      using e by (auto simp: pwalk_step [of _ "3 - n"] Let_def table_entry_def)
  qed
qed

section \<open>Writing an entry\<close>

lemma entry_store:
  assumes "pt_wf s" and "tbl (mem s) (first_level_table s) n va = Some t" "n \<le> 3"
    and "tbl (mem s) (first_level_table s) k va' = Some u" "k \<le> 3"
    and "\<not> (k = n \<and> agree (Suc n) va va')"
  shows "entry (st64 (mem s) (t + 8 * vpn (3 - n) va) e) u k va' = entry (mem s) u k va'"
proof -
  obtain i j where ij: "t = page_of s i" "u = page_of s j" "i < NFRAMES" "j < NFRAMES"
    using assms used_bound unfolding pt_wf_def tables_used_def by metis
  have "i \<noteq> j \<or> vpn (3 - n) va \<noteq> vpn (3 - k) va'"
    using assms ij unfolding pt_wf_def tables_inj_def agree_Suc by metis
  with ij assms(1) show ?thesis
    by (simp add: ld64_st64_disj entries_disj unat_vpn pt_wf_def)
qed

lemma tbl_store:
  assumes "pt_wf s" and "tbl (mem s) (first_level_table s) n va = Some t" "n \<le> 3"
    and "k \<le> 3" and "\<not> (n < k \<and> agree (Suc n) va va')"
  shows "tbl (st64 (mem s) (t + 8 * vpn (3 - n) va) e) (first_level_table s) k va' =
    tbl (mem s) (first_level_table s) k va'"
  using assms(4,5)
proof (induction k)
  case 0
  then show ?case by simp
next
  case (Suc k)
  then have IH: "tbl (st64 (mem s) (t + 8 * vpn (3 - n) va) e) (first_level_table s) k va' =
      tbl (mem s) (first_level_table s) k va'" by auto
  show ?case
  proof (cases "tbl (mem s) (first_level_table s) k va'")
    case None
    then show ?thesis by (simp add: IH)
  next
    case (Some u)
    with Suc.prems entry_store [OF assms(1,2,3) Some, of e] show ?thesis
      by (simp add: IH)
  qed
qed

text \<open>A new, empty table behind an entry that was not valid.\<close>

definition fresh_table :: "'a paging_scheme \<Rightarrow> nat \<Rightarrow> bool" where
  "fresh_table s k \<longleftrightarrow> k \<in> used s \<and> (\<forall>x. unat (x - page_of s k) < 4096 \<longrightarrow> mem s x = 0) \<and>
     (\<forall>n va. n \<le> 3 \<longrightarrow> tbl (mem s) (first_level_table s) n va \<noteq> Some (page_of s k))"

lemma fresh_entry_zero:
  assumes "pt_wf s" and "fresh_table s k" and "i < NFRAMES" "i \<noteq> k" and "unat y < 512"
  shows "ld64 (st64 (mem s) (page_of s i + 8 * y) e) (page_of s k + 8 * vpn l va) = 0"
proof -
  have "k < NFRAMES" using assms(2) by (auto simp: fresh_table_def intro: used_bound)
  then have "ld64 (st64 (mem s) (page_of s i + 8 * y) e) (page_of s k + 8 * vpn l va) =
      ld64 (mem s) (page_of s k + 8 * vpn l va)"
    using assms by (simp add: ld64_st64_disj entries_disj unat_vpn pt_wf_def)
  then show ?thesis
    using assms(2) by (simp add: ld64_page_zero unat_vpn fresh_table_def)
qed

lemma table_entry_0 [simp]: "\<not> table_entry 0" "pte_fault 0"
  by (simp_all add: table_entry_def pte_fault_def)

lemma table_entry_valid: "table_entry e \<Longrightarrow> bit e 0"
  by (simp add: table_entry_def pte_fault_def)

lemma tbl_new_table:
  assumes wf: "pt_wf s" and t: "tbl (mem s) (first_level_table s) n va = Some t" "n < 3"
    and inv: "\<not> bit (entry (mem s) t n va) 0" and fresh: "fresh_table s k"
    and e: "table_entry e" "pte_pa e + VIRTUAL_OFFSET = page_of s k" and "n' \<le> 3"
  shows "tbl (st64 (mem s) (t + 8 * vpn (3 - n) va) e) (first_level_table s) n' va' =
    (if n' = Suc n \<and> agree (Suc n) va va' then Some (page_of s k)
     else tbl (mem s) (first_level_table s) n' va')"
proof (cases "n < n' \<and> agree (Suc n) va va'")
  case False
  then show ?thesis
    using tbl_store [OF wf t(1) _ assms(8), of va' e] t(2) by auto
next
  case True
  let ?m' = "st64 (mem s) (t + 8 * vpn (3 - n) va) e" and ?r = "first_level_table s"
  have ag: "agree n va va'" "vpn (3 - n) va' = vpn (3 - n) va"
    using True by (simp_all add: agree_Suc)
  have tn: "tbl (mem s) ?r n va' = Some t"
    using t tbl_agree [OF ag(1)] by simp
  then have "tbl ?m' ?r n va' = Some t"
    using tbl_store [OF wf t(1), of n va' e] t(2) by simp
  then have new: "tbl ?m' ?r (Suc n) va' = Some (page_of s k)"
    using e ag by (simp add: ld64_st64)
  obtain i where i: "t = page_of s i" "i < NFRAMES"
    using wf t used_bound unfolding pt_wf_def tables_used_def by (metis less_imp_le)
  have "i \<noteq> k"
    using fresh t i by (auto simp: fresh_table_def)
  then have "tbl ?m' ?r (Suc (Suc n)) va' = None"
    using new fresh_entry_zero [OF wf fresh i(2) _ unat_vpn, of "3 - n" va e "3 - Suc n" va'] i
    by (simp del: tbl.simps(1))
  moreover have "tbl (mem s) ?r (Suc n) va' = None"
    using tn inv ag by (auto dest: table_entry_valid)
  ultimately show ?thesis
    using new True tbl_prefix [of ?m' ?r n' va' _ "Suc (Suc n)"] tbl_prefix [of "mem s" ?r n' va' _ "Suc n"]
    by (cases "n' = Suc n"; cases "tbl ?m' ?r n' va'"; cases "tbl (mem s) ?r n' va'") auto
qed

lemma frames_zero_store:
  assumes "phys_layout s" and "frames_zero s" and "i \<in> used s" and "unat y < 512"
  shows "frames_zero (s\<lparr>mem := st64 (mem s) (page_of s i + 8 * y) e\<rparr>)"
  unfolding frames_zero_def
proof (intro allI impI)
  fix j x
  assume j: "j < NFRAMES \<and> j \<notin> used (s\<lparr>mem := st64 (mem s) (page_of s i + 8 * y) e\<rparr>) \<and>
    unat (x - page_of (s\<lparr>mem := st64 (mem s) (page_of s i + 8 * y) e\<rparr>) j) < 4096"
  have "i < NFRAMES" using assms(3) by (rule used_bound)
  moreover from this have "i \<noteq> j"
    using j assms by (auto simp: used_entry_store)
  ultimately show "mem (s\<lparr>mem := st64 (mem s) (page_of s i + 8 * y) e\<rparr>) x = 0"
    using j assms page_entry_out [of s i j y x]
    by (auto simp: used_entry_store state_simps frames_zero_def st64_out)
qed

text \<open>What storing an entry of a table does to the frames and to the flags.\<close>

lemma store_layout:
  assumes "pt_wf s" and "tbl (mem s) (first_level_table s) n va = Some t" "n \<le> 3"
  shows "used (s\<lparr>mem := st64 (mem s) (t + 8 * vpn (3 - n) va) e\<rparr>) = used s"
    and "frames_zero (s\<lparr>mem := st64 (mem s) (t + 8 * vpn (3 - n) va) e\<rparr>)"
proof -
  obtain i where i: "t = page_of s i" "i \<in> used s"
    using assms unfolding pt_wf_def tables_used_def by blast
  then show "used (s\<lparr>mem := st64 (mem s) (t + 8 * vpn (3 - n) va) e\<rparr>) = used s"
    "frames_zero (s\<lparr>mem := st64 (mem s) (t + 8 * vpn (3 - n) va) e\<rparr>)"
    using assms(1)
    by (simp_all add: pt_wf_def used_entry_store used_bound unat_vpn frames_zero_store)
qed

lemma pt_wf_new_table:
  assumes wf: "pt_wf s" and t: "tbl (mem s) (first_level_table s) n va = Some t" "n < 3"
    and inv: "\<not> bit (entry (mem s) t n va) 0" and fresh: "fresh_table s k"
    and e: "table_entry e" "pte_pa e + VIRTUAL_OFFSET = page_of s k"
  shows "pt_wf (s\<lparr>mem := st64 (mem s) (t + 8 * vpn (3 - n) va) e\<rparr>)"
proof -
  let ?m' = "st64 (mem s) (t + 8 * vpn (3 - n) va) e" and ?r = "first_level_table s"
  note new = tbl_new_table [OF wf t inv fresh e]
  have n3: "n \<le> 3" using t(2) by simp
  note lay = store_layout [OF wf t(1) n3, of e]
  obtain i where i: "t = page_of s i" "i < NFRAMES" "i \<noteq> k"
    using wf t fresh used_bound unfolding pt_wf_def tables_used_def fresh_table_def by (metis less_imp_le)
  have "tables_used (s\<lparr>mem := ?m'\<rparr>)"
    using wf fresh lay(1) new
    by (auto simp: tables_used_def pt_wf_def fresh_table_def state_simps split: if_splits)
  moreover have "tables_inj ?m' ?r"
  proof -
    have "n1 = n2 \<and> agree n1 v1 v2"
      if "n1 \<le> 3" "n2 \<le> 3" "tbl ?m' ?r n1 v1 = Some u" "tbl ?m' ?r n2 v2 = Some u" for n1 n2 v1 v2 u
      using that wf fresh new agree_trans [of "Suc n" v1 va v2] agree_sym [of "Suc n" v1 va]
      unfolding pt_wf_def tables_inj_def fresh_table_def by (metis option.inject)
    then show ?thesis unfolding tables_inj_def by blast
  qed
  moreover have "entries_ok ?m' ?r"
    unfolding entries_ok_def
  proof (intro allI impI)
    fix n1 v u
    assume u: "n1 \<le> 3 \<and> tbl ?m' ?r n1 v = Some u"
    show "entry_ok n1 v (entry ?m' u n1 v)"
    proof (cases "n1 = Suc n \<and> agree (Suc n) va v")
      case True
      with u new [of n1 v] have "u = page_of s k" by (simp del: tbl.simps)
      then have "entry ?m' u n1 v = 0"
        using fresh_entry_zero [OF wf fresh i(2,3) unat_vpn, of "3 - n" va e "3 - n1" v] i(1) by simp
      then show ?thesis by (simp add: entry_ok_def)
    next
      case False
      then have u': "tbl (mem s) ?r n1 v = Some u"
        using new [of n1 v] u by auto
      show ?thesis
      proof (cases "n1 = n \<and> agree (Suc n) va v")
        case True
        then have "u = t" "vpn (3 - n) v = vpn (3 - n) va"
          using u' t(1) tbl_agree [of n va v] by (auto simp: agree_Suc)
        with True t(2) e(1) show ?thesis by (simp add: entry_ok_def ld64_st64)
      next
        case False
        then show ?thesis
          using entry_store [OF wf t(1) n3 u' _ False, of e] wf u u'
          by (simp add: pt_wf_def entries_ok_def)
      qed
    qed
  qed
  ultimately show ?thesis
    using wf lay(2) by (simp add: pt_wf_def state_simps)
qed

lemma sv48_new_table:
  assumes wf: "pt_wf s" and t: "tbl (mem s) (first_level_table s) n va = Some t" "n < 3"
    and inv: "\<not> bit (entry (mem s) t n va) 0" and fresh: "fresh_table s k"
    and e: "table_entry e" "pte_pa e + VIRTUAL_OFFSET = page_of s k"
  shows "sv48 (s\<lparr>mem := st64 (mem s) (t + 8 * vpn (3 - n) va) e\<rparr>) v = sv48 s v"
proof -
  let ?m' = "st64 (mem s) (t + 8 * vpn (3 - n) va) e" and ?r = "first_level_table s"
  have n3: "n \<le> 3" using t(2) by simp
  have "pwalk ?m' 3 ?r v = pwalk (mem s) 3 ?r v"
  proof (cases "agree (Suc n) va v")
    case False
    then show ?thesis
      using pwalk_cong [of "mem s" ?r 0 v ?r ?m'] entry_store [OF wf t(1) n3, of _ v _ e] by simp
  next
    case True
    then have tn: "tbl (mem s) ?r n v = Some t" "entry (mem s) t n v = entry (mem s) t n va"
      using t(1) tbl_agree [of n va v] by (simp_all add: agree_Suc)
    have "pwalk (mem s) 3 ?r v = None"
      using pwalk_tbl [OF tn(1) n3] inv tn(2) pwalk_step [of "mem s" "3 - n" t v]
      by (simp add: pte_fault_def Let_def)
    moreover have "tbl ?m' ?r (Suc n) v = Some (page_of s k)"
      using tbl_new_table [OF wf t inv fresh e, of "Suc n" v] True t(2) by simp
    moreover obtain i where i: "t = page_of s i" "i < NFRAMES" "i \<noteq> k"
      using wf t fresh used_bound unfolding pt_wf_def tables_used_def fresh_table_def
      by (metis less_imp_le)
    moreover have "entry ?m' (page_of s k) (Suc n) v = 0"
      using fresh_entry_zero [OF wf fresh i(2,3) unat_vpn, of "3 - n" va e "3 - Suc n" v] i(1) by simp
    ultimately show ?thesis
      using pwalk_tbl [of ?m' ?r "Suc n" v "page_of s k"] t(2) pwalk_step [of ?m' "3 - Suc n" "page_of s k" v]
      by (simp del: tbl.simps)
  qed
  then show ?thesis by (simp add: sv48_def)
qed

text \<open>A leaf in a last-level table.\<close>

lemma pt_wf_leaf:
  assumes wf: "pt_wf s" and t: "tbl (mem s) (first_level_table s) 3 va = Some t"
    and e: "\<not> pte_fault e" "bit e 1"
  shows "pt_wf (s\<lparr>mem := st64 (mem s) (t + 8 * vpn 0 va) e\<rparr>)"
proof -
  let ?m' = "st64 (mem s) (t + 8 * vpn 0 va) e" and ?r = "first_level_table s"
  have same: "tbl ?m' ?r n v = tbl (mem s) ?r n v" if "n \<le> 3" for n v
    using tbl_store [OF wf t, of n v e] that by simp
  have "entry_ok n v (entry ?m' u n v)" if u: "n \<le> 3" "tbl (mem s) ?r n v = Some u" for n v u
  proof (cases "n = 3 \<and> agree 4 va v")
    case True
    then have "u = t" "vpn 0 v = vpn 0 va"
      using u t tbl_agree [of 3 va v] agree_Suc [of 3 va v] by auto
    with True e show ?thesis by (simp add: entry_ok_def ld64_st64)
  next
    case False
    then show ?thesis
      using entry_store [OF wf t _ u(2,1), of e] wf u by (simp add: pt_wf_def entries_ok_def)
  qed
  then have "entries_ok ?m' ?r"
    unfolding entries_ok_def by (metis same)
  moreover have "tables_inj ?m' ?r"
    using wf unfolding pt_wf_def tables_inj_def by (metis same)
  ultimately show ?thesis
    using wf store_layout [OF wf t, of e] unfolding pt_wf_def tables_used_def
    by (auto simp: same state_simps)
qed

lemma sv48_leaf_store:
  assumes wf: "pt_wf s" and t: "tbl (mem s) (first_level_table s) 3 va = Some t"
    and e: "\<not> pte_fault e" "bit e 1"
  shows "sv48 (s\<lparr>mem := st64 (mem s) (t + 8 * vpn 0 va) e\<rparr>) v =
    (if canonical v \<and> agree 4 va v then sv48_leaf 0 e v else sv48 s v)"
proof (cases "agree 4 va v")
  case False
  then show ?thesis
    using pwalk_cong [of "mem s" "first_level_table s" 0 v "first_level_table s"
        "st64 (mem s) (t + 8 * vpn 0 va) e"] entry_store [OF wf t, of _ v _ e]
    by (simp add: sv48_def)
next
  case True
  let ?m' = "st64 (mem s) (t + 8 * vpn 0 va) e"
  have v: "tbl (mem s) (first_level_table s) 3 v = Some t" "vpn 0 v = vpn 0 va"
    using True t tbl_agree [of 3 va v] agree_Suc [of 3 va v] by auto
  then have "tbl ?m' (first_level_table s) 3 v = Some t"
    using tbl_store [OF wf t, of 3 v e] by simp
  from pwalk_tbl [OF this] show ?thesis
    using True e v(2) pwalk_step [of ?m' 0 t v] by (simp add: sv48_def ld64_st64)
qed

section \<open>Entries\<close>

text \<open>
  \<^verbatim>\<open>createValidPageTableEntry\<close> keeps 40 bits of the page number, which is enough for
  frames below \<open>2 ^ 52\<close>.
\<close>

lemma small_bits:
  assumes "unat (w :: u64) < 2 ^ k" and "bit w n"
  shows "n < k"
proof -
  have "take_bit k w = w"
    using assms(1) by (simp add: word_unat_eq_iff unat_take_bit)
  with assms(2) show ?thesis by (metis bit_take_bit_iff)
qed

lemma create_entry_bits:
  "bit (createValidPageTableEntry p) n \<longleftrightarrow> n = 0 \<or> 10 \<le> n \<and> n < 50 \<and> bit p (n - 10)"
proof -
  have "p AND 0xFFFFFFFFFF = take_bit 40 p"
    by (simp add: take_bit_eq_mask mask_eq_exp_minus_1)
  then show ?thesis
    by (auto simp: createValidPageTableEntry_def bit_simps dest: bit_imp_le_length)
qed

definition frame_ok :: "u64 \<Rightarrow> bool" where
  "frame_ok f \<longleftrightarrow> take_bit 12 f = 0 \<and> drop_bit 52 f = 0"

lemma frame_ok_bits:
  assumes "frame_ok f" and "bit f n"
  shows "12 \<le> n \<and> n < 52"
proof -
  have "\<not> bit (take_bit 12 f) n" "\<not> bit (drop_bit 52 f) (n - 52)"
    using assms(1) by (simp_all add: frame_ok_def)
  with assms(2) show ?thesis
    by (cases "n < 52") (auto simp: bit_simps)
qed

lemma pte_pa_create:
  assumes "frame_ok f" and "flag < 0x400"
  shows "pte_pa (createValidPageTableEntry (frame_get_ppn f) OR flag) = f"
proof (rule bit_word_eqI)
  fix n
  have fl: "bit flag n \<Longrightarrow> n < 10" for n
    using assms(2) small_bits [of flag 10] by (simp add: word_less_nat_alt)
  show "bit (pte_pa (createValidPageTableEntry (frame_get_ppn f) OR flag)) n = bit f n"
    using frame_ok_bits [OF assms(1), of n] fl [of "n - 2"]
    by (auto simp: pte_pa_def bit_simps create_entry_bits frame_get_ppn_def dest: bit_imp_le_length)
qed

lemma create_entry_reserved:
  assumes "flag < 0x400"
  shows "drop_bit 54 (createValidPageTableEntry p OR flag) = 0"
proof (rule bit_word_eqI)
  fix n
  have "\<not> bit flag (54 + n)"
    using assms small_bits [of flag 10 "54 + n"] by (auto simp: word_less_nat_alt)
  then show "bit (drop_bit 54 (createValidPageTableEntry p OR flag)) n = bit 0 n"
    by (simp add: bit_simps create_entry_bits)
qed

lemma table_entry_create [simp]: "table_entry (createValidPageTableEntry p)"
  using create_entry_reserved [of 0 p] by (simp add: table_entry_def pte_fault_def create_entry_bits)

section \<open>Allocating a frame for a table\<close>

lemma entry_flag:
  assumes "pt_wf s" and "tbl (mem s) (first_level_table s) n va = Some t" "n \<le> 3" and "k < NFRAMES"
  shows "entry ((mem s)(flag_addr s k := v)) t n va = entry (mem s) t n va"
proof -
  obtain i where "t = page_of s i" "i < NFRAMES"
    using assms used_bound unfolding pt_wf_def tables_used_def by blast
  with assms show ?thesis by (simp add: ld64_flag_upd unat_vpn pt_wf_def)
qed

lemma tbl_flag:
  assumes "pt_wf s" and "n \<le> 3" and "k < NFRAMES"
  shows "tbl ((mem s)(flag_addr s k := v)) (first_level_table s) n va = tbl (mem s) (first_level_table s) n va"
  using assms(2)
proof (induction n)
  case 0
  then show ?case by simp
next
  case (Suc n)
  then show ?case
    using entry_flag [OF assms(1) _ _ assms(3)]
    by (cases "tbl (mem s) (first_level_table s) n va") (auto simp del: fun_upd_apply)
qed

lemma page_of_inj:
  "phys_layout s \<Longrightarrow> i < NFRAMES \<Longrightarrow> j < NFRAMES \<Longrightarrow> page_of s i = page_of s j \<longleftrightarrow> i = j"
  by (simp add: page_of_def frame_addr_inj)

lemma flag_keeps_page:
  assumes "phys_layout s" and "k < NFRAMES" "j < NFRAMES" and "unat (x - page_of s j) < 4096"
  shows "((mem s)(flag_addr s k := v)) x = mem s x"
  using flag_outside_page [OF assms(1,3,2)] assms(4) by auto

lemma frames_zero_alloc:
  assumes "phys_layout s" and "frames_zero s" and "is_first_free s k"
  shows "frames_zero (s\<lparr>mem := (mem s)(flag_addr s k := 1)\<rparr>)"
proof -
  have "k < NFRAMES" using assms(3) by (simp add: is_first_free_def)
  then show ?thesis
    using assms(2) flag_keeps_page [OF assms(1), of k _ _ 1] unfolding frames_zero_def used_alloc [OF assms(3)]
    by (auto simp: state_simps simp del: fun_upd_apply)
qed

lemma pt_wf_alloc:
  assumes wf: "pt_wf s" and k: "is_first_free s k"
  defines "s1 \<equiv> s\<lparr>mem := (mem s)(flag_addr s k := 1)\<rparr>"
  shows "pt_wf s1" and "fresh_table s1 k" and "sv48 s1 = sv48 s"
proof -
  have kb: "k < NFRAMES" "k \<notin> used s" using first_free_unused [OF k] by auto
  have lay: "phys_layout s" using wf by (simp add: pt_wf_def)
  note same = tbl_flag [OF wf _ kb(1), of _ 1] and ent = entry_flag [OF wf _ _ kb(1), of _ _ _ 1]
  have "tables_used s1"
    using wf used_alloc [OF k] unfolding pt_wf_def tables_used_def s1_def
    by (auto simp: same state_simps)
  moreover have "tables_inj (mem s1) (first_level_table s1)"
    using wf unfolding pt_wf_def tables_inj_def s1_def by simp (metis same)
  moreover have "entries_ok (mem s1) (first_level_table s1)"
    using wf unfolding pt_wf_def entries_ok_def s1_def by simp (metis same ent)
  ultimately show "pt_wf s1"
    using wf frames_zero_alloc [OF lay _ k] by (simp add: pt_wf_def s1_def state_simps)
  have "tbl (mem s) (first_level_table s) n va \<noteq> Some (page_of s k)" if "n \<le> 3" for n va
    using that wf kb page_of_inj [OF lay] used_bound unfolding pt_wf_def tables_used_def by metis
  moreover have "((mem s)(flag_addr s k := 1)) x = 0" if "unat (x - page_of s k) < 4096" for x
    using that wf kb flag_keeps_page [OF lay kb(1) kb(1) that] unfolding pt_wf_def frames_zero_def by auto
  ultimately show "fresh_table s1 k"
    using used_alloc [OF k] by (simp add: fresh_table_def s1_def state_simps same)
  show "sv48 s1 = sv48 s"
    using pwalk_cong [of "mem s" "first_level_table s" 0 _ _ "(mem s)(flag_addr s k := 1)"] ent
    by (simp add: sv48_def s1_def fun_eq_iff)
qed

lemma frame_ok_frame_addr:
  assumes "phys_layout s" and "k < NFRAMES"
  shows "frame_ok (frame_addr s k)"
proof -
  have "4096 dvd unat (phys_base s)" "unat (phys_base s) + 32768 + 4096 * NFRAMES \<le> 2 ^ 32"
    using assms(1) by (simp_all add: phys_layout_def)
  then have "4096 dvd unat (frame_addr s k)" "unat (frame_addr s k) < 2 ^ 52"
    using assms unat_frame_addr [OF assms] by (auto intro!: dvd_add)
  then show ?thesis
    by (simp add: frame_ok_def word_unat_eq_iff unat_take_bit drop_bit_eq_div unat_div)
qed

section \<open>Mapping a page\<close>

lemma out_mem_swap: "(s :: 'a kio_scheme)\<lparr>out := t, mem := m\<rparr> = s\<lparr>mem := m, out := t\<rparr>"
  by (cases s) simp

lemma not_full: "card (used s) < NFRAMES \<Longrightarrow> used s \<noteq> {..<NFRAMES}"
  by (metis card_lessThan less_irrefl)

lemma isEntryValid_iff: "isEntryValid t idx m \<longleftrightarrow> bit (ld64 m (t + 8 * ucast idx)) 0"
  by (simp only: isEntryValid_def getEntry_def and_one_eq mod_2_eq_odd bit_0 of_bool_eq_1_iff)

lemma getPhysicalFrame_eq: "getPhysicalFrame t idx m = pte_pa (ld64 m (t + 8 * ucast idx))"
  by (simp add: getPhysicalFrame_def getEntry_def pte_pa_def)

text \<open>
  The tables of a later state: those there were, and some in frames that were not in use. If the
  frames in use were the first ones of the pool, they still are.
\<close>

lemma first_free_segment:
  assumes "is_first_free s k" and "used s = {..<K}"
  shows "k = K" "insert k (used s) = {..<Suc K}"
proof -
  have "k \<notin> {..<K}" using first_free_unused [OF assms(1)] assms(2) by simp
  moreover have "\<not> K < k"
  proof
    assume "K < k"
    then have "K \<in> used s" using assms(1) by (auto simp: is_first_free_def used_def)
    then show False unfolding assms(2) by simp
  qed
  ultimately show "k = K" by simp
  then show "insert k (used s) = {..<Suc K}" unfolding assms(2) by (simp add: lessThan_Suc)
qed

definition tables_grow :: "'a paging_scheme \<Rightarrow> 'a paging_scheme \<Rightarrow> bool" where
  "tables_grow s s' \<longleftrightarrow> used s \<subseteq> used s' \<and> page_of s' = page_of s \<and>
     ((\<exists>K. used s = {..<K}) \<longrightarrow> (\<exists>K. used s' = {..<K})) \<and>
     (\<forall>n va t. n \<le> 3 \<and> tbl (mem s') (first_level_table s') n va = Some t \<longrightarrow>
       tbl (mem s) (first_level_table s) n va = Some t \<or> (\<exists>i. i < NFRAMES \<and> i \<notin> used s \<and> t = page_of s i))"

lemma tables_grow_refl: "tables_grow s s"
  by (simp add: tables_grow_def)

lemma page_of_cong' [state_simps]:
  "page_of (s\<lparr>mem := m\<rparr>) = page_of s" "page_of (s\<lparr>out := t\<rparr>) = page_of s"
  by (simp_all add: page_of_def state_simps fun_eq_iff)

lemma tables_grow_trans:
  assumes "tables_grow s t" and "tables_grow t u"
  shows "tables_grow s u"
proof -
  have "used s \<subseteq> used u" "page_of u = page_of s" "(\<exists>K. used s = {..<K}) \<longrightarrow> (\<exists>K. used u = {..<K})"
    using assms unfolding tables_grow_def by auto
  moreover have "tbl (mem s) (first_level_table s) n va = Some x \<or> (\<exists>i. i < NFRAMES \<and> i \<notin> used s \<and> x = page_of s i)"
    if "n \<le> 3" "tbl (mem u) (first_level_table u) n va = Some x" for n va x
  proof -
    have "tbl (mem t) (first_level_table t) n va = Some x \<or> (\<exists>i. i < NFRAMES \<and> i \<notin> used t \<and> x = page_of t i)"
      using assms(2) that unfolding tables_grow_def by blast
    then show ?thesis using assms(1) that(1) unfolding tables_grow_def by (elim disjE) (blast, auto)
  qed
  ultimately show ?thesis unfolding tables_grow_def by blast
qed

lemma tables_grow_out [simp]: "tables_grow (s\<lparr>out := tx\<rparr>) t = tables_grow s t" "tables_grow s (t\<lparr>out := tx\<rparr>) = tables_grow s t"
  by (simp_all add: tables_grow_def state_simps)

lemma tables_grow_new_table:
  assumes "pt_wf s" and "is_first_free s k" and "tbl (mem s) (first_level_table s) n va = Some t" "n < 3"
    and "\<not> bit (entry (mem s) t n va) 0" and "table_entry e" "pte_pa e + VIRTUAL_OFFSET = page_of s k"
  shows "tables_grow s (s\<lparr>mem := st64 ((mem s)(flag_addr s k := 1)) (t + 8 * vpn (3 - n) va) e\<rparr>)"
proof -
  let ?s1 = "s\<lparr>mem := (mem s)(flag_addr s k := 1)\<rparr>"
  have kb: "k < NFRAMES" "k \<notin> used s" using first_free_unused [OF assms(2)] by auto
  have n3: "n \<le> 3" using assms(4) by simp
  note al = pt_wf_alloc [OF assms(1,2)]
  have fl: "tbl (mem ?s1) (first_level_table ?s1) n' v = tbl (mem s) (first_level_table s) n' v" if "n' \<le> 3" for n' v
    using tbl_flag [OF assms(1) that kb(1)] by simp
  have t1: "tbl (mem ?s1) (first_level_table ?s1) n va = Some t" using assms(3) fl [OF n3] by simp
  have inv: "\<not> bit (entry (mem ?s1) t n va) 0"
    using assms(5) entry_flag [OF assms(1,3) n3 kb(1)] by simp
  have pa: "pte_pa e + VIRTUAL_OFFSET = page_of ?s1 k" using assms(7) by (simp add: state_simps)
  note new = tbl_new_table [OF al(1) t1 assms(4) inv al(2) assms(6) pa]
  have "used (?s1\<lparr>mem := st64 (mem ?s1) (t + 8 * vpn (3 - n) va) e\<rparr>) = insert k (used s)"
    using store_layout(1) [OF al(1) t1 n3, of e] used_alloc [OF assms(2)] by simp
  moreover have "\<exists>K'. insert k (used s) = {..<K'}" if "used s = {..<K}" for K
    using first_free_segment(2) [OF assms(2) that] by blast
  ultimately show ?thesis
    unfolding tables_grow_def using new fl kb
    by (auto simp: state_simps simp del: fun_upd_apply tbl.simps split: if_splits)
qed

lemma tables_grow_leaf:
  assumes "pt_wf s" and "tbl (mem s) (first_level_table s) 3 va = Some t"
  shows "tables_grow s (s\<lparr>mem := st64 (mem s) (t + 8 * vpn 0 va) e\<rparr>)"
  using tbl_store [OF assms, of _ _ e] store_layout(1) [OF assms, of e]
  by (auto simp: tables_grow_def state_simps)

lemma ensure_entry_step:
  assumes wf: "pt_wf s" and t: "tbl (mem s) (first_level_table s) n va = Some t" "n < 3"
    and idx: "ucast idx = vpn (3 - n) va" and nd: "\<not> direct va" and room: "card (used s) < NFRAMES"
  shows "\<exists>m tx. let s' = s\<lparr>mem := m, out := tx\<rparr> in ensure_entry t idx s = Some s' \<and> pt_wf s' \<and>
    sv48 s' = sv48 s \<and> used s \<subseteq> used s' \<and> card (used s') \<le> Suc (card (used s)) \<and> (\<forall>x. \<not> in_pool s x \<longrightarrow> m x = mem s x) \<and>
    tables_grow s s' \<and>
    tbl m (first_level_table s) (Suc n) va = Some (getPhysicalFrame t idx m + VIRTUAL_OFFSET)"
proof (cases "bit (entry (mem s) t n va) 0")
  case True
  have "entry_ok n va (entry (mem s) t n va)"
    using wf t by (simp add: pt_wf_def entries_ok_def)
  with True t(2) nd have "table_entry (entry (mem s) t n va)"
    by (simp add: entry_ok_def)
  then have "tbl (mem s) (first_level_table s) (Suc n) va =
      Some (getPhysicalFrame t idx (mem s) + VIRTUAL_OFFSET)"
    using t idx by (simp add: getPhysicalFrame_eq)
  moreover have "ensure_entry t idx s = Some s"
    using True idx by (simp add: ensure_entry_def isEntryValid_iff)
  ultimately show ?thesis
    using wf by (intro exI [of _ "mem s"] exI [of _ "out s"]) (simp add: Let_def tables_grow_refl del: tbl.simps)
next
  case False
  obtain k where k: "is_first_free s k" using first_free_exists [OF not_full [OF room]] .
  then have kb: "k < NFRAMES" "k \<notin> used s" using first_free_unused [OF k] by auto
  let ?s1 = "s\<lparr>mem := (mem s)(flag_addr s k := 1)\<rparr>"
  let ?f = "frame_addr s k" and ?r = "first_level_table s"
  let ?e = "createValidPageTableEntry (frame_get_ppn ?f)"
  let ?m = "st64 (mem ?s1) (t + 8 * vpn (3 - n) va) ?e"
  note al = pt_wf_alloc [OF wf k]
  have lay: "phys_layout s" using wf by (simp add: pt_wf_def)
  have n3: "n \<le> 3" using t(2) by simp
  have t1: "tbl (mem ?s1) (first_level_table ?s1) n va = Some t"
    using t tbl_flag [OF wf n3 kb(1)] by simp
  have inv: "\<not> bit (entry (mem ?s1) t n va) 0"
    using False entry_flag [OF wf t(1) n3 kb(1)] by simp
  have pa: "pte_pa ?e + VIRTUAL_OFFSET = page_of ?s1 k"
    using pte_pa_create [OF frame_ok_frame_addr [OF lay kb(1)], of 0]
    by (simp add: page_of_def state_simps)
  note args = al(1) t1 t(2) inv al(2) table_entry_create pa
  obtain tx where eq: "ensure_entry t idx s = Some (s\<lparr>mem := ?m, out := tx\<rparr>)"
    using False idx kalloc_frame_eq [OF k]
    by (auto simp: ensure_entry_def isEntryValid_iff setEntry_def out_mem_swap simp del: fun_upd_apply)
  have wf2: "pt_wf (?s1\<lparr>mem := ?m\<rparr>)"
    by (rule pt_wf_new_table [OF args])
  moreover have "sv48 (?s1\<lparr>mem := ?m\<rparr>) = sv48 s"
    using sv48_new_table [OF args] al(3) by (simp add: fun_eq_iff)
  moreover have "used s \<subseteq> used (?s1\<lparr>mem := ?m\<rparr>)"
    using store_layout(1) [OF al(1) t1 n3, of ?e] used_alloc [OF k] by auto
  moreover have "card (used (?s1\<lparr>mem := ?m\<rparr>)) \<le> Suc (card (used s))"
    using store_layout(1) [OF al(1) t1 n3, of ?e] used_alloc [OF k]
    by (simp add: card_insert_le_m1 card_insert_if del: fun_upd_apply)
  moreover have "tbl ?m ?r (Suc n) va = Some (getPhysicalFrame t idx ?m + VIRTUAL_OFFSET)"
    using tbl_new_table [OF args, of "Suc n" va] t(2) idx pa
    by (simp add: getPhysicalFrame_eq ld64_st64 del: tbl.simps fun_upd_apply)
  moreover have "tables_grow s (s\<lparr>mem := ?m\<rparr>)"
    using tables_grow_new_table [OF wf k t False table_entry_create] pa by (simp add: state_simps del: fun_upd_apply)
  moreover have "?m x = mem s x" if "\<not> in_pool s x" for x
  proof -
    obtain i where "t = page_of s i" "i < NFRAMES"
      using wf t n3 used_bound unfolding pt_wf_def tables_used_def by blast
    then have "8 \<le> unat (x - (t + 8 * vpn (3 - n) va))"
      using entry_in_pool [OF lay _ unat_vpn that] by simp
    with that show ?thesis
      using flag_in_pool [OF kb(1), of s] by (auto simp: st64_out)
  qed
  ultimately show ?thesis
    unfolding Let_def
    by (intro exI [of _ ?m] exI [of _ tx] conjI) (use eq in \<open>simp_all add: state_simps del: tbl.simps fun_upd_apply\<close>)
qed

lemma log_frame_paging [simp]:
  "first_level_table (log level fmt args s) = first_level_table s"
  "satp (log level fmt args s) = satp s" "pt_wf (log level fmt args s) = pt_wf s"
  "sv48 (log level fmt args s) = sv48 s" "used (log level fmt args p) = used p"
  by (simp_all add: state_simps)

text \<open>\<open>map_page\<close> on the state its log line leaves, with the levels made explicit.\<close>

lemma map_page_steps:
  assumes "pt_wf s" and "card (used s) + 3 \<le> NFRAMES" and nd: "\<not> direct va"
  shows "\<exists>m tx t. let s' = s\<lparr>mem := m, out := tx\<rparr> in pt_wf s' \<and> sv48 s' = sv48 s \<and>
    used s \<subseteq> used s' \<and> card (used s') \<le> card (used s) + 3 \<and> tbl m (first_level_table s) 3 va = Some t \<and>
    (\<forall>x. \<not> in_pool s x \<longrightarrow> m x = mem s x) \<and> tables_grow s s' \<and>
    map_page va f flag s = Some (s'\<lparr>mem := st64 m (t + 8 * vpn 0 va)
      (createValidPageTableEntry (frame_get_ppn f) OR ucast flag)\<rparr>)"
proof -
  define s0 where "s0 = log PAGING ''Mapping virtual page 0x%x to physical frame 0x%x with flags 0x%x''
               [VInt va, VInt f, VInt (ucast flag)] s"
  let ?r = "first_level_table s"
  have s0: "pt_wf s0" "card (used s0) < NFRAMES" "first_level_table s0 = ?r" "sv48 s0 = sv48 s"
    "used s0 = used s" "mem s0 = mem s" "in_pool s0 = in_pool s" "\<exists>tx. s0 = s\<lparr>out := tx\<rparr>"
    using assms by (simp_all add: s0_def, auto simp: log_eq state_simps)
  obtain m1 x1 where 1: "ensure_entry ?r (get_vpn_3 va) s0 = Some (s0\<lparr>mem := m1, out := x1\<rparr>)"
    "pt_wf (s0\<lparr>mem := m1, out := x1\<rparr>)" "sv48 (s0\<lparr>mem := m1, out := x1\<rparr>) = sv48 s0"
    "used s0 \<subseteq> used (s0\<lparr>mem := m1, out := x1\<rparr>)" "card (used (s0\<lparr>mem := m1, out := x1\<rparr>)) \<le> Suc (card (used s0))"
    "\<And>x. \<not> in_pool s0 x \<Longrightarrow> m1 x = mem s0 x" "tables_grow s0 (s0\<lparr>mem := m1\<rparr>)"
    "tbl m1 ?r 1 va = Some (getPhysicalFrame ?r (get_vpn_3 va) m1 + VIRTUAL_OFFSET)"
    using ensure_entry_step [of s0 0 va ?r "get_vpn_3 va"] s0 nd
    by (auto simp: Let_def simp del: tbl.simps(2))
  let ?s1 = "s0\<lparr>mem := m1, out := x1\<rparr>"
  let ?t1 = "getPhysicalFrame ?r (get_vpn_3 va) m1 + VIRTUAL_OFFSET"
  have p1: "tbl (mem ?s1) (first_level_table ?s1) 1 va = Some ?t1" "card (used ?s1) < NFRAMES"
    using 1(5,8) s0(3,5) assms(2) by (simp_all del: tbl.simps)
  obtain m2 x2 where 2: "ensure_entry ?t1 (get_vpn_2 va) ?s1 = Some (s0\<lparr>mem := m2, out := x2\<rparr>)"
    "pt_wf (s0\<lparr>mem := m2, out := x2\<rparr>)" "sv48 (s0\<lparr>mem := m2, out := x2\<rparr>) = sv48 s0"
    "used ?s1 \<subseteq> used (s0\<lparr>mem := m2, out := x2\<rparr>)"
    "card (used (s0\<lparr>mem := m2, out := x2\<rparr>)) \<le> Suc (card (used ?s1))"
    "\<And>x. \<not> in_pool s0 x \<Longrightarrow> m2 x = m1 x" "tables_grow (s0\<lparr>mem := m1\<rparr>) (s0\<lparr>mem := m2\<rparr>)"
    "tbl m2 ?r 2 va = Some (getPhysicalFrame ?t1 (get_vpn_2 va) m2 + VIRTUAL_OFFSET)"
    using ensure_entry_step [OF 1(2) p1(1) _ _ nd p1(2), of "get_vpn_2 va"] 1(3) s0(3)
    by (auto simp: Let_def numeral_2_eq_2 out_mem_swap state_simps simp del: tbl.simps)
  let ?s2 = "s0\<lparr>mem := m2, out := x2\<rparr>"
  let ?t2 = "getPhysicalFrame ?t1 (get_vpn_2 va) m2 + VIRTUAL_OFFSET"
  have p2: "tbl (mem ?s2) (first_level_table ?s2) 2 va = Some ?t2" "card (used ?s2) < NFRAMES"
    using 1(5) 2(5,8) s0(3,5) assms(2) by (simp_all del: tbl.simps)
  obtain m3 x3 where 3: "ensure_entry ?t2 (get_vpn_1 va) ?s2 = Some (s0\<lparr>mem := m3, out := x3\<rparr>)"
    "pt_wf (s0\<lparr>mem := m3, out := x3\<rparr>)" "sv48 (s0\<lparr>mem := m3, out := x3\<rparr>) = sv48 s0"
    "used ?s2 \<subseteq> used (s0\<lparr>mem := m3, out := x3\<rparr>)"
    "card (used (s0\<lparr>mem := m3, out := x3\<rparr>)) \<le> Suc (card (used ?s2))"
    "\<And>x. \<not> in_pool s0 x \<Longrightarrow> m3 x = m2 x" "tables_grow (s0\<lparr>mem := m2\<rparr>) (s0\<lparr>mem := m3\<rparr>)"
    "tbl m3 ?r 3 va = Some (getPhysicalFrame ?t2 (get_vpn_1 va) m3 + VIRTUAL_OFFSET)"
    using ensure_entry_step [OF 2(2) p2(1) _ _ nd p2(2), of "get_vpn_1 va"] 2(3) s0(3)
    by (auto simp: Let_def numeral_3_eq_3 out_mem_swap state_simps simp del: tbl.simps)
  have "used s0 \<subseteq> used (s0\<lparr>mem := m3, out := x3\<rparr>)"
    using 1(4) 2(4) 3(4) by (rule order_trans [OF order_trans])
  moreover have "card (used (s0\<lparr>mem := m3, out := x3\<rparr>)) \<le> card (used s0) + 3"
    "\<And>x. \<not> in_pool s0 x \<Longrightarrow> m3 x = mem s0 x"
    using 1(5,6) 2(5,6) 3(5,6) by simp_all
  moreover have "tables_grow s (s\<lparr>mem := m3\<rparr>)"
    using tables_grow_trans [OF tables_grow_trans [OF 1(7) 2(7)] 3(7)] s0(8) by (auto simp: out_mem_swap)
  moreover have "map_page va f flag s = Some ((s0\<lparr>mem := m3, out := x3\<rparr>)\<lparr>mem := st64 m3
      (getPhysicalFrame ?t2 (get_vpn_1 va) m3 + VIRTUAL_OFFSET + 8 * vpn 0 va)
      (createValidPageTableEntry (frame_get_ppn f) OR ucast flag)\<rparr>)"
    using 1(1) 2(1) 3(1)
    by (simp add: map_page_def Let_def s0(3) setEntry_def flip: s0_def)
  ultimately show ?thesis
    using 3(2,3,8) s0(3-8) unfolding Let_def
    by (intro exI [of _ m3] exI [of _ x3]) (auto simp: out_mem_swap)
qed

lemma same_page_iff:
  assumes "canonical va" and "canonical v"
  shows "agree 4 va v \<longleftrightarrow> drop_bit 12 va = drop_bit 12 v"
proof
  assume "drop_bit 12 va = drop_bit 12 v"
  then have "drop_bit (9 * l) (drop_bit 12 va) = drop_bit (9 * l) (drop_bit 12 v)" for l
    by (rule arg_cong)
  then have "drop_bit (12 + 9 * l) va = drop_bit (12 + 9 * l) v" for l
    by (simp only: drop_bit_drop_bit add.commute [of 12])
  then show "agree 4 va v" by (simp add: agree_def vpn_def)
next
  assume a: "agree 4 va v"
  have bits: "bit va (12 + 9 * l + i) = bit v (12 + 9 * l + i)" if "l < 4" "i < 9" for l i
  proof -
    have "vpn l va = vpn l v"
      using a that(1) by (auto simp: agree_def dest: spec [of _ "3 - l"])
    then have "bit (vpn l va) i = bit (vpn l v) i" by simp
    with that(2) show ?thesis by (simp add: vpn_def and_511 bit_simps)
  qed
  have hi: "bit w (47 + i) = bit w 47" if "canonical w" "47 + i < 64" for w :: u64 and i
  proof -
    have "bit (drop_bit 47 w) i = bit (drop_bit 47 w) 0"
      using that by (auto simp: canonical_def bit_mask_iff)
    then show ?thesis by (simp add: bit_simps)
  qed
  show "drop_bit 12 va = drop_bit 12 v"
  proof (rule bit_word_eqI)
    fix n
    assume "n < LENGTH(64)"
    show "bit (drop_bit 12 va) n = bit (drop_bit 12 v) n"
    proof (cases "n < 36")
      case True
      then show ?thesis
        using bits [of "n div 9" "n mod 9"] by (simp add: bit_simps less_mult_imp_div_less add.assoc)
    next
      case False
      show ?thesis
      proof (cases "n + 12 < 64")
        case True
        with False show ?thesis
          using hi [OF assms(1), of "n - 35"] hi [OF assms(2), of "n - 35"] bits [of 3 8]
          by (simp add: bit_simps add.commute)
      next
        case False
        then show ?thesis by (auto simp: bit_simps dest: bit_imp_le_length)
      qed
    qed
  qed
qed

section \<open>The software walk\<close>

lemma leaf_pa [simp]: "take_bit 12 (pte_pa e) = 0"
  by (rule bit_word_eqI) (simp add: pte_pa_def bit_simps)

lemma sv48_leaf_0: "sv48_leaf 0 e va = Some (pte_pa e OR take_bit 12 va, e AND 0x1F)"
  by (simp add: sv48_leaf_def)

lemma ucast_get_offset: "ucast (get_offset va) = take_bit 12 va"
proof -
  have "va AND 0xFFF = take_bit 12 va"
    by (simp add: take_bit_eq_mask mask_eq_exp_minus_1)
  then show ?thesis
    unfolding get_offset_def by (intro bit_word_eqI) (auto simp: bit_simps)
qed

text \<open>One level of the software walk against the tables and the hardware's walk.\<close>

lemma walk_level:
  assumes wf: "pt_wf s" and nd: "\<not> direct va" and t: "tbl (mem s) (first_level_table s) n va = Some t" "n < 3"
    and idx: "ucast idx = vpn (3 - n) va"
  shows "\<not> isEntryValid t idx (mem s) \<Longrightarrow> sv48 s va = None"
    and "isEntryValid t idx (mem s) \<Longrightarrow>
      tbl (mem s) (first_level_table s) (Suc n) va = Some (getPhysicalFrame t idx (mem s) + VIRTUAL_OFFSET)"
proof -
  have n3: "n \<le> 3" using t(2) by simp
  show "sv48 s va = None" if "\<not> isEntryValid t idx (mem s)"
    using that idx pwalk_tbl [OF t(1) n3] pwalk_step [of "mem s" "3 - n" t va]
    by (simp add: sv48_def isEntryValid_iff pte_fault_def Let_def)
  have "entry_ok n va (entry (mem s) t n va)"
    using wf t by (simp add: pt_wf_def entries_ok_def)
  then show "tbl (mem s) (first_level_table s) (Suc n) va = Some (getPhysicalFrame t idx (mem s) + VIRTUAL_OFFSET)"
    if "isEntryValid t idx (mem s)"
    using that t idx nd by (simp add: isEntryValid_iff entry_ok_def getPhysicalFrame_eq)
qed

lemma walk_last:
  assumes wf: "pt_wf s" and "canonical va" and t: "tbl (mem s) (first_level_table s) 3 va = Some t"
  shows "sv48 s va = (if isEntryValid t (get_vpn_0 va) (mem s)
    then Some (getPhysicalFrame t (get_vpn_0 va) (mem s) OR ucast (get_offset va),
      ld64 (mem s) (t + 8 * vpn 0 va) AND 0x1F) else None)"
proof -
  have "entry_ok 3 va (entry (mem s) t 3 va)"
    using wf t unfolding pt_wf_def entries_ok_def by blast
  then show ?thesis
    using assms(2) pwalk_tbl [OF t] pwalk_step [of "mem s" 0 t va]
    by (auto simp: sv48_def isEntryValid_iff getPhysicalFrame_eq ucast_get_offset entry_ok_def
        pte_fault_def sv48_leaf_0 Let_def)
qed

lemma software_walk:
  assumes "pt_wf s" and "canonical va" and "\<not> direct va"
  shows "case sv48 s va of
      Some (p, _) \<Rightarrow> get_physical_address_of_virtual_address va s = (p, s)
    | None \<Rightarrow> fst (get_physical_address_of_virtual_address va s) = 0"
proof -
  let ?r = "first_level_table s" and ?m = "mem s"
  let ?t1 = "getPhysicalFrame ?r (get_vpn_3 va) ?m + VIRTUAL_OFFSET"
  let ?t2 = "getPhysicalFrame ?t1 (get_vpn_2 va) ?m + VIRTUAL_OFFSET"
  let ?t3 = "getPhysicalFrame ?t2 (get_vpn_1 va) ?m + VIRTUAL_OFFSET"
  note lv = walk_level [OF assms(1,3)]
  have 0: "tbl ?m ?r 0 va = Some ?r" by simp
  show ?thesis
  proof (cases "isEntryValid ?r (get_vpn_3 va) ?m \<and> isEntryValid ?t1 (get_vpn_2 va) ?m \<and>
      isEntryValid ?t2 (get_vpn_1 va) ?m")
    case True
    then have "tbl ?m ?r 1 va = Some ?t1"
      using lv(2) [OF 0, of "get_vpn_3 va"] by (simp del: tbl.simps)
    then have "tbl ?m ?r 2 va = Some ?t2"
      using True lv(2) [of 1 ?t1 "get_vpn_2 va"] by (simp add: numeral_2_eq_2 del: tbl.simps)
    then have "tbl ?m ?r 3 va = Some ?t3"
      using True lv(2) [of 2 ?t2 "get_vpn_1 va"] by (simp add: numeral_3_eq_3 del: tbl.simps)
    from walk_last [OF assms(1,2) this] True show ?thesis
      by (simp add: get_physical_address_of_virtual_address_def Let_def)
  next
    case False
    consider "\<not> isEntryValid ?r (get_vpn_3 va) ?m"
      | "isEntryValid ?r (get_vpn_3 va) ?m" "\<not> isEntryValid ?t1 (get_vpn_2 va) ?m"
      | "isEntryValid ?r (get_vpn_3 va) ?m" "isEntryValid ?t1 (get_vpn_2 va) ?m"
        "\<not> isEntryValid ?t2 (get_vpn_1 va) ?m"
      using False by blast
    then have "sv48 s va = None"
    proof cases
      case 1
      then show ?thesis using lv(1) [OF 0, of "get_vpn_3 va"] by simp
    next
      case 2
      then show ?thesis
        using lv(2) [OF 0, of "get_vpn_3 va"] lv(1) [of 1 ?t1 "get_vpn_2 va"] by (simp del: tbl.simps)
    next
      case 3
      then show ?thesis
        using lv(2) [OF 0, of "get_vpn_3 va"] lv(2) [of 1 ?t1 "get_vpn_2 va"]
          lv(1) [of 2 ?t2 "get_vpn_1 va"] by (simp add: numeral_2_eq_2 del: tbl.simps)
    qed
    with False show ?thesis
      by (auto simp: get_physical_address_of_virtual_address_def Let_def)
  qed
qed

section \<open>The whole of map\_page\<close>

lemma map_page_full:
  assumes "pt_wf s" and "card (used s) + 3 \<le> NFRAMES" and "canonical va" and "\<not> direct va"
    and "frame_ok f" and "flag < 0x400" and "bit flag 1"
  shows "\<exists>m tx. let s' = s\<lparr>mem := m, out := tx\<rparr> in map_page va f flag s = Some s' \<and> pt_wf s' \<and>
    used s \<subseteq> used s' \<and> card (used s') \<le> card (used s) + 3 \<and> (\<forall>x. \<not> in_pool s x \<longrightarrow> m x = mem s x) \<and>
    tables_grow s s' \<and>
    (\<forall>v. sv48 s' v =
       (if drop_bit 12 v = drop_bit 12 va then Some (f OR take_bit 12 v, (1 OR ucast flag) AND 0x1F)
        else sv48 s v))"
proof -
  let ?e = "createValidPageTableEntry (frame_get_ppn f) OR ucast flag"
  obtain m tx t where st: "pt_wf (s\<lparr>mem := m, out := tx\<rparr>)" "sv48 (s\<lparr>mem := m, out := tx\<rparr>) = sv48 s"
    "tbl m (first_level_table s) 3 va = Some t" "used s \<subseteq> used (s\<lparr>mem := m, out := tx\<rparr>)" "card (used (s\<lparr>mem := m, out := tx\<rparr>)) \<le> card (used s) + 3"
    "\<And>x. \<not> in_pool s x \<Longrightarrow> m x = mem s x" "tables_grow s (s\<lparr>mem := m\<rparr>)"
    "map_page va f flag s = Some (s\<lparr>mem := m, out := tx\<rparr>\<lparr>mem := st64 m (t + 8 * vpn 0 va) ?e\<rparr>)"
    using map_page_steps [OF assms(1,2,4), of f flag] by (auto simp: Let_def)
  have "unat (ucast flag :: u64) = unat flag"
    using unsigned_less [of flag, where ?'a = nat]
    by (simp add: unsigned_ucast_eq take_bit_nat_eq_self)
  then have fl: "(ucast flag :: u64) < 0x400"
    using assms(6) by (simp add: word_less_nat_alt)
  have e: "\<not> pte_fault ?e" "bit ?e 1"
    using assms(7) create_entry_reserved [OF fl] by (simp_all add: pte_fault_def bit_simps create_entry_bits)
  have leaf: "sv48_leaf 0 ?e v = Some (f OR take_bit 12 v, (1 OR ucast flag) AND 0x1F)" for v
  proof -
    have "?e AND mask 5 = (1 OR ucast flag) AND mask 5"
      by (rule bit_word_eqI) (auto simp: bit_simps create_entry_bits)
    then show ?thesis
      using pte_pa_create [OF assms(5) fl] by (simp add: sv48_leaf_0 mask_eq_exp_minus_1)
  qed
  have can: "canonical v \<longleftrightarrow> canonical va" if "drop_bit 12 v = drop_bit 12 va" for v
  proof -
    have "drop_bit 35 (drop_bit 12 v) = drop_bit 35 (drop_bit 12 va)"
      using that by simp
    then show ?thesis by (simp add: canonical_def)
  qed
  let ?s' = "s\<lparr>mem := m, out := tx\<rparr>\<lparr>mem := st64 m (t + 8 * vpn 0 va) ?e\<rparr>"
  have sv: "sv48 ?s' v = (if canonical v \<and> agree 4 va v then sv48_leaf 0 ?e v else sv48 s v)" for v
    using sv48_leaf_store [OF st(1), of va t ?e v] st(2,3) e by (simp add: out_mem_swap)
  have "sv48 ?s' v =
      (if drop_bit 12 v = drop_bit 12 va then Some (f OR take_bit 12 v, (1 OR ucast flag) AND 0x1F)
       else sv48 s v)" for v
    unfolding sv leaf using assms(3) same_page_iff [of va v] can [of v] by auto
  moreover have "used ?s' = used (s\<lparr>mem := m, out := tx\<rparr>)"
    using store_layout(1) [OF st(1), of 3 va t ?e] st(3) by simp
  moreover have "st64 m (t + 8 * vpn 0 va) ?e x = m x" if "\<not> in_pool s x" for x
  proof -
    obtain i where "i \<in> used (s\<lparr>mem := m, out := tx\<rparr>)" "t = page_of (s\<lparr>mem := m, out := tx\<rparr>) i"
      using pt_wf_table [OF st(1), of 3 va t] st(3) by auto
    then have "t = page_of s i" "i < NFRAMES"
      by (simp_all add: state_simps used_bound)
    with that assms(1) show ?thesis
      using entry_in_pool [of s i "vpn 0 va" x] by (simp add: st64_out unat_vpn pt_wf_def)
  qed
  moreover have "tables_grow s ?s'"
    using tables_grow_trans [OF st(7)] tables_grow_leaf [OF st(1), of va t ?e] st(3) by (simp add: out_mem_swap)
  moreover have "pt_wf ?s'"
    using pt_wf_leaf [OF st(1), of va t ?e] st(3) e by simp
  ultimately show ?thesis
    using st(4-8) unfolding Let_def
    by (intro exI [of _ "st64 m (t + 8 * vpn 0 va) ?e"] exI [of _ tx]) (simp add: out_mem_swap)
qed

text \<open>Where the tables down to the last level exist, mapping a page needs no further frame.\<close>

lemma map_page_covered:
  assumes "pt_wf s" and "tbl (mem s) (first_level_table s) 3 va = Some t" and "map_page va f flag s = Some s'"
  shows "used s' = used s"
proof -
  let ?r = "first_level_table s"
  define s0 where "s0 = log PAGING ''Mapping virtual page 0x%x to physical frame 0x%x with flags 0x%x''
               [VInt va, VInt f, VInt (ucast flag)] s"
  have s0: "mem s0 = mem s" "first_level_table s0 = ?r" by (simp_all add: s0_def)
  define t1 where "t1 = pte_pa (ld64 (mem s) (?r + 8 * vpn 3 va)) + VIRTUAL_OFFSET"
  define t2 where "t2 = pte_pa (ld64 (mem s) (t1 + 8 * vpn 2 va)) + VIRTUAL_OFFSET"
  have t: "table_entry (ld64 (mem s) (?r + 8 * vpn 3 va))" "table_entry (ld64 (mem s) (t1 + 8 * vpn 2 va))"
    "table_entry (ld64 (mem s) (t2 + 8 * vpn 1 va))" "t = pte_pa (ld64 (mem s) (t2 + 8 * vpn 1 va)) + VIRTUAL_OFFSET"
    using assms(2) unfolding t1_def t2_def by (auto simp: numeral_3_eq_3 numeral_2_eq_2 split: if_splits)
  have "s' = s0\<lparr>mem := st64 (mem s) (t + 8 * vpn 0 va) (createValidPageTableEntry (frame_get_ppn f) OR ucast flag)\<rparr>"
    using assms(3) t(1-3) unfolding map_page_def s0_def [symmetric] Let_def
    by (simp add: ensure_entry_def isEntryValid_iff getPhysicalFrame_eq table_entry_valid setEntry_def
        s0 t(4) flip: t1_def t2_def)
  then have "used s' = used (s\<lparr>mem := st64 (mem s) (t + 8 * vpn 0 va) (createValidPageTableEntry (frame_get_ppn f) OR ucast flag)\<rparr>)"
    by (simp add: s0_def log_eq state_simps used_def flag_addr_def)
  then show ?thesis using store_layout(1) [OF assms(1,2)] by simp
qed

lemma mapped_covered:
  assumes "pt_wf s" and "sv48 s va = Some x" and "\<not> direct va"
  obtains t where "tbl (mem s) (first_level_table s) 3 va = Some t"
proof -
  let ?r = "first_level_table s"
  have w: "pwalk (mem s) 3 ?r va = Some x" using assms(2) by (simp add: sv48_def split: if_splits)
  have "n \<le> 3 \<Longrightarrow> \<exists>t. tbl (mem s) ?r n va = Some t" for n
  proof (induction n)
    case (Suc n)
    then obtain t where t: "tbl (mem s) ?r n va = Some t" by auto
    have n: "n \<le> 3" "n < 3" using Suc.prems by simp_all
    have "pwalk (mem s) (3 - n) t va = Some x" using pwalk_tbl [OF t n(1)] w by simp
    then have "\<not> pte_fault (entry (mem s) t n va)"
      by (subst (asm) pwalk_step) (simp add: Let_def split: if_splits)
    then have "bit (entry (mem s) t n va) 0" by (simp add: pte_fault_def)
    moreover have "entry_ok n va (entry (mem s) t n va)" using assms(1) t n(1) by (simp add: pt_wf_def entries_ok_def)
    ultimately have "table_entry (entry (mem s) t n va)" using assms(3) n(2) by (simp add: entry_ok_def)
    then show ?case using t by simp
  qed simp
  then show ?thesis using that by blast
qed

section \<open>Properties\<close>

text \<open>
  C8: \<^verbatim>\<open>map_page\<close>. In a well-formed address space with three free frames left for
  tables, mapping a canonical page outside the direct map to a page-aligned frame below
  \<open>2 ^ 52\<close> with a readable flag set returns, keeps the address space well formed, makes the
  hardware translate every address of that page to the frame plus the offset with those flags,
  and leaves the translation of every other address, mapped or not, as it was.
\<close>

theorem map_page_correct:
  assumes "pt_wf s" and "card (used s) + 3 \<le> NFRAMES" and "canonical va" and "\<not> direct va"
    and "frame_ok f" and "flag < 0x400" and "bit flag 1"
  shows "\<exists>s'. map_page va f flag s = Some s' \<and> pt_wf s' \<and>
    (\<forall>v. sv48 s' v =
       (if drop_bit 12 v = drop_bit 12 va then Some (f OR take_bit 12 v, (1 OR ucast flag) AND 0x1F)
        else sv48 s v))"
  using map_page_full [OF assms] by (auto simp: Let_def)


end
