(* ===== verification/Paging_Init.thy ===== *)
theory Paging_Init
  imports Paging
begin

text \<open>
  What \<^verbatim>\<open>paging_init\<close> builds: two tables, the root with one entry (index 256) for the
  second, and the second with four readable, writable and executable gigapages. The lemmas show
  that this is a well-formed address space in the sense of theory \<open>Paging\<close>, that the
  hardware maps \<open>VIRTUAL_OFFSET + p\<close> to \<open>p\<close> for all of the first 4 GiB and nothing
  else, and that \<^verbatim>\<open>satp\<close> names the root.
\<close>

section \<open>The memory the loop leaves\<close>

definition giga_entry :: "u64 \<Rightarrow> u64" where
  "giga_entry x = createValidPageTableEntry (frame_get_ppn (push_bit 30 x)) OR 0xF"

lemma map_page_for_setup_eq:
  "mem (map_page_for_setup f t page frame s) =
     st64 (st64 (mem s) (f + 8 * vpn 3 page) (createValidPageTableEntry (table_get_ppn t)))
       (t + 8 * vpn 2 page) (createValidPageTableEntry (frame_get_ppn frame) OR 0xF)"
  by (simp add: map_page_for_setup_def Let_def setEntry_def)

definition boot_step :: "u64 \<Rightarrow> u64 \<Rightarrow> u64 \<Rightarrow> mem \<Rightarrow> mem" where
  "boot_step f t x m = st64 (st64 m (f + 8 * 256) (createValidPageTableEntry (table_get_ppn t)))
     (t + 8 * x) (giga_entry x)"

definition boot_mem :: "u64 \<Rightarrow> u64 \<Rightarrow> mem \<Rightarrow> mem" where
  "boot_mem f t m = boot_step f t 3 (boot_step f t 2 (boot_step f t 1 (boot_step f t 0 m)))"

lemma setup_loop_eq: "mem (setup_loop f t VIRTUAL_OFFSET s) = boot_mem f t (mem s)"
  by (simp add: setup_loop.simps VIRTUAL_OFFSET_def map_page_for_setup_eq vpn_def giga_entry_def
      boot_mem_def boot_step_def)

lemma setEntry_frame [simp]:
  "first_level_table (setEntry t i e s) = first_level_table s" "satp (setEntry t i e s) = satp s"
  "managed_frames_address_start (setEntry t i e p) = managed_frames_address_start p"
  "first_frame_address (setEntry t i e p) = first_frame_address p"
  by (simp_all add: setEntry_def)

lemma map_page_for_setup_frame [simp]:
  "first_level_table (map_page_for_setup f t page frame s) = first_level_table s"
  "satp (map_page_for_setup f t page frame s) = satp s"
  "managed_frames_address_start (map_page_for_setup f t page frame p) = managed_frames_address_start p"
  "first_frame_address (map_page_for_setup f t page frame p) = first_frame_address p"
  by (simp_all add: map_page_for_setup_def Let_def)

lemma setup_loop_frame [simp]:
  "first_level_table (setup_loop f t p (s :: 'a paging_scheme)) = first_level_table s"
  "satp (setup_loop f t p s) = satp s"
  by (induction f t p s rule: setup_loop.induct; subst setup_loop.simps; simp)+

lemma setup_loop_frame_phys [simp]:
  "managed_frames_address_start (setup_loop f t p (s :: 'a phys_scheme)) = managed_frames_address_start s"
  "first_frame_address (setup_loop f t p s) = first_frame_address s"
  by (induction f t p s rule: setup_loop.induct; subst setup_loop.simps; simp)+

lemma ld64_entry_upd:
  assumes "phys_layout s" and "i < NFRAMES" "j < NFRAMES" and "unat x < 512" "unat y < 512"
  shows "ld64 (st64 m (page_of s i + 8 * x) e) (page_of s j + 8 * y) =
    (if i = j \<and> x = y then e else ld64 m (page_of s j + 8 * y))"
  using entries_disj [OF assms] by (auto simp: ld64_st64 ld64_st64_disj)

lemma word_less_4: "(x :: u64) < 4 \<longleftrightarrow> x = 0 \<or> x = 1 \<or> x = 2 \<or> x = 3"
proof -
  have "unat x < 4 \<longleftrightarrow> unat x = 0 \<or> unat x = 1 \<or> unat x = 2 \<or> unat x = 3" by auto
  then show ?thesis by (simp add: word_less_nat_alt word_unat_eq_iff)
qed

text \<open>Two zeroed frames in use, as \<^verbatim>\<open>paging_init\<close> gets them.\<close>

definition boot_frames :: "'a paging_scheme \<Rightarrow> nat \<Rightarrow> nat \<Rightarrow> bool" where
  "boot_frames s i j \<longleftrightarrow> phys_layout s \<and> frames_zero s \<and> i \<in> used s \<and> j \<in> used s \<and> i \<noteq> j \<and>
     (\<forall>x. unat (x - page_of s i) < 4096 \<or> unat (x - page_of s j) < 4096 \<longrightarrow> mem s x = 0)"

lemma boot_step_entries:
  assumes "phys_layout s" and "i < NFRAMES" "j < NFRAMES" "i \<noteq> j" and "unat x < 512" "unat y < 512"
  shows "ld64 (boot_step (page_of s i) (page_of s j) x m) (page_of s i + 8 * y) =
      (if y = 256 then createValidPageTableEntry (table_get_ppn (page_of s j))
       else ld64 m (page_of s i + 8 * y))"
    and "ld64 (boot_step (page_of s i) (page_of s j) x m) (page_of s j + 8 * y) =
      (if y = x then giga_entry x else ld64 m (page_of s j + 8 * y))"
  using assms ld64_entry_upd [of s i i 256 y] ld64_entry_upd [of s i j 256 y]
  by (auto simp: boot_step_def ld64_entry_upd)

lemma boot_entries:
  assumes "boot_frames s i j" and "unat y < 512"
  shows "ld64 (boot_mem (page_of s i) (page_of s j) (mem s)) (page_of s i + 8 * y) =
      (if y = 256 then createValidPageTableEntry (table_get_ppn (page_of s j)) else 0)"
    and "ld64 (boot_mem (page_of s i) (page_of s j) (mem s)) (page_of s j + 8 * y) =
      (if y < 4 then giga_entry y else 0)"
proof -
  have ij: "phys_layout s" "i < NFRAMES" "j < NFRAMES" "i \<noteq> j"
    using assms(1) by (auto simp: boot_frames_def used_bound)
  have "ld64 (mem s) (page_of s i + 8 * y) = 0" "ld64 (mem s) (page_of s j + 8 * y) = 0"
    using assms by (auto simp: boot_frames_def intro!: ld64_page_zero)
  moreover have "unat (0 :: u64) < 512" "unat (1 :: u64) < 512" "unat (2 :: u64) < 512" "unat (3 :: u64) < 512"
    by simp_all
  note st = this [THEN boot_step_entries(1) [OF ij _ assms(2)]] this [THEN boot_step_entries(2) [OF ij _ assms(2)]]
  ultimately show "ld64 (boot_mem (page_of s i) (page_of s j) (mem s)) (page_of s i + 8 * y) =
      (if y = 256 then createValidPageTableEntry (table_get_ppn (page_of s j)) else 0)"
    "ld64 (boot_mem (page_of s i) (page_of s j) (mem s)) (page_of s j + 8 * y) =
      (if y < 4 then giga_entry y else 0)"
    unfolding boot_mem_def st word_less_4 by auto
qed

lemma pte_pa_second:
  assumes "phys_layout s" and "j < NFRAMES"
  shows "pte_pa (createValidPageTableEntry (table_get_ppn (page_of s j))) + VIRTUAL_OFFSET = page_of s j"
proof -
  have f: "frame_ok (frame_addr s j)" by (rule frame_ok_frame_addr [OF assms])
  have "table_get_ppn (page_of s j) = drop_bit 12 (frame_addr s j) AND mask 44"
    by (simp add: table_get_ppn_def page_of_def mask_eq_exp_minus_1)
  also have "\<dots> = frame_get_ppn (frame_addr s j)"
    using frame_ok_bits [OF f] by (intro bit_word_eqI) (force simp: frame_get_ppn_def bit_simps)
  finally show ?thesis
    using pte_pa_create [OF f, of 0] by (simp add: page_of_def)
qed

lemma giga_entry_leaf:
  assumes "x < 4"
  shows "\<not> pte_fault (giga_entry x)" "bit (giga_entry x) 1" "pte_pa (giga_entry x) = push_bit 30 x"
    "giga_entry x AND 0x1F = 0xF" "bit (giga_entry x) 0"
proof -
  consider "x = 0" | "x = 1" | "x = 2" | "x = 3"
    using assms by (auto simp: word_less_4)
  then have "\<not> pte_fault (giga_entry x) \<and> bit (giga_entry x) 1 \<and>
      pte_pa (giga_entry x) = push_bit 30 x \<and> giga_entry x AND 0x1F = 0xF \<and> bit (giga_entry x) 0"
    by cases (simp_all add: giga_entry_def createValidPageTableEntry_def frame_get_ppn_def
        pte_fault_def pte_pa_def)
  then show "\<not> pte_fault (giga_entry x)" "bit (giga_entry x) 1"
    "pte_pa (giga_entry x) = push_bit 30 x" "giga_entry x AND 0x1F = 0xF" "bit (giga_entry x) 0"
    by auto
qed

section \<open>The tables\<close>

lemma boot_tbl:
  assumes "boot_frames s i j"
  defines "m \<equiv> boot_mem (page_of s i) (page_of s j) (mem s)"
  shows "tbl m (page_of s i) (Suc 0) va = (if vpn 3 va = 256 then Some (page_of s j) else None)"
    and "tbl m (page_of s i) (Suc (Suc n)) va = None"
proof -
  have j: "phys_layout s" "j < NFRAMES"
    using assms(1) by (auto simp: boot_frames_def used_bound)
  show 1: "tbl m (page_of s i) (Suc 0) va = (if vpn 3 va = 256 then Some (page_of s j) else None)" for va
    using boot_entries(1) [OF assms(1) unat_vpn, of 3 va] pte_pa_second [OF j]
    by (cases "vpn 3 va = 256") (simp_all add: m_def)
  have "\<not> table_entry (entry m (page_of s j) (Suc 0) va)" for va
    using giga_entry_leaf [of "vpn 2 va"]
    by (auto simp: m_def boot_entries [OF assms(1)] unat_vpn table_entry_def)
  then have "tbl m (page_of s i) (Suc (Suc 0)) va = None"
    by (subst tbl.simps(2)) (simp add: 1 del: tbl.simps)
  then show "tbl m (page_of s i) (Suc (Suc n)) va = None"
    by (induction n) simp_all
qed

lemma boot_tbl_cases:
  assumes "boot_frames s i j"
    and "tbl (boot_mem (page_of s i) (page_of s j) (mem s)) (page_of s i) n va = Some t"
  shows "n = 0 \<and> t = page_of s i \<or> n = 1 \<and> t = page_of s j \<and> vpn 3 va = 256"
proof (cases n)
  case 0
  with assms(2) show ?thesis by simp
next
  case (Suc k)
  then show ?thesis
    using assms(2) boot_tbl [OF assms(1)] by (cases k) (auto split: if_splits simp del: tbl.simps)
qed

lemma boot_used:
  assumes "boot_frames s i j"
  defines "m \<equiv> boot_mem (page_of s i) (page_of s j) (mem s)"
  shows "used (s\<lparr>mem := m\<rparr>) = used s" and "frames_zero (s\<lparr>mem := m\<rparr>)"
proof -
  have st: "boot_frames s i j \<Longrightarrow> phys_layout s \<and> frames_zero s \<and> i \<in> used s \<and> j \<in> used s"
    by (simp add: boot_frames_def)
  have step: "used (s\<lparr>mem := boot_step (page_of s i) (page_of s j) x m1\<rparr>) = used s \<and>
      frames_zero (s\<lparr>mem := boot_step (page_of s i) (page_of s j) x m1\<rparr>)"
    if "used (s\<lparr>mem := m1\<rparr>) = used s" "frames_zero (s\<lparr>mem := m1\<rparr>)" "x < 4" for x m1
  proof -
    have u: "unat x < 512" "unat (256 :: u64) < 512" using that(3) by (auto simp: word_less_4)
    let ?m2 = "st64 m1 (page_of s i + 8 * 256) (createValidPageTableEntry (table_get_ppn (page_of s j)))"
    have 2: "used (s\<lparr>mem := ?m2\<rparr>) = used s" "frames_zero (s\<lparr>mem := ?m2\<rparr>)"
      using that st [OF assms(1)] u(2)
        used_entry_store [of "s\<lparr>mem := m1\<rparr>" i 256] frames_zero_store [of "s\<lparr>mem := m1\<rparr>" i 256]
      by (simp_all add: state_simps used_bound [of i s])
    then show ?thesis
      using st [OF assms(1)] u(1)
        used_entry_store [of "s\<lparr>mem := ?m2\<rparr>" j x] frames_zero_store [of "s\<lparr>mem := ?m2\<rparr>" j x]
      by (simp add: state_simps used_bound [of j s] boot_step_def)
  qed
  have "used (s\<lparr>mem := m\<rparr>) = used s \<and> frames_zero (s\<lparr>mem := m\<rparr>)"
    unfolding m_def boot_mem_def
    using st [OF assms(1)] by (intro step conjI) (simp_all add: step)
  then show "used (s\<lparr>mem := m\<rparr>) = used s" "frames_zero (s\<lparr>mem := m\<rparr>)" by auto
qed

lemma boot_mem_out:
  assumes "boot_frames s i j" and "\<not> in_pool s x"
  shows "boot_mem (page_of s i) (page_of s j) m x = m x"
proof -
  have f: "phys_layout s" "i < NFRAMES" "j < NFRAMES" using assms(1) by (auto simp: boot_frames_def intro: used_bound)
  have "boot_step (page_of s i) (page_of s j) y m' x = m' x" if "unat y < 512" for y m'
    unfolding boot_step_def using entry_in_pool [OF f(1,2) _ assms(2), of 256] entry_in_pool [OF f(1,3) that assms(2)]
    by (simp add: st64_out)
  then show ?thesis by (simp add: boot_mem_def)
qed

lemma boot_pt_wf:
  assumes b: "boot_frames s i j" and r: "first_level_table s = page_of s i"
  shows "pt_wf (s\<lparr>mem := boot_mem (page_of s i) (page_of s j) (mem s)\<rparr>)"
proof -
  let ?m = "boot_mem (page_of s i) (page_of s j) (mem s)"
  note tc = boot_tbl_cases [OF b] and en = boot_entries [OF b unat_vpn]
  have ne: "page_of s i \<noteq> page_of s j"
    using b by (auto simp: boot_frames_def page_of_inj used_bound [of _ s])
  have "tables_used (s\<lparr>mem := ?m\<rparr>)"
    unfolding tables_used_def boot_used(1) [OF b]
    using b r tc by (fastforce simp: boot_frames_def state_simps)
  moreover have "tables_inj ?m (page_of s i)"
    unfolding tables_inj_def
  proof (intro allI impI)
    fix n n' va va' t
    assume "n \<le> 3 \<and> n' \<le> 3 \<and> tbl ?m (page_of s i) n va = Some t \<and> tbl ?m (page_of s i) n' va' = Some t"
    then show "n = n' \<and> agree n va va'"
      using tc [of n va t] tc [of n' va' t] ne by (auto simp: agree_def)
  qed
  moreover have "entries_ok ?m (page_of s i)"
    unfolding entries_ok_def
  proof (intro allI impI)
    fix n va t
    assume "n \<le> 3 \<and> tbl ?m (page_of s i) n va = Some t"
    then consider "n = 0" "t = page_of s i" | "n = 1" "t = page_of s j" "vpn 3 va = 256"
      using tc [of n va t] by auto
    then show "entry_ok n va (entry ?m t n va)"
      using en(1) [of 3 va] en(2) [of 2 va] by cases (auto simp: entry_ok_def direct_def)
  qed
  ultimately show ?thesis
    using b r boot_used(2) [OF b] by (simp add: pt_wf_def boot_frames_def state_simps)
qed

section \<open>The translation\<close>

lemma boot_walk:
  assumes b: "boot_frames s i j" and r: "first_level_table s = page_of s i"
  shows "sv48 (s\<lparr>mem := boot_mem (page_of s i) (page_of s j) (mem s)\<rparr>) va =
    (if canonical va \<and> direct va then Some (push_bit 30 (vpn 2 va) OR take_bit 30 va, 0xF) else None)"
proof (cases "vpn 3 va = 256")
  case False
  then show ?thesis
    using boot_entries(1) [OF b unat_vpn, of 3 va] r
      pwalk_step [of "boot_mem (page_of s i) (page_of s j) (mem s)" 3 "page_of s i" va]
    by (simp add: sv48_def direct_def)
next
  case True
  let ?m = "boot_mem (page_of s i) (page_of s j) (mem s)"
  have "tbl ?m (page_of s i) 1 va = Some (page_of s j)"
    using boot_tbl(1) [OF b, of va] True by (simp del: tbl.simps)
  from pwalk_tbl [OF this] have w: "pwalk ?m 3 (page_of s i) va = pwalk ?m 2 (page_of s j) va" by simp
  have "take_bit 30 (push_bit 30 x) = (0 :: u64)" for x :: u64
    by (rule bit_word_eqI) (simp add: bit_simps)
  with True show ?thesis
    using boot_entries(2) [OF b unat_vpn, of 2 va] r w pwalk_step [of ?m 2 "page_of s j" va]
      giga_entry_leaf [of "vpn 2 va"]
    by (auto simp: sv48_def direct_def sv48_leaf_def Let_def)
qed

lemma direct_map_address:
  assumes "p < 0x100000000"
  defines "va \<equiv> VIRTUAL_OFFSET + p"
  shows "canonical va" "direct va" "push_bit 30 (vpn 2 va) OR take_bit 30 va = p"
proof -
  have p: "bit p n \<Longrightarrow> n < 32" for n
    using assms(1) small_bits [of p 32 n] by (simp add: word_less_nat_alt)
  have vo: "bit VIRTUAL_OFFSET n \<longleftrightarrow> 47 \<le> n \<and> n < 64" for n
  proof -
    have "VIRTUAL_OFFSET = push_bit 47 (mask 17)"
      by (simp add: VIRTUAL_OFFSET_def mask_eq_exp_minus_1)
    then have "bit VIRTUAL_OFFSET n = bit (push_bit 47 (mask 17) :: u64) n" by (rule arg_cong)
    then show ?thesis by (auto simp: bit_push_bit_iff bit_mask_iff)
  qed
  have "VIRTUAL_OFFSET AND p = 0"
    by (rule bit_word_eqI) (auto simp: bit_simps vo dest: p)
  then have or: "va = VIRTUAL_OFFSET OR p"
    unfolding va_def by (rule disjunctive_add_eq_or)
  have "drop_bit 47 va = mask 17"
    unfolding or by (rule bit_word_eqI) (auto simp: bit_simps vo dest: p)
  then show "canonical va" by (simp add: canonical_def)
  have v3: "vpn 3 va = 256"
  proof -
    have "drop_bit 39 p = 0"
      by (rule bit_word_eqI) (auto simp: bit_simps dest: p)
    then show ?thesis
      unfolding vpn_def or by (simp add: drop_bit_or VIRTUAL_OFFSET_def)
  qed
  have v2: "vpn 2 va = drop_bit 30 p"
    unfolding vpn_def and_511 or by (rule bit_word_eqI) (auto simp: bit_simps vo dest: p)
  have "unat (drop_bit 30 p) < 4"
    using assms(1) by (simp add: drop_bit_eq_div unat_div word_less_nat_alt less_mult_imp_div_less)
  with v2 v3 show "direct va" by (simp add: direct_def word_less_nat_alt)
  show "push_bit 30 (vpn 2 va) OR take_bit 30 va = p"
  proof (rule bit_word_eqI)
    fix n
    have "take_bit 30 va = take_bit 30 p"
      unfolding or by (rule bit_word_eqI) (auto simp: bit_simps vo)
    then show "bit (push_bit 30 (vpn 2 va) OR take_bit 30 va) n = bit p n"
      by (cases "n < 30") (auto simp: v2 bit_simps dest: bit_imp_le_length)
  qed
qed

section \<open>paging\_init\<close>

lemma two_frames:
  assumes lay: "phys_layout s" and z: "frames_zero s" and "card (used s) + 2 \<le> NFRAMES"
  shows "\<exists>i j x y m. kalloc_frame s = Some (frame_addr s i, s\<lparr>mem := (mem s)(flag_addr s i := 1), out := x\<rparr>) \<and>
    kalloc_frame (s\<lparr>mem := (mem s)(flag_addr s i := 1), out := x\<rparr>) =
      Some (frame_addr s j, s\<lparr>mem := m, out := y\<rparr>) \<and> boot_frames (s\<lparr>mem := m, out := y\<rparr>) i j \<and>
    used (s\<lparr>mem := m, out := y\<rparr>) = insert j (insert i (used s)) \<and>
    ((\<exists>K. used s = {..<K}) \<longrightarrow> (\<exists>K. insert j (insert i (used s)) = {..<K})) \<and>
    (\<forall>v. \<not> in_pool s v \<longrightarrow> m v = mem s v)"
proof -
  obtain i where i: "is_first_free s i"
    using first_free_exists [OF not_full, of s] assms(3) by auto
  let ?s1 = "s\<lparr>mem := (mem s)(flag_addr s i := 1)\<rparr>"
  have u1: "used ?s1 = insert i (used s)" and ib: "i < NFRAMES" "i \<notin> used s"
    using used_alloc [OF i] first_free_unused [OF i] by auto
  obtain x where k1: "kalloc_frame s = Some (frame_addr s i, ?s1\<lparr>out := x\<rparr>)"
    using kalloc_frame_eq [OF i] by blast
  let ?t1 = "?s1\<lparr>out := x\<rparr>"
  have "card (used ?t1) < NFRAMES"
    using u1 assms(3) ib by (simp add: state_simps)
  then obtain j where j: "is_first_free ?t1 j"
    using first_free_exists [OF not_full] by blast
  let ?m = "(mem ?s1)(flag_addr s j := 1)"
  obtain y where k2: "kalloc_frame ?t1 = Some (frame_addr s j, s\<lparr>mem := ?m, out := y\<rparr>)"
    using kalloc_frame_eq [OF j] by (auto simp: state_simps out_mem_swap)
  have jb: "j < NFRAMES" "j \<notin> used ?t1" using first_free_unused [OF j] by auto
  have j1: "is_first_free ?s1 j"
    using j by (simp add: is_first_free_def state_simps)
  note z1 = frames_zero_alloc [OF lay z i]
  have u: "frames_zero (?s1\<lparr>mem := ?m\<rparr>)" "used (?s1\<lparr>mem := ?m\<rparr>) = insert j (insert i (used s))"
    using frames_zero_alloc [OF _ z1 j1] used_alloc [OF j1] lay u1 by (simp_all add: state_simps)
  have "?m v = 0" if "unat (v - page_of s i) < 4096 \<or> unat (v - page_of s j) < 4096" for v
    using that z ib jb u1 flag_outside_page [OF lay ib(1) ib(1)] flag_outside_page [OF lay ib(1) jb(1)]
      flag_outside_page [OF lay jb(1) ib(1)] flag_outside_page [OF lay jb(1) jb(1)]
    by (auto simp: frames_zero_def state_simps)
  then have "boot_frames (s\<lparr>mem := ?m, out := y\<rparr>) i j"
    using u lay jb u1 by (auto simp: boot_frames_def state_simps simp del: fun_upd_apply)
  moreover have "used (s\<lparr>mem := ?m, out := y\<rparr>) = insert j (insert i (used s))"
    using u by (simp add: state_simps)
  moreover have "\<exists>K'. insert j (insert i (used s)) = {..<K'}" if "used s = {..<K}" for K
    using first_free_segment(2) [OF j1, of "Suc K"] first_free_segment(2) [OF i that] u1 by auto
  moreover have "?m v = mem s v" if "\<not> in_pool s v" for v
    using that flag_in_pool [OF ib(1), of s] flag_in_pool [OF jb(1), of s] by auto
  ultimately show ?thesis using k1 k2 by blast
qed

definition root_of_satp :: "u64 \<Rightarrow> u64" where
  "root_of_satp x = push_bit 12 (x AND mask 44)"

lemma root_of_satp_switch:
  assumes "frame_ok f"
  shows "root_of_satp (frame_get_ppn f OR push_bit 60 9) = f" "drop_bit 60 (frame_get_ppn f OR push_bit 60 9) = 9"
proof -
  have hi: "bit f (12 + n) \<Longrightarrow> n < 40" for n
    using frame_ok_bits [OF assms, of "12 + n"] by simp
  have "(frame_get_ppn f OR push_bit 60 c) AND mask 44 = frame_get_ppn f" for c
    by (rule bit_word_eqI) (auto simp: frame_get_ppn_def bit_simps dest: hi)
  moreover have "push_bit 12 (frame_get_ppn f) = f"
  proof (rule bit_word_eqI)
    fix n
    show "bit (push_bit 12 (frame_get_ppn f)) n = bit f n"
      using frame_ok_bits [OF assms, of n]
      by (cases "12 \<le> n") (auto simp: frame_get_ppn_def bit_simps dest: bit_imp_le_length)
  qed
  ultimately show "root_of_satp (frame_get_ppn f OR push_bit 60 9) = f"
    by (simp only: root_of_satp_def)
  have "drop_bit 60 (frame_get_ppn f) = 0"
    by (rule bit_word_eqI) (auto simp: frame_get_ppn_def bit_simps dest: hi)
  then show "drop_bit 60 (frame_get_ppn f OR push_bit 60 9) = 9"
    by (simp add: drop_bit_or)
qed

lemma boot_frames_cong:
  "boot_frames s i j \<Longrightarrow> mem s' = mem s \<Longrightarrow>
     managed_frames_address_start s' = managed_frames_address_start s \<Longrightarrow>
     first_frame_address s' = first_frame_address s \<Longrightarrow> boot_frames s' i j"
  by (simp add: boot_frames_def phys_layout_def phys_base_def frames_zero_def used_def flag_addr_def
      page_of_def frame_addr_def)

lemma paging_init_boot:
  fixes s :: "'a paging_scheme"
  assumes "phys_layout s" and "frames_zero s" and "card (used s) + 2 \<le> NFRAMES"
  shows "\<exists>s' (t :: 'a paging_scheme) i j. paging_init s = Some s' \<and> boot_frames t i j \<and> first_level_table t = page_of t i \<and>
    first_level_table s' = first_level_table t \<and> mem s' = boot_mem (page_of t i) (page_of t j) (mem t) \<and>
    managed_frames_address_start s' = managed_frames_address_start t \<and>
    first_frame_address s' = first_frame_address t \<and>
    satp s' = frame_get_ppn (frame_addr t i) OR push_bit 60 9 \<and> card (used t) \<le> card (used s) + 2 \<and>
    ((\<exists>K. used s = {..<K}) \<longrightarrow> (\<exists>K. used t = {..<K})) \<and>
    managed_frames_address_start t = managed_frames_address_start s \<and> (\<forall>v. \<not> in_pool s v \<longrightarrow> mem t v = mem s v)"
proof -
  define s0 where "s0 = log PAGING ''Initialising paging'' [] s"
  have s0: "phys_layout s0" "frames_zero s0" "card (used s0) + 2 \<le> NFRAMES"
    using assms by (simp_all add: s0_def, simp_all add: log_eq state_simps)
  obtain i j x y m where k:
    "kalloc_frame s0 = Some (frame_addr s0 i, s0\<lparr>mem := (mem s0)(flag_addr s0 i := 1), out := x\<rparr>)"
    "kalloc_frame (s0\<lparr>mem := (mem s0)(flag_addr s0 i := 1), out := x\<rparr>) =
      Some (frame_addr s0 j, s0\<lparr>mem := m, out := y\<rparr>)" "boot_frames (s0\<lparr>mem := m, out := y\<rparr>) i j"
    "used (s0\<lparr>mem := m, out := y\<rparr>) = insert j (insert i (used s0))"
    "(\<exists>K. used s0 = {..<K}) \<longrightarrow> (\<exists>K. insert j (insert i (used s0)) = {..<K})"
    "\<forall>v. \<not> in_pool s0 v \<longrightarrow> m v = mem s0 v"
    using two_frames [OF s0] by blast
  define r where "r = frame_addr s0 i + VIRTUAL_OFFSET"
  define t where "t = s0\<lparr>mem := m, out := y, first_level_table := r\<rparr>"
  have b: "boot_frames t i j"
    using k(3) by (rule boot_frames_cong) (simp_all add: t_def)
  have ut: "used t = insert j (insert i (used s0))"
    using k(4) by (simp add: t_def used_def flag_addr_def)
  then have u: "card (used t) \<le> card (used s) + 2"
    by (simp add: s0_def card_insert_if)
  have seg: "(\<exists>K. used s = {..<K}) \<longrightarrow> (\<exists>K. used t = {..<K})"
    using k(5) unfolding ut by (simp add: s0_def)
  have pt: "page_of t n = frame_addr s0 n + VIRTUAL_OFFSET" "frame_addr t n = frame_addr s0 n" for n
    by (simp_all add: t_def page_of_def frame_addr_def)
  obtain s' where "paging_init s = Some s'"
    "first_level_table s' = r" "mem s' = boot_mem r (frame_addr s0 j + VIRTUAL_OFFSET) m"
    "managed_frames_address_start s' = managed_frames_address_start t"
    "first_frame_address s' = first_frame_address t"
    "satp s' = frame_get_ppn (frame_addr s0 i) OR push_bit 60 9"
    using k(1,2)
    by (simp add: paging_init_def Let_def switch_to_new_page_table_def setup_loop_eq t_def
        flip: s0_def r_def)
  moreover have "first_level_table t = r" "mem t = m"
    by (simp_all add: t_def)
  moreover have "r = page_of t i" "frame_addr s0 j + VIRTUAL_OFFSET = page_of t j"
    "frame_addr s0 i = frame_addr t i"
    by (simp_all add: pt r_def)
  moreover have "managed_frames_address_start t = managed_frames_address_start s" "\<forall>v. \<not> in_pool s v \<longrightarrow> mem t v = mem s v"
    using k(6) by (simp_all add: t_def s0_def log_eq state_simps)
  ultimately show ?thesis using b u seg by metis
qed

lemma pt_wf_cong:
  assumes "mem s' = mem s" "first_level_table s' = first_level_table s"
    "managed_frames_address_start s' = managed_frames_address_start s"
    "first_frame_address s' = first_frame_address s"
  shows "pt_wf s' = pt_wf s" "sv48 s' = sv48 s" "used s' = used s"
  using assms
  by (simp add: pt_wf_def phys_layout_def phys_base_def frames_zero_def used_def flag_addr_def
      page_of_def frame_addr_def tables_used_def, auto simp: sv48_def used_def flag_addr_def intro!: ext)

lemma paging_init_wf:
  fixes s :: "'a paging_scheme"
  assumes "phys_layout s" and "frames_zero s" and "card (used s) + 2 \<le> NFRAMES"
  shows "\<exists>s'. paging_init s = Some s' \<and> pt_wf s' \<and> card (used s') \<le> card (used s) + 2 \<and>
    ((\<exists>K. used s = {..<K}) \<longrightarrow> (\<exists>K. used s' = {..<K})) \<and>
    managed_frames_address_start s' = managed_frames_address_start s \<and> (\<forall>v. \<not> in_pool s v \<longrightarrow> mem s' v = mem s v) \<and>
    root_of_satp (satp s') = first_level_table s' - VIRTUAL_OFFSET \<and> drop_bit 60 (satp s') = 9 \<and>
    (\<forall>va. sv48 s' va = (if canonical va \<and> direct va
       then Some (push_bit 30 (vpn 2 va) OR take_bit 30 va, 0xF) else None))"
proof -
  obtain s' i j and t :: "'a paging_scheme" where t: "paging_init s = Some s'" "boot_frames t i j" "first_level_table t = page_of t i"
    "first_level_table s' = first_level_table t" "mem s' = boot_mem (page_of t i) (page_of t j) (mem t)"
    "managed_frames_address_start s' = managed_frames_address_start t"
    "first_frame_address s' = first_frame_address t"
    "satp s' = frame_get_ppn (frame_addr t i) OR push_bit 60 9" "card (used t) \<le> card (used s) + 2"
    "(\<exists>K. used s = {..<K}) \<longrightarrow> (\<exists>K. used t = {..<K})"
    "managed_frames_address_start t = managed_frames_address_start s" "\<forall>v. \<not> in_pool s v \<longrightarrow> mem t v = mem s v"
    using paging_init_boot [OF assms] by blast
  let ?t = "t\<lparr>mem := boot_mem (page_of t i) (page_of t j) (mem t)\<rparr>"
  have cong: "pt_wf s' = pt_wf ?t" "sv48 s' = sv48 ?t" "used s' = used ?t"
    by (rule pt_wf_cong; simp add: t)+
  have "frame_ok (frame_addr t i)"
    using t(2) by (auto simp: boot_frames_def used_bound intro: frame_ok_frame_addr)
  then have "root_of_satp (satp s') = first_level_table s' - VIRTUAL_OFFSET" "drop_bit 60 (satp s') = 9"
    unfolding t(3,4,8) by (simp_all only: root_of_satp_switch) (simp add: page_of_def)
  moreover have "mem s' v = mem s v" if "\<not> in_pool s v" for v
    using that t(5,11,12) boot_mem_out [OF t(2), of v "mem t"] by (simp add: in_pool_def)
  ultimately show ?thesis
    using t(1,6,9-11) boot_pt_wf [OF t(2,3)] boot_walk [OF t(2,3)] boot_used(1) [OF t(2)] by (auto simp: cong)
qed

section \<open>Properties\<close>


text \<open>
  C17: \<^verbatim>\<open>paging_init\<close>. With two frames free and the free frames zero, it returns a
  well-formed address space in which the hardware maps \<open>VIRTUAL_OFFSET + p\<close> to \<open>p\<close>,
  readable, writable and executable, for every \<open>p\<close> below 4 GiB, and nothing outside the
  direct map; \<^verbatim>\<open>satp\<close> selects Sv48 and the root table.
\<close>

theorem paging_init_direct_map:
  assumes "phys_layout s" and "frames_zero s" and "card (used s) + 2 \<le> NFRAMES"
  shows "\<exists>s'. paging_init s = Some s' \<and> pt_wf s' \<and>
    root_of_satp (satp s') = first_level_table s' - VIRTUAL_OFFSET \<and> drop_bit 60 (satp s') = 9 \<and>
    (\<forall>p < 0x100000000. sv48 s' (VIRTUAL_OFFSET + p) = Some (p, 0xF)) \<and>
    (\<forall>va. \<not> direct va \<longrightarrow> sv48 s' va = None)"
  using paging_init_wf [OF assms] direct_map_address by fastforce

definition sample_paging :: paging where
  "sample_paging = \<lparr>mem = \<lambda>_. 0, out = [], inp = [], logLevel = 0,
     managed_frames_address_start = 0xFFFF800080013000, first_frame_address = 0x8001B000,
     first_level_table = 0, satp = 0\<rparr>"

lemma sample_paging_ok: "phys_layout sample_paging" "frames_zero sample_paging" "used sample_paging = {}"
  by (simp_all add: sample_paging_def phys_layout_def phys_base_def VIRTUAL_OFFSET_def NFRAMES_def
      frames_zero_def used_def)

theorem paging_init_direct_map_witness:
  "\<exists>s'. paging_init sample_paging = Some s' \<and> pt_wf s' \<and>
     sv48 s' (VIRTUAL_OFFSET + 0x80000000) = Some (0x80000000, 0xF)"
proof -
  have "card (used sample_paging) + 2 \<le> NFRAMES"
    by (simp add: sample_paging_ok NFRAMES_def)
  from paging_init_direct_map [OF sample_paging_ok(1,2) this] show ?thesis by force
qed

text \<open>The address space \<^verbatim>\<open>paging_init\<close> builds from \<open>sample_paging\<close>.\<close>

lemma sample_space:
  obtains s where "paging_init sample_paging = Some s" "pt_wf s" "card (used s) + 3 \<le> NFRAMES"
    "sv48 s 0x400000 = None"
proof -
  have "card (used sample_paging) + 2 \<le> NFRAMES"
    by (simp add: sample_paging_ok NFRAMES_def)
  from paging_init_wf [OF sample_paging_ok(1,2) this] obtain s' where
    "paging_init sample_paging = Some s'" "pt_wf s'" "card (used s') \<le> 2" "sv48 s' 0x400000 = None"
    by (auto simp: sample_paging_ok direct_def vpn_def)
  then show ?thesis by (intro that) (simp_all add: NFRAMES_def)
qed

lemma user_page: "canonical 0x400000" "\<not> direct 0x400000" "frame_ok 0x80200000"
  by (simp_all add: canonical_def direct_def vpn_def frame_ok_def)

theorem map_page_correct_witness:
  "\<exists>s s'. paging_init sample_paging = Some s \<and> map_page 0x400000 0x80200000 0x1F s = Some s' \<and>
     sv48 s' 0x400123 = Some (0x80200123, 0x1F)"
proof -
  obtain s where s: "paging_init sample_paging = Some s" "pt_wf s" "card (used s) + 3 \<le> NFRAMES"
    by (rule sample_space)
  have "(0x1F :: u16) < 0x400" "bit (0x1F :: u16) 1" by simp_all
  from map_page_correct [OF s(2,3) user_page this] obtain s' where m:
    "map_page 0x400000 0x80200000 0x1F s = Some s'"
    "\<forall>v. sv48 s' v = (if drop_bit 12 v = drop_bit 12 0x400000
       then Some (0x80200000 OR take_bit 12 v, (1 OR ucast (0x1F :: u16)) AND 0x1F) else sv48 s v)"
    by blast
  from m(2) have "sv48 s' 0x400123 = Some (0x80200123, 0x1F)"
    by (simp only:) simp
  with s(1) m(1) show ?thesis by blast
qed


end
