(* ===== verification/Virt_Alloc.thy ===== *)
theory Virt_Alloc
  imports Paging_Init
begin

text \<open>
  The kernel heap: \<^verbatim>\<open>kernel/libk/list.cpp\<close> (class \<^verbatim>\<open>FreeSpace\<close>) and
  \<^verbatim>\<open>kernel/memory/virtual_allocator.cpp\<close> (\<^verbatim>\<open>kalloc\<close>, \<^verbatim>\<open>operator new\<close>,
  \<^verbatim>\<open>memset\<close>, \<^verbatim>\<open>memcpy\<close>).

  A \<^verbatim>\<open>FreeSpace *\<close> is an address; the object is two 64-bit words, \<^verbatim>\<open>status\<close>
  (the size shifted left by one and the last-item bit) and \<^verbatim>\<open>next\<close>. The heap grows upwards
  from \<^verbatim>\<open>VIRTUAL_HEAP_START\<close>, one freshly mapped frame at a time.

  The contract clients rely on is the locale \<open>bump_allocator\<close>; it is interpreted on
  \<open>kalloc\<close>, and gives that a sequence of allocations returns pairwise disjoint blocks whose
  contents later allocations leave alone.
\<close>

section \<open>FreeSpace\<close>

definition get_start_address :: "u64 \<Rightarrow> u64" where
  "get_start_address this = this"

definition get_size :: "u64 \<Rightarrow> mem \<Rightarrow> u64" where
  "get_size this m = drop_bit 1 (ld64 m this)"

definition set_size :: "u64 \<Rightarrow> u64 \<Rightarrow> 'a kio_scheme \<Rightarrow> 'a kio_scheme" where
  "set_size this sz s =
     s\<lparr>mem := st64 (mem s) this (push_bit 1 sz OR (ld64 (mem s) this AND 1))\<rparr>"

definition is_last :: "u64 \<Rightarrow> mem \<Rightarrow> bool" where
  "is_last this m \<longleftrightarrow> ld64 m this AND 1 = 1"

definition set_not_last :: "u64 \<Rightarrow> 'a kio_scheme \<Rightarrow> 'a kio_scheme" where
  "set_not_last this s = s\<lparr>mem := st64 (mem s) this (push_bit 1 (drop_bit 1 (ld64 (mem s) this)))\<rparr>"

definition set_last :: "u64 \<Rightarrow> 'a kio_scheme \<Rightarrow> 'a kio_scheme" where
  "set_last this s = s\<lparr>mem := st64 (mem s) this (ld64 (mem s) this OR 1)\<rparr>"

definition get_next :: "u64 \<Rightarrow> mem \<Rightarrow> u64" where
  "get_next this m = ld64 m (this + 8)"

section \<open>memset and memcpy\<close>

function memset_loop :: "u64 \<Rightarrow> u8 \<Rightarrow> u64 \<Rightarrow> u64 \<Rightarrow> mem \<Rightarrow> mem" where
  "memset_loop i c counter n m =
     (if counter < n then memset_loop (i + 1) c (counter + 1) n (m(i := c)) else m)"
  by pat_completeness auto
termination
  by (relation "measure (\<lambda>(_, _, counter, n, _). unat n - unat counter)")
    (auto simp: unat_add_one, simp add: word_less_nat_alt)

declare memset_loop.simps [simp del]

definition memset :: "u64 \<Rightarrow> u32 \<Rightarrow> u64 \<Rightarrow> 'a kio_scheme \<Rightarrow> u64 \<times> 'a kio_scheme" where
  "memset p c n s = (p, s\<lparr>mem := memset_loop p (ucast c) 0 n (mem s)\<rparr>)"

function memcpy_loop :: "u64 \<Rightarrow> u64 \<Rightarrow> u64 \<Rightarrow> u64 \<Rightarrow> mem \<Rightarrow> mem" where
  "memcpy_loop dest src len current m =
     (if current < len then
        memcpy_loop dest src len (current + 1) (m(dest + current := m (src + current)))
      else m)"
  by pat_completeness auto
termination
  by (relation "measure (\<lambda>(_, _, len, current, _). unat len - unat current)")
    (auto simp: unat_add_one, simp add: word_less_nat_alt)

declare memcpy_loop.simps [simp del]

definition memcpy :: "u64 \<Rightarrow> u64 \<Rightarrow> u64 \<Rightarrow> 'a kio_scheme \<Rightarrow> u64 \<times> 'a kio_scheme" where
  "memcpy dest src len s = (dest, s\<lparr>mem := memcpy_loop dest src len 0 (mem s)\<rparr>)"

section \<open>The heap\<close>

definition VIRTUAL_HEAP_START :: u64 where
  [layout_defs]: "VIRTUAL_HEAP_START = 0xFFFF800100000000"

definition PAGE_SIZE :: u64 where
  [layout_defs]: "PAGE_SIZE = 4096"

record vheap = paging +
  free_list :: u64
  virtual_alloc_end :: u64

definition virtual_allocator_init :: "'a vheap_scheme \<Rightarrow> 'a vheap_scheme option" where
  "virtual_allocator_init s = do {
     let s = log VIRTUAL_MEMORY ''Initialising virtual allocator'' [] s;
     (frame, s) \<leftarrow> kalloc_frame s;
     let page = VIRTUAL_HEAP_START;
     s \<leftarrow> map_page page frame 0xF s;
     let first_item = page;
     let s = set_size first_item PAGE_SIZE s;
     let s = set_last first_item s;
     let s = s\<lparr>free_list := first_item\<rparr>;
     let s = s\<lparr>virtual_alloc_end := VIRTUAL_HEAP_START + PAGE_SIZE\<rparr>;
     let s = log VIRTUAL_MEMORY (''Virtual alloc end: 0x%x'' @ [CHR 0x0A]) [VInt (virtual_alloc_end s)] s;
     Some (log VIRTUAL_MEMORY ''Initialization of virtual allocator done'' [] s)
   }"

text \<open>The search of \<^verbatim>\<open>kalloc\<close> for an item with enough space, and its loop that grows the last item.\<close>

partial_function (option) search_free :: "u64 \<Rightarrow> u64 \<Rightarrow> mem \<Rightarrow> u64 option" where
  "search_free current sz m =
     (if \<not> is_last current m \<and> get_size current m < sz
      then search_free (get_next current m) sz m else Some current)"

partial_function (option) grow :: "u64 \<Rightarrow> u64 \<Rightarrow> 'a vheap_scheme \<Rightarrow> 'a vheap_scheme option" where
  "grow current sz s =
     (if get_size current (mem s) < sz + 32 then do {
        (new_frame, s) \<leftarrow> kalloc_frame s;
        s \<leftarrow> map_page (virtual_alloc_end s) new_frame 0xF s;
        let s = set_size current (get_size current (mem s) + PAGE_SIZE) s;
        let s = s\<lparr>virtual_alloc_end := virtual_alloc_end s + PAGE_SIZE\<rparr>;
        grow current sz s
      } else Some s)"

definition kalloc :: "u64 \<Rightarrow> 'a vheap_scheme \<Rightarrow> (u64 \<times> 'a vheap_scheme) option" where
  "kalloc sz s = do {
     current \<leftarrow> search_free (free_list s) sz (mem s);
     s \<leftarrow> (if is_last current (mem s) \<and> get_size current (mem s) < sz + 32
           then grow current sz s else Some s);
     let old_size = get_size current (mem s);
     let s = s\<lparr>mem := st64 (mem s) current sz\<rparr>;
     let s = s\<lparr>mem := st64 (mem s) (current + 8) 0xFEEBDAEDDEADBEEF\<rparr>;
     let result_pointer = current + 16;
     let new_free_list = result_pointer + sz;
     let s = set_last new_free_list s;
     let s = set_size new_free_list (old_size - (sz + 16)) s;
     let s = s\<lparr>free_list := new_free_list\<rparr>;
     Some (result_pointer,
       log VIRTUAL_MEMORY ''Allocated %i bytes at 0x%x'' [VInt sz, VInt result_pointer] s)
   }"

definition operator_new :: "u64 \<Rightarrow> 'a vheap_scheme \<Rightarrow> (u64 \<times> 'a vheap_scheme) option" where
  "operator_new sz s = kalloc sz s"

definition operator_new_array :: "u64 \<Rightarrow> 'a vheap_scheme \<Rightarrow> (u64 \<times> 'a vheap_scheme) option" where
  "operator_new_array sz s = kalloc sz s"

definition operator_delete_array :: "u64 \<Rightarrow> 'a vheap_scheme \<Rightarrow> 'a vheap_scheme" where
  "operator_delete_array p s = s"

definition operator_delete :: "u64 \<Rightarrow> 'a vheap_scheme \<Rightarrow> 'a vheap_scheme" where
  "operator_delete p s = log ERROR ''Unimplemented call to delete operator'' [] s"

definition operator_delete_sized :: "u64 \<Rightarrow> u64 \<Rightarrow> 'a vheap_scheme \<Rightarrow> 'a vheap_scheme" where
  "operator_delete_sized p sz s =
     log ERROR ''Unimplemented call to delete operator with size %i'' [VInt sz] s"

section \<open>What the byte loops do\<close>

lemma memset_loop_eq:
  "memset_loop i c counter n m =
     store_bytes m i (replicate (unat n - unat counter) c)"
proof (induction i c counter n m rule: memset_loop.induct)
  case (1 i c counter n m)
  show ?case
  proof (cases "counter < n")
    case True
    then have k: "unat n - unat counter = Suc (unat n - unat (counter + 1))"
      by (simp add: unat_add_one word_less_nat_alt)
    moreover have "Suc (unat n - unat (counter + 1)) \<le> 2 ^ 64"
      using k unat_bound [of n] by simp
    ultimately show ?thesis
      using True 1 by (subst memset_loop.simps) (simp add: store_bytes_Cons fun_upd_def del: memset_loop.simps)
  next
    case False
    then show ?thesis
      by (subst memset_loop.simps) (simp add: word_less_nat_alt store_bytes_def)
  qed
qed

text \<open>A copy whose regions do not overlap; the frame of a copy in general.\<close>

lemma memcpy_loop_eq:
  assumes "disj dest (unat len) src (unat len)" and "unat cur \<le> unat len"
  shows "memcpy_loop dest src len cur (store_bytes m dest (load_bytes m src (unat cur))) =
    store_bytes m dest (load_bytes m src (unat len))"
  using assms(2)
proof (induction "unat len - unat cur" arbitrary: cur)
  case 0
  then have "\<not> cur < len" by (simp add: word_less_nat_alt)
  with 0 show ?case by (subst memcpy_loop.simps) simp
next
  case (Suc k)
  let ?m = "store_bytes m dest (load_bytes m src (unat cur))"
  have lt: "cur < len" "unat cur < unat len" using Suc.hyps(2) by (simp_all add: word_less_nat_alt)
  have next_len: "unat (cur + 1) = Suc (unat cur)" by (rule unat_add_one [OF lt(1)])
  have "unat len \<le> unat (src + cur - dest)"
    using disj_out [OF assms(1), of "src + cur"] lt(2) by simp
  then have "?m (src + cur) = m (src + cur)"
    using lt(2) by (simp add: store_bytes_out)
  moreover have "?m(dest + cur := m (src + cur)) =
      store_bytes m dest (load_bytes m src (unat cur) @ [m (src + cur)])"
    using store_bytes_snoc [of "load_bytes m src (unat cur)" "m (src + cur)" m dest] unat_bound [of cur]
    by simp
  moreover have "load_bytes m src (unat cur) @ [m (src + cur)] = load_bytes m src (unat (cur + 1))"
    by (simp add: next_len load_bytes_def)
  ultimately have "memcpy_loop dest src len cur ?m =
      memcpy_loop dest src len (cur + 1) (store_bytes m dest (load_bytes m src (unat (cur + 1))))"
    using lt(1) by (subst memcpy_loop.simps) simp
  also have "\<dots> = store_bytes m dest (load_bytes m src (unat len))"
    using Suc.hyps(2) next_len lt by (intro Suc.hyps(1)) simp_all
  finally show ?case .
qed

lemma memcpy_loop_out:
  "unat len \<le> unat (x - dest) \<Longrightarrow> memcpy_loop dest src len cur m x = m x"
proof (induction dest src len cur m rule: memcpy_loop.induct)
  case (1 dest src len cur m)
  show ?case
  proof (cases "cur < len")
    case True
    then have "x \<noteq> dest + cur"
      using "1.prems" by (auto simp: word_less_nat_alt)
    with True 1 show ?thesis by (subst memcpy_loop.simps) (simp add: fun_upd_def)
  next
    case False
    then show ?thesis by (subst memcpy_loop.simps) simp
  qed
qed

section \<open>Memory outside the frame pool\<close>

lemma unat_in_range:
  fixes x p :: u64
  assumes "unat (x - p) < n" and "unat p + n \<le> 2 ^ 64"
  shows "unat x = unat p + unat (x - p)"
proof -
  have "unat x = unat (p + (x - p))" by simp
  also have "\<dots> = unat p + unat (x - p)"
    using assms by (intro unat_add_lem [THEN iffD1]) simp
  finally show ?thesis .
qed

lemma page_in_pool:
  assumes "phys_layout s" and "i < NFRAMES" and "unat (x - page_of s i) < 4096"
  shows "in_pool s x"
proof -
  let ?m = "managed_frames_address_start s"
  have "page_of s i - ?m = of_nat (32768 + 4096 * i)"
    using assms(1) by (simp add: page_of_def frame_addr_def phys_layout_def phys_base_def)
  moreover have "32768 + 4096 * i < 2 ^ 64"
    using assms(2) by (simp add: NFRAMES_def)
  ultimately have "unat (page_of s i - ?m) = 32768 + 4096 * i"
    by (simp only: unat_of_nat) simp
  moreover have "x - ?m = (x - page_of s i) + (page_of s i - ?m)" by simp
  ultimately show ?thesis
    using assms(2,3) unfolding in_pool_def by (simp only: unat_word_ariths) (simp add: NFRAMES_def)
qed

definition table_frame :: "'a paging_scheme \<Rightarrow> nat \<Rightarrow> bool" where
  "table_frame s i \<longleftrightarrow> (\<exists>n va. n \<le> 3 \<and> tbl (mem s) (first_level_table s) n va = Some (page_of s i))"

text \<open>The pages of the pool that hold neither tables nor free frames: data, whoever it belongs to.\<close>

definition data_page :: "'a paging_scheme \<Rightarrow> u64 \<Rightarrow> bool" where
  "data_page s x \<longleftrightarrow> (\<exists>i \<in> used s. \<not> table_frame s i \<and> unat (x - page_of s i) < 4096)"

lemma pages_disjoint:
  assumes "phys_layout s" and "i < NFRAMES" "j < NFRAMES"
    and "unat (x - page_of s i) < 4096" "unat (x - page_of s j) < 4096"
  shows "i = j"
proof -
  have b: "unat (page_of s k) + 4096 \<le> 2 ^ 64" if "k < NFRAMES" for k
    using unat_page_of [OF assms(1) that] assms(1) that by (simp add: phys_layout_def VIRTUAL_OFFSET_def NFRAMES_def)
  show ?thesis
    using unat_in_range [OF assms(4) b [OF assms(2)]] unat_in_range [OF assms(5) b [OF assms(3)]] assms(4,5)
      unat_page_of [OF assms(1,2)] unat_page_of [OF assms(1,3)] by linarith
qed

lemma used_kept:
  assumes "phys_layout s" and "\<And>x. in_pool s x \<Longrightarrow> \<not> data_page s x \<Longrightarrow> m x = mem s x"
  shows "used (s\<lparr>mem := m\<rparr>) = used s"
proof -
  have "m (flag_addr s i) = mem s (flag_addr s i)" if i: "i < NFRAMES" for i
  proof (rule assms(2) [OF flag_in_pool [OF i]])
    show "\<not> data_page s (flag_addr s i)"
      using flag_outside_page [OF assms(1) _ i] used_bound unfolding data_page_def by (metis not_le)
  qed
  then show ?thesis by (auto simp: used_def state_simps)
qed

lemma entry_kept:
  assumes wf: "pt_wf s" and "\<And>x. in_pool s x \<Longrightarrow> \<not> data_page s x \<Longrightarrow> m x = mem s x"
    and t: "tbl (mem s) (first_level_table s) n va = Some t" "n \<le> 3"
  shows "entry m t n va = entry (mem s) t n va"
proof -
  have lay: "phys_layout s" using wf by (simp add: pt_wf_def)
  obtain i where i: "i \<in> used s" "t = page_of s i"
    using pt_wf_table [OF wf t(2,1)] .
  then have tf: "table_frame s i" using t unfolding table_frame_def by blast
  show ?thesis
  proof (rule ld64_cong, rule assms(2))
    fix x assume x: "unat (x - (t + 8 * vpn (3 - n) va)) < 8"
    then show "in_pool s x"
      using entry_in_pool [OF lay used_bound [OF i(1)] unat_vpn, of x "3 - n" va] i(2) by (auto simp: not_le)
    show "\<not> data_page s x"
      using x tf page_entry_out [OF lay used_bound [OF i(1)] used_bound _ unat_vpn] i(2)
      unfolding data_page_def by (metis not_le)
  qed
qed

lemma tbl_kept:
  assumes "pt_wf s" and "\<And>x. in_pool s x \<Longrightarrow> \<not> data_page s x \<Longrightarrow> m x = mem s x" and "n \<le> 3"
  shows "tbl m (first_level_table s) n va = tbl (mem s) (first_level_table s) n va"
  using assms(3)
proof (induction n)
  case 0
  then show ?case by simp
next
  case (Suc n)
  then show ?case
    using entry_kept [OF assms(1,2), of n va]
    by (cases "tbl (mem s) (first_level_table s) n va") auto
qed

lemma pt_wf_kept:
  assumes wf: "pt_wf s" and out: "\<And>x. in_pool s x \<Longrightarrow> \<not> data_page s x \<Longrightarrow> m x = mem s x"
  shows "pt_wf (s\<lparr>mem := m\<rparr>)" and "sv48 (s\<lparr>mem := m\<rparr>) = sv48 s"
    and "table_frame (s\<lparr>mem := m\<rparr>) = table_frame s"
proof -
  have lay: "phys_layout s" using wf by (simp add: pt_wf_def)
  note same = tbl_kept [OF wf out] and ent = entry_kept [OF wf out]
  have us: "used (s\<lparr>mem := m\<rparr>) = used s" by (rule used_kept [OF lay]) (rule out)
  have "tables_inj m (first_level_table s)"
    using wf unfolding pt_wf_def tables_inj_def by (metis same)
  moreover have "entries_ok m (first_level_table s)"
    using wf unfolding pt_wf_def entries_ok_def by (metis same ent)
  moreover have "frames_zero (s\<lparr>mem := m\<rparr>)"
  proof -
    have "m x = 0" if i: "i < NFRAMES" "i \<notin> used s" and x: "unat (x - page_of s i) < 4096" for i x
    proof -
      have "\<not> data_page s x"
        using i pages_disjoint [OF lay i(1) used_bound x] unfolding data_page_def by blast
      moreover have "mem s x = 0" using i x wf unfolding pt_wf_def frames_zero_def by blast
      ultimately show ?thesis using out page_in_pool [OF lay i(1) x] by simp
    qed
    then show ?thesis by (auto simp: frames_zero_def us state_simps)
  qed
  moreover have "tables_used (s\<lparr>mem := m\<rparr>)"
    using wf us unfolding pt_wf_def tables_used_def by (auto simp: same state_simps)
  ultimately show "pt_wf (s\<lparr>mem := m\<rparr>)"
    using wf by (simp add: pt_wf_def state_simps)
  show "sv48 (s\<lparr>mem := m\<rparr>) = sv48 s"
    using pwalk_cong [of "mem s" "first_level_table s" 0 _ _ m] ent
    by (simp add: sv48_def fun_eq_iff)
  show "table_frame (s\<lparr>mem := m\<rparr>) = table_frame s"
    by (simp add: table_frame_def same state_simps fun_eq_iff cong: conj_cong)
qed

text \<open>In particular nothing changes when the pool is left alone.\<close>

lemma used_outside:
  assumes "\<And>x. in_pool s x \<Longrightarrow> m x = mem s x"
  shows "used (s\<lparr>mem := m\<rparr>) = used s"
  using assms by (auto simp: used_def state_simps flag_in_pool)

lemma pt_wf_outside:
  assumes "pt_wf s" and "\<And>x. in_pool s x \<Longrightarrow> m x = mem s x"
  shows "pt_wf (s\<lparr>mem := m\<rparr>)" and "sv48 (s\<lparr>mem := m\<rparr>) = sv48 s"
  by (rule pt_wf_kept [OF assms(1)], rule assms(2), assumption)+

text \<open>The heap lies above the direct map, and with it above the pool.\<close>

lemma heap_not_in_pool:
  assumes "phys_layout s" and "unat VIRTUAL_HEAP_START \<le> unat x"
  shows "\<not> in_pool s x"
proof -
  let ?b = "phys_base s"
  have b: "unat ?b + 32768 + 4096 * NFRAMES \<le> 2 ^ 32"
    using assms(1) by (simp add: phys_layout_def)
  have m: "managed_frames_address_start s = VIRTUAL_OFFSET + ?b"
    by (simp add: phys_base_def)
  have um: "unat (managed_frames_address_start s) = unat VIRTUAL_OFFSET + unat ?b"
    using b unfolding m by (simp add: unat_word_ariths VIRTUAL_OFFSET_def)
  then have "unat (x - managed_frames_address_start s) = unat x - (unat VIRTUAL_OFFSET + unat ?b)"
    using assms(2) b by (simp add: unat_sub_if' VIRTUAL_OFFSET_def VIRTUAL_HEAP_START_def)
  with assms(2) b show ?thesis
    by (simp add: in_pool_def VIRTUAL_OFFSET_def VIRTUAL_HEAP_START_def)
qed

lemma heap_page:
  assumes "unat VIRTUAL_HEAP_START \<le> unat va" and "unat va < unat VIRTUAL_HEAP_START + 2 ^ 30"
  shows "canonical va" "\<not> direct va"
proof -
  define d where "d = va - VIRTUAL_HEAP_START"
  have "unat d < 2 ^ 30"
    using assms by (simp add: d_def unat_sub_if' VIRTUAL_HEAP_START_def split: if_splits)
  then have d: "bit d n \<Longrightarrow> n < 30" for n
    by (rule small_bits)
  have hs: "bit VIRTUAL_HEAP_START n \<longleftrightarrow> n = 32 \<or> 47 \<le> n \<and> n < 64" for n
  proof -
    have "VIRTUAL_HEAP_START = push_bit 47 (mask 17) OR push_bit 32 1"
      by (simp add: VIRTUAL_HEAP_START_def mask_eq_exp_minus_1)
    then have "bit VIRTUAL_HEAP_START n = bit (push_bit 47 (mask 17) OR push_bit 32 1 :: u64) n"
      by (rule arg_cong)
    then show ?thesis
      by (simp only: bit_or_iff bit_push_bit_iff bit_mask_iff bit_1_iff) auto
  qed
  have "VIRTUAL_HEAP_START AND d = 0"
    by (rule bit_word_eqI) (auto simp: bit_simps hs dest: d)
  then have or: "va = VIRTUAL_HEAP_START OR d"
    by (simp add: d_def flip: disjunctive_add_eq_or)
  have "drop_bit 47 va = mask 17"
    unfolding or by (rule bit_word_eqI) (auto simp: bit_simps hs dest: d)
  then show "canonical va" by (simp add: canonical_def)
  have "drop_bit 30 d = 0"
    by (rule bit_word_eqI) (auto simp: bit_simps dest: d)
  then have "vpn 2 va = 4"
    unfolding vpn_def or by (simp add: drop_bit_or VIRTUAL_HEAP_START_def)
  then show "\<not> direct va" by (simp add: direct_def)
qed

section \<open>The invariant of the heap\<close>

text \<open>
  The free list is a single last item that reaches from \<open>free_list\<close> to the end of the mapped
  heap; every page of the heap is mapped readable, writable and executable; and each page of the
  heap is paid for by a frame in use, which bounds the heap.
\<close>

definition heap_node :: "u64 \<Rightarrow> u64 \<Rightarrow> mem \<Rightarrow> bool" where
  "heap_node p e m \<longleftrightarrow> is_last p m \<and> get_size p m = e - p \<and> unat VIRTUAL_HEAP_START \<le> unat p \<and>
     unat p + 16 \<le> unat e"

definition heap_mapped :: "'a paging_scheme \<Rightarrow> u64 \<Rightarrow> bool" where
  "heap_mapped s e \<longleftrightarrow> 4096 dvd unat e \<and> unat e \<le> unat VIRTUAL_HEAP_START + 4096 * card (used s) \<and>
     (\<forall>va. VIRTUAL_HEAP_START \<le> va \<and> va < e \<longrightarrow> (\<exists>p. sv48 s va = Some (p, 0xF)))"

definition heap_wf :: "'a vheap_scheme \<Rightarrow> bool" where
  "heap_wf s \<longleftrightarrow> pt_wf s \<and> heap_node (free_list s) (virtual_alloc_end s) (mem s) \<and>
     heap_mapped s (virtual_alloc_end s)"

lemma card_used: "card (used s) \<le> NFRAMES"
proof -
  have "used s \<subseteq> {..<NFRAMES}" by (auto simp: used_def)
  from card_mono [OF _ this] show ?thesis by simp
qed

lemma heap_end_bound:
  "heap_mapped s e \<Longrightarrow> unat e \<le> unat VIRTUAL_HEAP_START + 2 ^ 27"
  using card_used [of s] by (simp add: heap_mapped_def NFRAMES_def)

subsection \<open>Items\<close>

lemma and_1_eq: "(x :: u64) AND 1 = of_bool (bit x 0)"
  by (simp only: and_one_eq mod_2_eq_odd bit_0)

lemma is_last_iff: "is_last p m \<longleftrightarrow> bit (ld64 m p) 0"
  by (simp add: is_last_def and_1_eq)

lemma drop_push_or:
  fixes w :: u64
  assumes "0 < k" and "\<And>n. bit w n \<Longrightarrow> n + k < 64"
  shows "drop_bit k (push_bit k w OR of_bool b) = w"
  using assms(1) by (intro bit_word_eqI) (auto simp: bit_simps add.commute dest: assms(2))

lemma get_size_set_size:
  assumes "unat sz < 2 ^ 63"
  shows "get_size p (mem (set_size p sz s)) = sz" "is_last p (mem (set_size p sz s)) = is_last p (mem s)"
proof -
  have "bit sz n \<Longrightarrow> n + 1 < 64" for n
    using small_bits [OF assms] by auto
  from drop_push_or [OF zero_less_one this] show "get_size p (mem (set_size p sz s)) = sz"
    unfolding get_size_def set_size_def by (simp add: ld64_st64 and_1_eq)
  show "is_last p (mem (set_size p sz s)) = is_last p (mem s)"
    by (simp add: is_last_iff set_size_def ld64_st64 and_1_eq bit_or_iff) (simp add: bit_0)
qed

lemma is_last_set_last [simp]: "is_last p (mem (set_last p s))"
  by (simp add: is_last_iff set_last_def ld64_st64 bit_simps)

lemma set_size_out: "8 \<le> unat (x - p) \<Longrightarrow> mem (set_size p sz s) x = mem s x"
  by (simp add: set_size_def st64_out)

lemma set_last_out: "8 \<le> unat (x - p) \<Longrightarrow> mem (set_last p s) x = mem s x"
  by (simp add: set_last_def st64_out)

lemma node_cong:
  assumes "\<And>x. unat (x - p) < 8 \<Longrightarrow> m' x = m x"
  shows "is_last p m' = is_last p m" "get_size p m' = get_size p m"
  using ld64_cong [of p m' m] assms by (auto simp: is_last_def get_size_def)

section \<open>A fresh frame behind a page\<close>

lemma table_frame_grow:
  assumes "tables_grow s s'" and "phys_layout s" and "i \<in> used s" and "table_frame s' i"
  shows "table_frame s i"
proof -
  obtain n va where "n \<le> 3" "tbl (mem s') (first_level_table s') n va = Some (page_of s i)"
    using assms(1,4) by (auto simp: table_frame_def tables_grow_def)
  with assms show ?thesis
    unfolding tables_grow_def table_frame_def using page_of_inj used_bound by metis
qed

lemma table_frame_used:
  assumes "pt_wf s" and "table_frame s i" and "i < NFRAMES"
  shows "i \<in> used s"
  using assms page_of_inj used_bound unfolding table_frame_def pt_wf_def tables_used_def by metis

lemma fresh_page:
  assumes "pt_wf s" and "card (used s) + 4 \<le> NFRAMES" and va: "canonical va" "\<not> direct va"
    and flag: "flag < 0x400" "bit flag 1"
  shows "\<exists>f s1 m tx. let s' = s\<lparr>mem := m, out := tx\<rparr> in
    kalloc_frame s = Some (f, s1) \<and> map_page va f flag s1 = Some s' \<and> pt_wf s' \<and>
    frame_ok f \<and> virtual_alloc_end s1 = virtual_alloc_end s \<and> used s \<subseteq> used s' \<and>
    (\<exists>k. f = frame_addr s k \<and> k \<notin> used s \<and> k \<in> used s' \<and> \<not> table_frame s' k) \<and>
    (\<forall>i \<in> used s. table_frame s' i \<longrightarrow> table_frame s i) \<and>
    card (used s) + 1 \<le> card (used s') \<and> card (used s') \<le> card (used s) + 4 \<and>
    (\<forall>x. \<not> in_pool s x \<longrightarrow> m x = mem s x) \<and>
    (\<forall>v. sv48 s' v =
       (if drop_bit 12 v = drop_bit 12 va then Some (f OR take_bit 12 v, (1 OR ucast flag) AND 0x1F)
        else sv48 s v))"
proof -
  obtain k where k: "is_first_free s k"
    using first_free_exists [OF not_full, of s] assms(2) by auto
  let ?s1 = "s\<lparr>mem := (mem s)(flag_addr s k := 1)\<rparr>"
  obtain tx where tx: "kalloc_frame s = Some (frame_addr s k, ?s1\<lparr>out := tx\<rparr>)"
    using kalloc_frame_eq [OF k] by blast
  let ?t1 = "?s1\<lparr>out := tx\<rparr>"
  have kb: "k < NFRAMES" "k \<notin> used s" using first_free_unused [OF k] by auto
  have u: "used ?t1 = insert k (used s)"
    using used_alloc [OF k] by (simp add: state_simps)
  then have c: "card (used ?t1) = Suc (card (used s))" using kb by simp
  have f: "frame_ok (frame_addr s k)"
    using assms(1) kb(1) by (auto simp: pt_wf_def intro: frame_ok_frame_addr)
  have "pt_wf ?t1" "sv48 ?t1 = sv48 s" "card (used ?t1) + 3 \<le> NFRAMES"
    using pt_wf_alloc [OF assms(1) k] c assms(2) by (simp_all add: state_simps)
  from map_page_full [OF this(1,3) va f flag] obtain m ty where m:
    "map_page va (frame_addr s k) flag ?t1 = Some (?t1\<lparr>mem := m, out := ty\<rparr>)"
    "pt_wf (?t1\<lparr>mem := m, out := ty\<rparr>)" "used ?t1 \<subseteq> used (?t1\<lparr>mem := m, out := ty\<rparr>)"
    "card (used (?t1\<lparr>mem := m, out := ty\<rparr>)) \<le> card (used ?t1) + 3"
    "\<And>x. \<not> in_pool ?t1 x \<Longrightarrow> m x = mem ?t1 x"
    "\<And>v. sv48 (?t1\<lparr>mem := m, out := ty\<rparr>) v =
       (if drop_bit 12 v = drop_bit 12 va then Some (frame_addr s k OR take_bit 12 v, (1 OR ucast flag) AND 0x1F)
        else sv48 ?t1 v)" "tables_grow ?t1 (?t1\<lparr>mem := m, out := ty\<rparr>)"
    unfolding Let_def by blast
  have eq: "?t1\<lparr>mem := m, out := ty\<rparr> = s\<lparr>mem := m, out := ty\<rparr>"
    by (simp add: out_mem_swap)
  have "card (used ?t1) \<le> card (used (s\<lparr>mem := m, out := ty\<rparr>))"
    using m(3) unfolding eq by (rule card_mono [OF finite_used])
  moreover have "m x = mem s x" if "\<not> in_pool s x" for x
    using m(5) [of x] that flag_in_pool [OF kb(1), of s] by (auto simp: state_simps)
  moreover have "\<forall>i \<in> used ?t1. table_frame (s\<lparr>mem := m, out := ty\<rparr>) i \<longrightarrow> table_frame s i"
  proof -
    have "table_frame ?t1 i = table_frame s i" for i
      using tbl_flag [OF assms(1) _ kb(1)] by (simp add: table_frame_def state_simps cong: conj_cong)
    moreover have "phys_layout ?t1" using assms(1) by (simp add: pt_wf_def state_simps)
    ultimately show ?thesis using table_frame_grow [OF m(7)] unfolding eq by blast
  qed
  moreover have "\<not> table_frame s k" using table_frame_used [OF assms(1) _ kb(1)] kb(2) by blast
  moreover have "used ?t1 \<subseteq> used (s\<lparr>mem := m, out := ty\<rparr>)" using m(3) unfolding eq .
  ultimately show ?thesis
    using tx m(1,2,4,6) c f \<open>sv48 ?t1 = sv48 s\<close> kb(2) unfolding eq Let_def u
    by (intro exI [of _ "frame_addr s k"] exI [of _ ?t1] exI [of _ m] exI [of _ ty]) auto
qed

section \<open>Growing the heap\<close>

lemma same_page_range:
  fixes e v :: u64
  assumes "4096 dvd unat e" and "unat e + 4096 < 2 ^ 64"
  shows "drop_bit 12 v = drop_bit 12 e \<longleftrightarrow> e \<le> v \<and> v < e + 4096"
proof -
  obtain q where q: "unat e = 4096 * q" using assms(1) by (elim dvdE)
  have "unat (e + 4096) = unat e + 4096" using assms(2) by (simp add: unat_word_ariths)
  moreover have "unat v div 4096 = q \<longleftrightarrow> 4096 * q \<le> unat v \<and> unat v < 4096 * q + 4096"
    by auto
  ultimately show ?thesis
    by (simp add: word_unat_eq_iff drop_bit_eq_div unat_div q word_le_nat_alt word_less_nat_alt)
qed

definition grow_once :: "u64 \<Rightarrow> 'a vheap_scheme \<Rightarrow> 'a vheap_scheme option" where
  "grow_once current s = do {
     (new_frame, s) \<leftarrow> kalloc_frame s;
     s \<leftarrow> map_page (virtual_alloc_end s) new_frame 0xF s;
     let s = set_size current (get_size current (mem s) + PAGE_SIZE) s;
     Some (s\<lparr>virtual_alloc_end := virtual_alloc_end s + PAGE_SIZE\<rparr>)
   }"

lemma grow_unfold:
  "grow current sz s =
     (if get_size current (mem s) < sz + 32
      then Option.bind (grow_once current s) (grow current sz) else Some s)"
  by (subst grow.simps, cases "kalloc_frame s") (auto simp: grow_once_def Let_def)

lemma heap_mapped_grow:
  assumes "heap_mapped s e" and "card (used s) + 1 \<le> card (used t)"
    and "\<And>v. sv48 t v = (if e \<le> v \<and> v < e + 4096 then Some (g v, 0xF) else sv48 s v)"
  shows "heap_mapped t (e + 4096)"
proof -
  have "unat (e + 4096) = unat e + 4096"
    using heap_end_bound [OF assms(1)] by (simp add: unat_word_ariths VIRTUAL_HEAP_START_def)
  then show ?thesis
    using assms unfolding heap_mapped_def by (auto simp: not_le)
qed

text \<open>What growing changes: the pool and the status word of the item, and no old translation.\<close>

definition grown :: "'a vheap_scheme \<Rightarrow> 'a vheap_scheme \<Rightarrow> bool" where
  "grown s s' \<longleftrightarrow> free_list s' = free_list s \<and> virtual_alloc_end s \<le> virtual_alloc_end s' \<and>
     in_pool s' = in_pool s \<and>
     (\<forall>x. \<not> in_pool s x \<and> 8 \<le> unat (x - free_list s) \<longrightarrow> mem s' x = mem s x) \<and>
     (\<forall>v. v < virtual_alloc_end s \<or> virtual_alloc_end s' \<le> v \<longrightarrow> sv48 s' v = sv48 s v)"

lemma grown_refl: "grown s s"
  by (simp add: grown_def)

lemma grown_trans: "grown s t \<Longrightarrow> grown t u \<Longrightarrow> grown s u"
  unfolding grown_def by (auto intro: order_trans less_le_trans)

lemma grow_once_ok:
  assumes wf: "heap_wf s" and "card (used s) + 4 \<le> NFRAMES"
  shows "\<exists>s'. grow_once (free_list s) s = Some s' \<and> heap_wf s' \<and> grown s s' \<and>
    unat (virtual_alloc_end s') = unat (virtual_alloc_end s) + 4096 \<and> card (used s') \<le> card (used s) + 4"
proof -
  let ?e = "virtual_alloc_end s" and ?p = "free_list s"
  have pt: "pt_wf s" and node: "heap_node ?p ?e (mem s)" and mp: "heap_mapped s ?e"
    using wf by (simp_all add: heap_wf_def)
  have e: "unat VIRTUAL_HEAP_START \<le> unat ?e" "unat ?e \<le> unat VIRTUAL_HEAP_START + 2 ^ 27"
    "unat ?p + 16 \<le> unat ?e" "unat VIRTUAL_HEAP_START \<le> unat ?p"
    using node heap_end_bound [OF mp] by (simp_all add: heap_node_def)
  then have e4: "unat (?e + 4096) = unat ?e + 4096"
    by (simp add: unat_word_ariths VIRTUAL_HEAP_START_def)
  have "unat ?e < unat VIRTUAL_HEAP_START + 2 ^ 30" using e(2) by simp
  note hp = heap_page [OF e(1) this]
  have "(0xF :: u16) < 0x400" "bit (0xF :: u16) 1" by simp_all
  from fresh_page [OF pt assms(2) hp this] obtain f s1 m tx where fp:
    "kalloc_frame s = Some (f, s1)" "map_page ?e f 0xF s1 = Some (s\<lparr>mem := m, out := tx\<rparr>)"
    "pt_wf (s\<lparr>mem := m, out := tx\<rparr>)" "virtual_alloc_end s1 = ?e"
    "card (used s) + 1 \<le> card (used (s\<lparr>mem := m, out := tx\<rparr>))"
    "card (used (s\<lparr>mem := m, out := tx\<rparr>)) \<le> card (used s) + 4"
    "\<And>x. \<not> in_pool s x \<Longrightarrow> m x = mem s x"
    "\<And>v. sv48 (s\<lparr>mem := m, out := tx\<rparr>) v =
       (if drop_bit 12 v = drop_bit 12 ?e then Some (f OR take_bit 12 v, (1 OR ucast (0xF :: u16)) AND 0x1F)
        else sv48 s v)"
    unfolding Let_def by blast
  let ?s2 = "s\<lparr>mem := m, out := tx\<rparr>"
  let ?t = "set_size ?p (get_size ?p m + 4096) ?s2"
  let ?s' = "?t\<lparr>virtual_alloc_end := ?e + 4096\<rparr>"
  have once: "grow_once ?p s = Some ?s'"
    using fp(1,2,4) by (simp add: grow_once_def PAGE_SIZE_def set_size_def)
  have np: "\<not> in_pool s x" if "unat (x - ?p) < 8" for x
  proof -
    have "unat x = unat ?p + unat (x - ?p)"
      using that e unat_bound [of ?e] by (intro unat_in_range [of _ _ 8]) simp_all
    with e(4) pt show ?thesis
      by (intro heap_not_in_pool) (simp_all add: pt_wf_def)
  qed
  have keep: "mem ?t x = m x" if "8 \<le> unat (x - ?p)" for x
    using set_size_out [OF that, of "get_size ?p m + 4096" ?s2] by simp
  have pool: "mem ?t x = mem ?s2 x" if "in_pool ?s2 x" for x
    using keep [of x] np [of x] that by (cases "unat (x - ?p) < 8") (auto simp: state_simps)
  have t_eq: "?t = ?s2\<lparr>mem := mem ?t\<rparr>" by (simp add: set_size_def)
  have o: "pt_wf ?s'" "sv48 ?s' = sv48 ?s2" "used ?s' = used ?s2"
    using pt_wf_outside [OF fp(3), of "mem ?t", OF pool] used_outside [of ?s2 "mem ?t", OF pool]
      pt_wf_cong [of ?s' "?s2\<lparr>mem := mem ?t\<rparr>"] by (simp_all add: set_size_def)
  have range: "drop_bit 12 v = drop_bit 12 ?e \<longleftrightarrow> ?e \<le> v \<and> v < ?e + 4096" for v
    using mp e by (intro same_page_range) (simp_all add: heap_mapped_def VIRTUAL_HEAP_START_def)
  have sv: "sv48 ?s' v = (if ?e \<le> v \<and> v < ?e + 4096 then Some (f OR take_bit 12 v, 0xF) else sv48 s v)" for v
    unfolding o(2) fp(8) range by simp
  have "heap_mapped ?s' (?e + 4096)"
    using heap_mapped_grow [OF mp _ sv] fp(5) o(3) by simp
  moreover have "heap_node ?p (?e + 4096) (mem ?s')"
  proof -
    have n1: "is_last ?p m = is_last ?p (mem s)" "get_size ?p m = get_size ?p (mem s)"
      by (rule node_cong; use fp(7) np in blast)+
    have eq: "?e + 4096 - ?p = ?e - ?p + 4096" by simp
    have "unat (?e + 4096 - ?p) < 2 ^ 63"
      using e e4 by (simp add: unat_sub word_le_nat_alt VIRTUAL_HEAP_START_def)
    then show ?thesis
      using node n1 e4 get_size_set_size [of "get_size ?p m + 4096" ?p ?s2]
      by (simp add: heap_node_def eq)
  qed
  ultimately have "heap_wf ?s'"
    using o(1) by (simp add: heap_wf_def set_size_def)
  moreover have "grown s ?s'"
  proof -
    have "?e \<le> ?e + 4096" using e4 by (simp add: word_le_nat_alt)
    then show ?thesis
      unfolding grown_def using sv fp(7) keep
      by (auto simp: set_size_def in_pool_def not_le fun_eq_iff)
  qed
  ultimately show ?thesis
    using once e4 o(3) fp(6) by (intro exI [of _ ?s']) simp
qed

lemma heap_size:
  assumes "heap_wf s"
  shows "get_size (free_list s) (mem s) = virtual_alloc_end s - free_list s"
    and "unat (virtual_alloc_end s - free_list s) \<le> 2 ^ 27"
    and "unat (virtual_alloc_end s - free_list s) = unat (virtual_alloc_end s) - unat (free_list s)"
    and "unat (free_list s) + 16 \<le> unat (virtual_alloc_end s)"
proof -
  have n: "heap_node (free_list s) (virtual_alloc_end s) (mem s)"
    and m: "heap_mapped s (virtual_alloc_end s)"
    using assms by (simp_all add: heap_wf_def)
  show "get_size (free_list s) (mem s) = virtual_alloc_end s - free_list s"
    and 4: "unat (free_list s) + 16 \<le> unat (virtual_alloc_end s)"
    using n by (simp_all add: heap_node_def)
  then show 3: "unat (virtual_alloc_end s - free_list s) = unat (virtual_alloc_end s) - unat (free_list s)"
    by (intro unat_sub) (simp add: word_le_nat_alt)
  show "unat (virtual_alloc_end s - free_list s) \<le> 2 ^ 27"
  proof -
    have "unat VIRTUAL_HEAP_START \<le> unat (free_list s)" using n by (simp add: heap_node_def)
    with 3 heap_end_bound [OF m] show ?thesis by linarith
  qed
qed

lemma grow_ok:
  assumes "heap_wf s" and "card (used s) + 4 * n \<le> NFRAMES"
    and "unat sz + 32 \<le> unat (virtual_alloc_end s - free_list s) + 4096 * n"
  shows "\<exists>s'. grow (free_list s) sz s = Some s' \<and> heap_wf s' \<and> grown s s' \<and>
    unat sz + 32 \<le> unat (virtual_alloc_end s' - free_list s') \<and> card (used s') \<le> card (used s) + 4 * n"
  using assms
proof (induction n arbitrary: s)
  case 0
  then have "\<not> get_size (free_list s) (mem s) < sz + 32"
    using heap_size [OF 0(1)] by (simp add: word_less_nat_alt unat_word_ariths not_less)
  then show ?case
    using 0 by (subst grow_unfold) (auto simp: grown_refl)
next
  case (Suc n)
  have sz: "unat (sz + 32) = unat sz + 32"
    using Suc.prems(2,3) heap_size(2) [OF Suc.prems(1)] by (simp add: unat_word_ariths NFRAMES_def)
  show ?case
  proof (cases "get_size (free_list s) (mem s) < sz + 32")
    case False
    then show ?thesis
      using Suc.prems heap_size [OF Suc.prems(1)] sz
      by (subst grow_unfold) (auto simp: grown_refl word_less_nat_alt not_less)
  next
    case True
    obtain t where t: "grow_once (free_list s) s = Some t" "heap_wf t" "grown s t"
      "unat (virtual_alloc_end t) = unat (virtual_alloc_end s) + 4096" "card (used t) \<le> card (used s) + 4"
      using grow_once_ok [OF Suc.prems(1)] Suc.prems(2) by auto
    have ft: "free_list t = free_list s" using t(3) by (simp add: grown_def)
    have "unat sz + 32 \<le> unat (virtual_alloc_end t - free_list t) + 4096 * n"
      using Suc.prems(3) t(4) heap_size(3,4) [OF Suc.prems(1)] heap_size(3) [OF t(2)] ft by simp
    moreover have "card (used t) + 4 * n \<le> NFRAMES" using Suc.prems(2) t(5) by simp
    ultimately obtain s' where s': "grow (free_list t) sz t = Some s'" "heap_wf s'" "grown t s'"
      "unat sz + 32 \<le> unat (virtual_alloc_end s' - free_list s')" "card (used s') \<le> card (used t) + 4 * n"
      using Suc.IH [OF t(2)] by blast
    moreover have "grow (free_list s) sz s = Some s'"
      using True t(1) s'(1) ft by (subst grow_unfold) simp
    ultimately show ?thesis
      using grown_trans [OF t(3) s'(3)] t(5) by auto
  qed
qed

section \<open>kalloc\<close>

lemma search_free_last: "is_last p m \<Longrightarrow> search_free p sz m = Some p"
  by (simp add: search_free.simps)

text \<open>Cutting a block off the front of an item that is large enough.\<close>

definition carve :: "u64 \<Rightarrow> 'a vheap_scheme \<Rightarrow> 'a vheap_scheme" where
  "carve sz s =
     (let p = free_list s; old_size = get_size p (mem s);
          s = s\<lparr>mem := st64 (mem s) p sz\<rparr>;
          s = s\<lparr>mem := st64 (mem s) (p + 8) 0xFEEBDAEDDEADBEEF\<rparr>;
          s = set_last (p + 16 + sz) s;
          s = set_size (p + 16 + sz) (old_size - (sz + 16)) s
      in s\<lparr>free_list := p + 16 + sz\<rparr>)"

lemma carve_ok:
  assumes wf: "heap_wf s" and sz: "unat sz + 32 \<le> unat (virtual_alloc_end s - free_list s)"
  shows "heap_wf (carve sz s)" "free_list (carve sz s) = free_list s + 16 + sz"
    "virtual_alloc_end (carve sz s) = virtual_alloc_end s" "used (carve sz s) = used s"
    "sv48 (carve sz s) = sv48 s" "in_pool (carve sz s) = in_pool s"
    "ld64 (mem (carve sz s)) (free_list s) = sz"
    "ld64 (mem (carve sz s)) (free_list s + 8) = 0xFEEBDAEDDEADBEEF"
    "\<And>x. 16 \<le> unat (x - free_list s) \<Longrightarrow> 8 \<le> unat (x - (free_list s + 16 + sz)) \<Longrightarrow>
      mem (carve sz s) x = mem s x"
proof -
  let ?p = "free_list s" and ?e = "virtual_alloc_end s"
  let ?q = "?p + 16 + sz"
  have pt: "pt_wf s" and node: "heap_node ?p ?e (mem s)" and mp: "heap_mapped s ?e"
    using wf by (simp_all add: heap_wf_def)
  note hs = heap_size [OF wf]
  have p: "unat VIRTUAL_HEAP_START \<le> unat ?p" "unat ?e \<le> unat VIRTUAL_HEAP_START + 2 ^ 27"
    using node heap_end_bound [OF mp] by (simp_all add: heap_node_def)
  have b: "unat ?p + unat sz + 32 \<le> unat ?e" "unat ?e < 2 ^ 64"
    using sz hs by simp_all (use unat_bound [of ?e] in simp)
  then have q: "unat ?q = unat ?p + 16 + unat sz" "unat (?p + 8) = unat ?p + 8"
    by (simp_all add: unat_word_ariths)
  have d: "disj (?p + 8) 8 ?p 8" "disj ?q 8 ?p 8" "disj ?q 8 (?p + 8) 8"
    by (rule disj_nat; use b q in simp)+
  let ?m2 = "st64 (st64 (mem s) ?p sz) (?p + 8) 0xFEEBDAEDDEADBEEF"
  let ?r = "get_size ?p (mem s) - (sz + 16)"
  let ?s3 = "set_last ?q (s\<lparr>mem := ?m2\<rparr>)"
  have eq: "carve sz s = (set_size ?q ?r ?s3)\<lparr>free_list := ?q\<rparr>"
    by (simp add: carve_def Let_def)
  let ?v3 = "ld64 ?m2 ?q OR 1"
  have m: "mem (carve sz s) = st64 (st64 ?m2 ?q ?v3) ?q (push_bit 1 ?r OR (?v3 AND 1))"
    unfolding eq by (simp add: set_size_def set_last_def ld64_st64)
  show "free_list (carve sz s) = ?q" "virtual_alloc_end (carve sz s) = ?e"
    "in_pool (carve sz s) = in_pool s"
    unfolding eq by (simp_all add: set_size_def set_last_def in_pool_def fun_eq_iff)
  show "ld64 (mem (carve sz s)) ?p = sz" "ld64 (mem (carve sz s)) (?p + 8) = 0xFEEBDAEDDEADBEEF"
    unfolding m by (simp_all add: ld64_st64_disj d ld64_st64)
  show out: "mem (carve sz s) x = mem s x" if "16 \<le> unat (x - ?p)" "8 \<le> unat (x - ?q)" for x
  proof -
    have "8 \<le> unat (x - (?p + 8))"
      using that(1) unat_sub_if' [of "x - ?p" 8] by (simp add: diff_diff_eq2 diff_diff_eq)
    with that show ?thesis unfolding m by (simp add: st64_out)
  qed
  have pool: "mem (carve sz s) x = mem s x" if "in_pool s x" for x
  proof (rule out)
    show "16 \<le> unat (x - ?p)"
      using that heap_not_in_pool [of s x] pt p b unat_in_range [of x ?p 16]
      by (force simp: pt_wf_def not_le)
    show "8 \<le> unat (x - ?q)"
      using that heap_not_in_pool [of s x] pt p b q unat_in_range [of x ?q 8]
      by (force simp: pt_wf_def not_le)
  qed
  note o = pt_wf_outside [OF pt, of "mem (carve sz s)", OF pool]
    used_outside [of s "mem (carve sz s)", OF pool]
  have c: "pt_wf (carve sz s) = pt_wf (s\<lparr>mem := mem (carve sz s)\<rparr>)"
    "sv48 (carve sz s) = sv48 (s\<lparr>mem := mem (carve sz s)\<rparr>)"
    "used (carve sz s) = used (s\<lparr>mem := mem (carve sz s)\<rparr>)"
    by (rule pt_wf_cong; simp add: eq set_size_def set_last_def)+
  show u: "used (carve sz s) = used s" and sv: "sv48 (carve sz s) = sv48 s"
    using c o by simp_all
  have r: "?r = ?e - ?q" unfolding hs(1) by simp
  have "unat (?e - ?q) < 2 ^ 63"
    using b q p by (simp add: unat_sub word_le_nat_alt VIRTUAL_HEAP_START_def)
  then have "heap_node ?q ?e (mem (carve sz s))"
    using get_size_set_size [of ?r ?q ?s3] b q p unfolding eq r by (simp add: heap_node_def)
  then show "heap_wf (carve sz s)"
    using c(1) o(1) mp u sv \<open>free_list (carve sz s) = ?q\<close> \<open>virtual_alloc_end (carve sz s) = ?e\<close>
    by (simp add: heap_wf_def heap_mapped_def)
qed

lemma kalloc_ok:
  assumes wf: "heap_wf s" and room: "card (used s) + 4 * ((unat sz + 32) div 4096 + 1) \<le> NFRAMES"
  shows "\<exists>t s'. grow (free_list s) sz s = Some t \<and> grown s t \<and> heap_wf t \<and> kalloc sz s = Some (free_list s + 16, s') \<and>
    unat sz + 32 \<le> unat (virtual_alloc_end t - free_list t) \<and>
    card (used t) \<le> card (used s) + 4 * ((unat sz + 32) div 4096 + 1) \<and>
    (\<exists>tx. s' = carve sz t\<lparr>out := tx\<rparr>)"
proof -
  let ?n = "(unat sz + 32) div 4096 + 1"
  have last: "is_last (free_list s) (mem s)"
    using wf by (simp add: heap_wf_def heap_node_def)
  obtain t where t: "grow (free_list s) sz s = Some t" "heap_wf t" "grown s t"
    "unat sz + 32 \<le> unat (virtual_alloc_end t - free_list t)" "card (used t) \<le> card (used s) + 4 * ?n"
  proof -
    have "unat sz + 32 < 4096 * ?n" by simp
    then show ?thesis
      using grow_ok [OF wf room, of sz] that by fastforce
  qed
  have ft: "free_list t = free_list s" using t(3) by (simp add: grown_def)
  have g: "(if is_last (free_list s) (mem s) \<and> get_size (free_list s) (mem s) < sz + 32
      then grow (free_list s) sz s else Some s) = Some t"
    using t(1) last grow_unfold [of "free_list s" sz s] by (auto split: if_splits)
  have "\<exists>tx. kalloc sz s = Some (free_list s + 16, carve sz t\<lparr>out := tx\<rparr>)"
    unfolding kalloc_def search_free_last [OF last] Option.bind.bind_lunit g
    by (simp add: Let_def log_eq ft carve_def) (intro exI, rule refl)
  with t show ?thesis by blast
qed

section \<open>The contract\<close>

text \<open>
  An allocator that cuts blocks off the space above \<open>top\<close>. An allocation of \<open>sz\<close> bytes
  succeeds as long as its cost is covered; its block lies above the old top and below the new
  one; the bytes below the old top keep their contents, and clients may write them.
\<close>

locale bump_allocator =
  fixes alloc :: "u64 \<Rightarrow> 's \<Rightarrow> (u64 \<times> 's) option"
    and invar :: "'s \<Rightarrow> bool"
    and base :: nat
    and top :: "'s \<Rightarrow> nat"
    and rd :: "'s \<Rightarrow> u64 \<Rightarrow> u8"
    and wr :: "u64 \<Rightarrow> u8 \<Rightarrow> 's \<Rightarrow> 's"
    and room :: "'s \<Rightarrow> nat"
    and cost :: "u64 \<Rightarrow> nat"
  assumes alloc_total: "invar s \<Longrightarrow> cost sz \<le> room s \<Longrightarrow> \<exists>p s'. alloc sz s = Some (p, s')"
    and alloc_block: "invar s \<Longrightarrow> cost sz \<le> room s \<Longrightarrow> alloc sz s = Some (p, s') \<Longrightarrow>
      base \<le> top s \<and> top s < unat p \<and> unat p + unat sz \<le> top s'"
    and alloc_invar: "invar s \<Longrightarrow> cost sz \<le> room s \<Longrightarrow> alloc sz s = Some (p, s') \<Longrightarrow> invar s'"
    and alloc_room: "invar s \<Longrightarrow> cost sz \<le> room s \<Longrightarrow> alloc sz s = Some (p, s') \<Longrightarrow>
      room s \<le> room s' + cost sz"
    and alloc_keeps: "invar s \<Longrightarrow> cost sz \<le> room s \<Longrightarrow> alloc sz s = Some (p, s') \<Longrightarrow>
      base \<le> unat x \<Longrightarrow> unat x < top s \<Longrightarrow> rd s' x = rd s x"
    and wr_invar: "invar s \<Longrightarrow> base \<le> unat x \<Longrightarrow> unat x < top s \<Longrightarrow> invar (wr x v s)"
    and wr_top: "top (wr x v s) = top s"
    and wr_rd: "rd (wr x v s) = (rd s)(x := v)"
    and wr_room: "invar s \<Longrightarrow> base \<le> unat x \<Longrightarrow> unat x < top s \<Longrightarrow> room (wr x v s) = room s"
begin

primrec allocs :: "u64 list \<Rightarrow> 's \<Rightarrow> (u64 list \<times> 's) option" where
  "allocs [] s = Some ([], s)"
| "allocs (sz # szs) s = (case alloc sz s of
     None \<Rightarrow> None
   | Some (p, s') \<Rightarrow> map_option (\<lambda>(ps, t). (p # ps, t)) (allocs szs s'))"

text \<open>
  A sequence of allocations: they all succeed, their blocks lie one above the other, and what
  was below the top before is unchanged after all of them.
\<close>

lemma allocs_blocks:
  assumes "invar s" and "sum_list (map cost szs) \<le> room s"
  shows "\<exists>ps s'. allocs szs s = Some (ps, s') \<and> invar s' \<and> length ps = length szs \<and> top s \<le> top s' \<and>
    (\<forall>i < length szs. top s < unat (ps ! i) \<and> unat (ps ! i) + unat (szs ! i) \<le> top s') \<and>
    sorted_wrt (\<lambda>(p, n) (q, k). unat p + unat n < unat q) (zip ps szs) \<and>
    (\<forall>x. base \<le> unat x \<and> unat x < top s \<longrightarrow> rd s' x = rd s x)"
  using assms
proof (induction szs arbitrary: s)
  case Nil
  then show ?case by simp
next
  case (Cons sz szs)
  then have c: "cost sz \<le> room s" by simp
  obtain p s1 where a: "alloc sz s = Some (p, s1)"
    using alloc_total [OF Cons.prems(1) c] by blast
  note blk = alloc_block [OF Cons.prems(1) c a] and iv = alloc_invar [OF Cons.prems(1) c a]
  have "sum_list (map cost szs) \<le> room s1"
    using alloc_room [OF Cons.prems(1) c a] Cons.prems(2) by simp
  from Cons.IH [OF iv this] obtain ps s' where IH: "allocs szs s1 = Some (ps, s')" "invar s'"
    "length ps = length szs" "top s1 \<le> top s'"
    "\<And>i. i < length szs \<Longrightarrow> top s1 < unat (ps ! i) \<and> unat (ps ! i) + unat (szs ! i) \<le> top s'"
    "sorted_wrt (\<lambda>(p, n) (q, k). unat p + unat n < unat q) (zip ps szs)"
    "\<And>x. base \<le> unat x \<Longrightarrow> unat x < top s1 \<Longrightarrow> rd s' x = rd s1 x"
    by blast
  have "\<forall>(q, k) \<in> set (zip ps szs). unat p + unat sz < unat q"
    using IH(3,5) blk by (fastforce simp: set_zip)
  moreover have "top s < unat ((p # ps) ! i) \<and> unat ((p # ps) ! i) + unat ((sz # szs) ! i) \<le> top s'"
    if "i < length (sz # szs)" for i
    using that IH(4,5) blk by (cases i) force+
  moreover have "rd s' x = rd s x" if "base \<le> unat x" "unat x < top s" for x
    using that IH(7) [of x] alloc_keeps [OF Cons.prems(1) c a that] blk by simp
  ultimately show ?case
    using a IH(1-4,6) blk by (intro exI [of _ "p # ps"] exI [of _ s']) fastforce
qed

text \<open>Bytes a client wrote below the top survive later allocations.\<close>

lemma write_then_alloc:
  assumes "invar s" and "base \<le> unat x" "unat x < top s" and "cost sz \<le> room s"
  shows "\<exists>p s'. alloc sz (wr x v s) = Some (p, s') \<and> rd s' x = v"
proof -
  have w: "invar (wr x v s)" "cost sz \<le> room (wr x v s)" "unat x < top (wr x v s)"
    using assms wr_invar wr_room wr_top by simp_all
  obtain p s' where "alloc sz (wr x v s) = Some (p, s')"
    using alloc_total [OF w(1,2)] by blast
  moreover from this have "rd s' x = v"
    using alloc_keeps [OF w(1,2) _ assms(2) w(3)] wr_rd by simp
  ultimately show ?thesis by blast
qed

end

definition kalloc_cost :: "u64 \<Rightarrow> nat" where
  "kalloc_cost sz = 4 * ((unat sz + 32) div 4096 + 1)"

definition frames_left :: "'a phys_scheme \<Rightarrow> nat" where
  "frames_left s = NFRAMES - card (used s)"

definition heap_write :: "u64 \<Rightarrow> u8 \<Rightarrow> 'a vheap_scheme \<Rightarrow> 'a vheap_scheme" where
  "heap_write x v s = s\<lparr>mem := (mem s)(x := v)\<rparr>"

text \<open>What may be overwritten without harm: data pages, and everything outside the pool and the free item.\<close>

lemma heap_wf_kept:
  assumes "heap_wf s" and "\<And>x. in_pool s x \<Longrightarrow> \<not> data_page s x \<Longrightarrow> m x = mem s x"
    and "\<And>x. unat (x - free_list s) < 8 \<Longrightarrow> m x = mem s x"
  shows "heap_wf (s\<lparr>mem := m\<rparr>)" "used (s\<lparr>mem := m\<rparr>) = used s" "sv48 (s\<lparr>mem := m\<rparr>) = sv48 s"
proof -
  have wf: "pt_wf s" using assms(1) by (simp add: heap_wf_def)
  show u: "used (s\<lparr>mem := m\<rparr>) = used s"
    using wf by (intro used_kept assms(2)) (simp_all add: pt_wf_def)
  show sv: "sv48 (s\<lparr>mem := m\<rparr>) = sv48 s" by (rule pt_wf_kept(2) [OF wf]) (rule assms(2))
  have pt: "pt_wf (s\<lparr>mem := m\<rparr>)" by (rule pt_wf_kept(1) [OF wf]) (rule assms(2))
  have "is_last (free_list s) m = is_last (free_list s) (mem s)"
    "get_size (free_list s) m = get_size (free_list s) (mem s)"
    by (rule node_cong; use assms(3) in blast)+
  then show "heap_wf (s\<lparr>mem := m\<rparr>)"
    using assms(1) pt u sv by (simp add: heap_wf_def heap_node_def heap_mapped_def)
qed

lemma heap_wf_write:
  assumes "heap_wf s" and "\<And>x. in_pool s x \<Longrightarrow> m x = mem s x"
    and "\<And>x. unat (x - free_list s) < 8 \<Longrightarrow> m x = mem s x"
  shows "heap_wf (s\<lparr>mem := m\<rparr>)" "used (s\<lparr>mem := m\<rparr>) = used s" "sv48 (s\<lparr>mem := m\<rparr>) = sv48 s"
  using heap_wf_kept [OF assms(1), of m] assms(2,3) by simp_all

lemma heap_wf_out: "heap_wf (s\<lparr>out := t\<rparr>) = heap_wf s"
  by (simp add: heap_wf_def heap_mapped_def state_simps)

text \<open>The block an allocation returns, what it writes and what it leaves alone.\<close>

lemma kalloc_facts:
  assumes wf: "heap_wf s" and room: "kalloc_cost sz \<le> frames_left s"
  shows "\<exists>s'. kalloc sz s = Some (free_list s + 16, s') \<and> heap_wf s' \<and>
    free_list s' = free_list s + 16 + sz \<and> unat (free_list s') = unat (free_list s) + 16 + unat sz \<and>
    card (used s') \<le> card (used s) + kalloc_cost sz \<and> virtual_alloc_end s \<le> virtual_alloc_end s' \<and>
    ld64 (mem s') (free_list s) = sz \<and> ld64 (mem s') (free_list s + 8) = 0xFEEBDAEDDEADBEEF \<and>
    (\<forall>x. \<not> in_pool s x \<and> 16 \<le> unat (x - free_list s) \<and> 8 \<le> unat (x - free_list s') \<longrightarrow> mem s' x = mem s x) \<and>
    (\<forall>v. v < virtual_alloc_end s \<or> virtual_alloc_end s' \<le> v \<longrightarrow> sv48 s' v = sv48 s v) \<and>
    in_pool s' = in_pool s"
proof -
  have "card (used s) + 4 * ((unat sz + 32) div 4096 + 1) \<le> NFRAMES"
    using room by (simp add: kalloc_cost_def frames_left_def)
  from kalloc_ok [OF wf this] obtain t s' tx where t: "grown s t" "heap_wf t"
    "kalloc sz s = Some (free_list s + 16, s')" "unat sz + 32 \<le> unat (virtual_alloc_end t - free_list t)"
    "card (used t) \<le> card (used s) + kalloc_cost sz" "s' = carve sz t\<lparr>out := tx\<rparr>"
    unfolding kalloc_cost_def by blast
  note c = carve_ok [OF t(2,4)]
  have ft: "free_list t = free_list s" "in_pool t = in_pool s" "virtual_alloc_end s \<le> virtual_alloc_end t"
    using t(1) by (simp_all add: grown_def)
  have u: "unat (free_list s + 16 + sz) = unat (free_list s) + 16 + unat sz"
    using t(4) heap_size(3,4) [OF t(2)] unat_bound [of "virtual_alloc_end t"] ft
    by (simp add: unat_word_ariths)
  have "mem s' x = mem s x"
    if "\<not> in_pool s x" "16 \<le> unat (x - free_list s)" "8 \<le> unat (x - (free_list s + 16 + sz))" for x
    using that c(9) [of x] t(1) ft unfolding t(6) grown_def by simp
  moreover have "sv48 s' v = sv48 s v" if "v < virtual_alloc_end s \<or> virtual_alloc_end s' \<le> v" for v
    using that t(1) c(3,5) unfolding t(6) grown_def by (auto simp: state_simps)
  ultimately show ?thesis
    using t(3,5) c(1-4,6-8) ft u unfolding t(6)
    by (intro exI [of _ "carve sz t\<lparr>out := tx\<rparr>"]) (simp add: heap_wf_out state_simps)
qed

lemma heap_below_free:
  assumes "heap_wf s" and "unat VIRTUAL_HEAP_START \<le> unat x" and "unat x < unat (free_list s)"
  shows "\<not> in_pool s x" "16 \<le> unat (x - free_list s)"
proof -
  show "\<not> in_pool s x"
    using assms(1,2) heap_not_in_pool [of s x] by (simp add: heap_wf_def pt_wf_def)
  show "16 \<le> unat (x - free_list s)"
    using assms(3) heap_size(4) [OF assms(1)] unat_bound [of "virtual_alloc_end s"]
      unat_in_range [of x "free_list s" 16] by force
qed

interpretation kh: bump_allocator kalloc heap_wf "unat VIRTUAL_HEAP_START" "\<lambda>s. unat (free_list s)"
  mem heap_write frames_left kalloc_cost
proof (unfold_locales, goal_cases)
  case (1 s sz)
  then show ?case using kalloc_facts by blast
next
  case (2 s sz p s')
  have "unat (free_list s + 16) = unat (free_list s) + 16"
    using heap_size(4) [OF 2(1)] unat_bound [of "virtual_alloc_end s"] by (simp add: unat_word_ariths)
  then show ?case
    using 2 kalloc_facts [OF 2(1,2)] by (auto simp: heap_wf_def heap_node_def)
next
  case (3 s sz p s')
  then show ?case using kalloc_facts [OF 3(1,2)] by auto
next
  case (4 s sz p s')
  then show ?case using kalloc_facts [OF 4(1,2)] by (auto simp: frames_left_def)
next
  case (5 s sz p s' x)
  obtain t where t: "kalloc sz s = Some (free_list s + 16, t)"
    "unat (free_list t) = unat (free_list s) + 16 + unat sz" "heap_wf t"
    "\<And>x. \<not> in_pool s x \<Longrightarrow> 16 \<le> unat (x - free_list s) \<Longrightarrow> 8 \<le> unat (x - free_list t) \<Longrightarrow> mem t x = mem s x"
    using kalloc_facts [OF 5(1,2)] by blast
  have "16 \<le> unat (x - free_list t)"
    using t(2,3) 5 by (intro heap_below_free(2)) simp_all
  then show ?case
    using t 5(3) heap_below_free [OF 5(1,4,5)] by simp
next
  case (6 s x v)
  then show ?case
    using heap_below_free [OF 6] unfolding heap_write_def by (intro heap_wf_write(1)) auto
next
  case (7 x v s)
  show ?case by (simp add: heap_write_def)
next
  case (8 x v s)
  show ?case by (simp add: heap_write_def)
next
  case (9 s x v)
  have "used (s\<lparr>mem := (mem s)(x := v)\<rparr>) = used s"
    using heap_below_free [OF 9] by (intro heap_wf_write(2) [OF 9(1)]) auto
  then show ?case by (simp add: heap_write_def frames_left_def)
qed

section \<open>Setting the heap up\<close>

lemma virtual_allocator_init_ok:
  assumes "pt_wf s" and "card (used s) + 4 \<le> NFRAMES"
  shows "\<exists>s'. virtual_allocator_init s = Some s' \<and> heap_wf s' \<and> free_list s' = VIRTUAL_HEAP_START \<and>
    card (used s') \<le> card (used s) + 4 \<and>
    managed_frames_address_start s' = managed_frames_address_start s \<and>
    (\<forall>x. \<not> in_pool s x \<and> unat x < unat VIRTUAL_HEAP_START \<longrightarrow> mem s' x = mem s x) \<and>
    (\<forall>v. v < VIRTUAL_HEAP_START \<or> VIRTUAL_HEAP_START + 4096 \<le> v \<longrightarrow> sv48 s' v = sv48 s v)"
proof -
  let ?h = VIRTUAL_HEAP_START
  define s0 where "s0 = log VIRTUAL_MEMORY ''Initialising virtual allocator'' [] s"
  have s0: "pt_wf s0" "card (used s0) + 4 \<le> NFRAMES" "sv48 s0 = sv48 s" "used s0 = used s"
    using assms by (simp_all add: s0_def)
  have "unat ?h < unat ?h + 2 ^ 30" by simp
  note hp = heap_page [OF order_refl this]
  have "(0xF :: u16) < 0x400" "bit (0xF :: u16) 1" by simp_all
  from fresh_page [OF s0(1,2) hp this] obtain f s1 m tx where fp:
    "kalloc_frame s0 = Some (f, s1)" "map_page ?h f 0xF s1 = Some (s0\<lparr>mem := m, out := tx\<rparr>)"
    "pt_wf (s0\<lparr>mem := m, out := tx\<rparr>)"
    "card (used s0) + 1 \<le> card (used (s0\<lparr>mem := m, out := tx\<rparr>))"
    "card (used (s0\<lparr>mem := m, out := tx\<rparr>)) \<le> card (used s0) + 4"
    "\<And>x. \<not> in_pool s0 x \<Longrightarrow> m x = mem s0 x"
    "\<And>v. sv48 (s0\<lparr>mem := m, out := tx\<rparr>) v =
       (if drop_bit 12 v = drop_bit 12 ?h then Some (f OR take_bit 12 v, (1 OR ucast (0xF :: u16)) AND 0x1F)
        else sv48 s0 v)"
    unfolding Let_def by blast
  let ?s2 = "s0\<lparr>mem := m, out := tx\<rparr>"
  let ?t = "set_last ?h (set_size ?h 4096 ?s2)"
  let ?s' = "?t\<lparr>free_list := ?h, virtual_alloc_end := ?h + 4096\<rparr>"
  obtain ty where eq: "virtual_allocator_init s = Some (?s'\<lparr>out := ty\<rparr>)"
    using fp(1,2) unfolding virtual_allocator_init_def Let_def s0_def [symmetric]
    by (simp add: PAGE_SIZE_def log_eq)
  have low: "mem ?t x = m x" if "unat x < unat ?h" for x
  proof -
    have "8 \<le> unat (x - ?h)" using that unat_in_range [of x ?h 8] by (force simp: VIRTUAL_HEAP_START_def)
    then show ?thesis by (simp add: set_last_out set_size_out)
  qed
  have pool: "mem ?t x = mem ?s2 x" if "in_pool ?s2 x" for x
    using that heap_not_in_pool [of ?s2 x] fp(3) low [of x] by (cases "unat x < unat ?h") (auto simp: pt_wf_def)
  have o: "pt_wf ?s'" "sv48 ?s' = sv48 ?s2" "used ?s' = used ?s2"
    using pt_wf_outside [OF fp(3), of "mem ?t", OF pool] used_outside [of ?s2 "mem ?t", OF pool]
      pt_wf_cong [of ?s' "?s2\<lparr>mem := mem ?t\<rparr>"] by (simp_all add: set_size_def set_last_def)
  have sv: "sv48 ?s' v = (if ?h \<le> v \<and> v < ?h + 4096 then Some (f OR take_bit 12 v, 0xF) else sv48 s v)" for v
    unfolding o(2) fp(7) s0(3) using same_page_range [of ?h v]
    by (simp add: VIRTUAL_HEAP_START_def)
  have "heap_node ?h (?h + 4096) (mem ?s')"
  proof -
    have "get_size ?h (mem ?t) = get_size ?h (mem (set_size ?h 4096 ?s2))"
      by (rule bit_word_eqI) (auto simp: get_size_def set_last_def ld64_st64 bit_simps bit_1_iff)
    then show ?thesis
      using get_size_set_size [of 4096 ?h ?s2] by (simp add: heap_node_def VIRTUAL_HEAP_START_def)
  qed
  moreover have "heap_mapped ?s' (?h + 4096)"
    using fp(4) o(3) sv by (simp add: heap_mapped_def VIRTUAL_HEAP_START_def)
  ultimately have "heap_wf ?s'" using o(1) by (simp add: heap_wf_def)
  moreover have "sv48 ?s' v = sv48 s v" if "v < ?h \<or> ?h + 4096 \<le> v" for v
    unfolding sv using that by (auto simp: not_le)
  moreover have "mem ?s' x = mem s x" if "\<not> in_pool s x" "unat x < unat ?h" for x
    using fp(6) [of x] low [OF that(2)] that(1) by (simp add: s0_def log_eq state_simps)
  moreover have "managed_frames_address_start ?s' = managed_frames_address_start s"
    by (simp add: s0_def set_last_def set_size_def)
  ultimately show ?thesis
    using eq fp(5) o(3) s0(4)
    by (intro exI [of _ "?s'\<lparr>out := ty\<rparr>"]) (simp add: heap_wf_out state_simps)
qed

section \<open>Properties\<close>

text \<open>A boot state up to the heap, for the concrete instances.\<close>

definition sample_heap :: vheap where
  "sample_heap = paging.extend sample_paging \<lparr>free_list = 0, virtual_alloc_end = 0\<rparr>"

lemma sample_heap_ok: "phys_layout sample_heap" "frames_zero sample_heap" "used sample_heap = {}"
  by (simp_all add: sample_heap_def paging.defs sample_paging_def phys_layout_def phys_base_def
      VIRTUAL_OFFSET_def NFRAMES_def frames_zero_def used_def)

lemma sample_heap_paging:
  obtains s where "paging_init sample_heap = Some s" "pt_wf s" "card (used s) \<le> 2"
proof -
  have "card (used sample_heap) + 2 \<le> NFRAMES"
    by (simp add: sample_heap_ok NFRAMES_def)
  from paging_init_wf [OF sample_heap_ok(1,2) this] show ?thesis
    using that by (auto simp: sample_heap_ok)
qed

lemma sample_heap_wf:
  obtains s t where "paging_init sample_heap = Some s" "virtual_allocator_init s = Some t" "heap_wf t"
    "card (used t) \<le> 6" "free_list t = VIRTUAL_HEAP_START"
proof -
  obtain s where s: "paging_init sample_heap = Some s" "pt_wf s" "card (used s) \<le> 2"
    by (rule sample_heap_paging)
  then have "card (used s) + 4 \<le> NFRAMES" by (simp add: NFRAMES_def)
  from virtual_allocator_init_ok [OF s(2) this] show ?thesis
    using s that by fastforce
qed

text \<open>
  \<^verbatim>\<open>virtual_allocator_init\<close> on a well-formed address space with four free frames
  returns a well-formed heap that starts at \<^verbatim>\<open>VIRTUAL_HEAP_START\<close>, and leaves every
  translation outside the first heap page as it was.
\<close>

theorem virtual_allocator_init_heap:
  assumes "pt_wf s" and "card (used s) + 4 \<le> NFRAMES"
  shows "\<exists>s'. virtual_allocator_init s = Some s' \<and> heap_wf s' \<and> free_list s' = VIRTUAL_HEAP_START \<and>
    (\<forall>v. v < VIRTUAL_HEAP_START \<or> VIRTUAL_HEAP_START + 4096 \<le> v \<longrightarrow> sv48 s' v = sv48 s v)"
  using virtual_allocator_init_ok [OF assms] by blast

theorem virtual_allocator_init_heap_witness:
  "\<exists>s s'. paging_init sample_heap = Some s \<and> virtual_allocator_init s = Some s' \<and> heap_wf s'"
proof -
  obtain s where s: "paging_init sample_heap = Some s" "pt_wf s" "card (used s) \<le> 2"
    by (rule sample_heap_paging)
  then have "card (used s) + 4 \<le> NFRAMES" by (simp add: NFRAMES_def)
  from virtual_allocator_init_heap [OF s(2) this] s(1) show ?thesis by blast
qed

text \<open>
  C9: \<^verbatim>\<open>kalloc\<close>. On a well-formed heap with enough frames left (four per page of
  growth), an allocation of any size returns; the block starts sixteen bytes above the old free
  item, whose place is taken by the size and the magic number; the whole block is mapped readable,
  writable and executable; the heap stays well formed with its free item right after the block; and
  no byte of the heap below the old free item changes.
\<close>

theorem kalloc_correct:
  assumes "heap_wf s" and "kalloc_cost sz \<le> frames_left s"
  shows "\<exists>p s'. kalloc sz s = Some (p, s') \<and> p = free_list s + 16 \<and> heap_wf s' \<and>
    unat (free_list s') = unat p + unat sz \<and>
    ld64 (mem s') (p - 16) = sz \<and> ld64 (mem s') (p - 8) = 0xFEEBDAEDDEADBEEF \<and>
    (\<forall>v. p \<le> v \<and> v < p + sz \<longrightarrow> (\<exists>q. sv48 s' v = Some (q, 0xF))) \<and>
    (\<forall>x. VIRTUAL_HEAP_START \<le> x \<and> x < free_list s \<longrightarrow> mem s' x = mem s x)"
proof -
  let ?p = "free_list s + 16"
  obtain s' where s': "kalloc sz s = Some (?p, s')" "heap_wf s'" "free_list s' = ?p + sz"
    "unat (free_list s') = unat (free_list s) + 16 + unat sz"
    "ld64 (mem s') (free_list s) = sz" "ld64 (mem s') (free_list s + 8) = 0xFEEBDAEDDEADBEEF"
    using kalloc_facts [OF assms] by blast
  have p: "unat ?p = unat (free_list s) + 16"
    using heap_size(4) [OF assms(1)] unat_bound [of "virtual_alloc_end s"] by (simp add: unat_word_ariths)
  have h: "unat VIRTUAL_HEAP_START \<le> unat (free_list s)"
    using assms(1) by (simp add: heap_wf_def heap_node_def)
  have "\<exists>q. sv48 s' v = Some (q, 0xF)" if "?p \<le> v" "v < ?p + sz" for v
  proof -
    have "VIRTUAL_HEAP_START \<le> v" "v < virtual_alloc_end s'"
      using that p h s'(3) heap_size(4) [OF s'(2)] by (simp_all add: word_le_nat_alt word_less_nat_alt)
    then show ?thesis using s'(2) by (simp add: heap_wf_def heap_mapped_def)
  qed
  moreover have "mem s' x = mem s x" if "VIRTUAL_HEAP_START \<le> x" "x < free_list s" for x
    using that kh.alloc_keeps [OF assms s'(1), of x] by (simp add: word_le_nat_alt word_less_nat_alt)
  moreover have "?p - 16 = free_list s" "?p - 8 = free_list s + 8" by simp_all
  ultimately show ?thesis
    using s' p by (auto simp: add.commute)
qed

theorem kalloc_correct_witness:
  "\<exists>s p s'. Option.bind (paging_init sample_heap) virtual_allocator_init = Some s \<and>
     kalloc 10000 s = Some (p, s') \<and> p = VIRTUAL_HEAP_START + 16 \<and> heap_wf s'"
proof -
  obtain s t where t: "paging_init sample_heap = Some s" "virtual_allocator_init s = Some t" "heap_wf t"
    "card (used t) \<le> 6" "free_list t = VIRTUAL_HEAP_START"
    by (rule sample_heap_wf)
  have "kalloc_cost 10000 \<le> frames_left t"
    using t(4) by (simp add: kalloc_cost_def frames_left_def NFRAMES_def)
  from kalloc_correct [OF t(3) this] t show ?thesis by auto
qed

text \<open>A sequence of allocations.\<close>

fun kallocs :: "u64 list \<Rightarrow> 'a vheap_scheme \<Rightarrow> (u64 list \<times> 'a vheap_scheme) option" where
  "kallocs [] s = Some ([], s)"
| "kallocs (sz # szs) s = do {
     (p, s) \<leftarrow> kalloc sz s;
     (ps, s) \<leftarrow> kallocs szs s;
     Some (p # ps, s)
   }"

lemma kallocs_allocs: "kallocs szs s = kh.allocs szs s"
  by (induction szs arbitrary: s) (auto split: option.split bind_split)

text \<open>
  C16: any sequence of \<^verbatim>\<open>kalloc\<close> calls whose frames are available succeeds; the blocks lie
  one above the other (each ends below the start of every later one), above everything allocated
  before, and all the bytes of the heap allocated before keep their values.
\<close>

theorem kalloc_blocks_disjoint:
  assumes "heap_wf s" and "sum_list (map kalloc_cost szs) \<le> frames_left s"
  shows "\<exists>ps s'. kallocs szs s = Some (ps, s') \<and> heap_wf s' \<and> length ps = length szs \<and>
    (\<forall>i < length szs. unat (free_list s) < unat (ps ! i)) \<and>
    (\<forall>i j. i < j \<and> j < length szs \<longrightarrow> unat (ps ! i) + unat (szs ! i) < unat (ps ! j)) \<and>
    (\<forall>x. VIRTUAL_HEAP_START \<le> x \<and> x < free_list s \<longrightarrow> mem s' x = mem s x)"
proof -
  from kh.allocs_blocks [OF assms] obtain ps s' where r: "kallocs szs s = Some (ps, s')" "heap_wf s'"
    "length ps = length szs" "\<forall>i < length szs. unat (free_list s) < unat (ps ! i)"
    "sorted_wrt (\<lambda>(p, n) (q, k). unat p + unat n < unat q) (zip ps szs)"
    "\<And>x. unat VIRTUAL_HEAP_START \<le> unat x \<Longrightarrow> unat x < unat (free_list s) \<Longrightarrow> mem s' x = mem s x"
    unfolding kallocs_allocs by blast
  have "unat (ps ! i) + unat (szs ! i) < unat (ps ! j)" if "i < j" "j < length szs" for i j
    using sorted_wrt_nth_less [OF r(5) that(1)] that r(3) by simp
  with r show ?thesis by (auto simp: word_le_nat_alt word_less_nat_alt)
qed

theorem kalloc_blocks_disjoint_witness:
  "\<exists>s p q s'. Option.bind (paging_init sample_heap) virtual_allocator_init = Some s \<and>
     kallocs [5000, 24] s = Some ([p, q], s') \<and> unat p + 5000 < unat q"
proof -
  obtain s t where t: "paging_init sample_heap = Some s" "virtual_allocator_init s = Some t" "heap_wf t"
    "card (used t) \<le> 6"
    by (rule sample_heap_wf)
  have "sum_list (map kalloc_cost [5000, 24]) \<le> frames_left t"
    using t(4) by (simp add: kalloc_cost_def frames_left_def NFRAMES_def)
  from kalloc_blocks_disjoint [OF t(3) this] obtain ps s' where
    r: "kallocs [5000, 24] t = Some (ps, s')" "length ps = 2"
    "\<forall>i j. i < j \<and> j < length [5000, 24 :: u64] \<longrightarrow>
       unat (ps ! i) + unat ([5000, 24 :: u64] ! i) < unat (ps ! j)"
    by auto
  obtain p q where "ps = [p, q]"
    using r(2) by (auto simp: length_Suc_conv numeral_2_eq_2)
  with t(1,2) r(1) r(3) [rule_format, of 0 1] show ?thesis by auto
qed



text \<open>
  \<^verbatim>\<open>memcpy\<close> of regions that do not overlap stores exactly the source bytes at the
  destination, changes nothing else and returns the destination.
\<close>

theorem memcpy_copies:
  assumes "disj dest (unat len) src (unat len)"
  shows "memcpy dest src len s =
    (dest, s\<lparr>mem := store_bytes (mem s) dest (load_bytes (mem s) src (unat len))\<rparr>)"
proof -
  have "store_bytes (mem s) dest (load_bytes (mem s) src (unat (0 :: u64))) = mem s"
    by (simp add: store_bytes_def load_bytes_def)
  then show ?thesis
    using memcpy_loop_eq [OF assms, of 0 "mem s"] by (simp add: memcpy_def)
qed

theorem memcpy_copies_witness:
  "mem (snd (memcpy 0x1000 0x2000 3 (sample_heap\<lparr>mem := (\<lambda>_. 0)(0x2001 := 7)\<rparr>))) 0x1001 = 7"
proof -
  have "disj 0x1000 (unat (3 :: u64)) 0x2000 (unat (3 :: u64))"
    by (simp add: disj_def)
  then show ?thesis
    by (simp add: memcpy_copies store_bytes_def load_bytes_def upt_rec)
qed

text \<open>
  \<^verbatim>\<open>memset\<close> stores \<open>n\<close> copies of the low byte of its argument and changes nothing
  else, whatever \<open>n\<close> is, even when the region wraps around the address space.
\<close>

theorem memset_fills:
  "memset p c n s = (p, s\<lparr>mem := (\<lambda>x. if unat (x - p) < unat n then ucast c else mem s x)\<rparr>)"
  by (simp add: memset_def memset_loop_eq store_bytes_def fun_eq_iff)

end
