(* ===== verification/Heap_Frame.thy ===== *)
theory Heap_Frame
  imports Virt_Alloc
begin

text \<open>
  What an allocation leaves alone, for the components that use the kernel heap: every part of the
  state but the memory, the console output and the two heap pointers; and, when the log level hides
  the memory manager's messages, the console output too. \<open>kalloc_step\<close> bundles this with the
  facts about the block, and \<open>heap_store\<close> says what a client may overwrite.
\<close>

definition quiet :: "'a kio_scheme \<Rightarrow> bool" where
  "quiet s \<longleftrightarrow> logLevel s AND 14 = 0"

definition memory_only :: "'a kio_scheme \<Rightarrow> 'a kio_scheme \<Rightarrow> bool" where
  "memory_only s s' \<longleftrightarrow> s' = s\<lparr>mem := mem s', out := out s'\<rparr> \<and> (quiet s \<longrightarrow> out s' = out s)"

definition heap_only :: "'a vheap_scheme \<Rightarrow> 'a vheap_scheme \<Rightarrow> bool" where
  "heap_only s s' \<longleftrightarrow> s' = s\<lparr>mem := mem s', out := out s', free_list := free_list s',
     virtual_alloc_end := virtual_alloc_end s'\<rparr> \<and> (quiet s \<longrightarrow> out s' = out s)"

lemma quiet_level:
  assumes "quiet s" and "level = PAGING \<or> level = VIRTUAL_MEMORY \<or> level = PHYSICAL_MEMORY"
  shows "log_text (logLevel s) level fmt args = []"
proof -
  have "logLevel s AND b = 0" if "14 AND b = b" for b
  proof -
    have "logLevel s AND b = (logLevel s AND 14) AND b" by (simp only: and.assoc that)
    also have "\<dots> = 0" using assms(1) by (simp only: quiet_def) simp
    finally show ?thesis .
  qed
  from this [of 2] this [of 4] this [of 8] show ?thesis
    using assms(2) by (auto simp: log_text_def)
qed

lemma memory_only_trans [trans]:
  "memory_only s t \<Longrightarrow> memory_only t u \<Longrightarrow> memory_only s u"
  unfolding memory_only_def quiet_def
  by (cases s, cases t, cases u) simp

lemma heap_only_trans [trans]:
  "heap_only s t \<Longrightarrow> heap_only t u \<Longrightarrow> heap_only s u"
  unfolding heap_only_def quiet_def
  by (cases s, cases t, cases u) simp

lemma memory_only_heap_only: "memory_only s t \<Longrightarrow> heap_only s t"
  unfolding memory_only_def heap_only_def by (cases s, cases t) simp

lemma memory_only_refl [simp]: "memory_only s s"
  by (simp add: memory_only_def)

lemma memory_only_mem: "memory_only s (s\<lparr>mem := m\<rparr>)"
  by (simp add: memory_only_def)

lemma memory_only_log:
  "level = PAGING \<or> level = VIRTUAL_MEMORY \<or> level = PHYSICAL_MEMORY \<Longrightarrow>
   memory_only s (log level fmt args s)"
  by (auto simp: memory_only_def log_eq quiet_level)

lemma kalloc_frame_only: "kalloc_frame s = Some (f, s') \<Longrightarrow> memory_only s s'"
  by (auto simp: kalloc_frame_def set_pageframe_allocated_def Let_def split: bind_splits
      intro!: memory_only_trans [OF memory_only_mem memory_only_log])

lemma ensure_entry_only: "ensure_entry table index s = Some s' \<Longrightarrow> memory_only s s'"
  by (auto simp: ensure_entry_def setEntry_def split: if_splits bind_splits
      intro!: memory_only_trans [OF kalloc_frame_only memory_only_mem])

lemma map_page_only: "map_page page frame flag s = Some s' \<Longrightarrow> memory_only s s'"
  unfolding map_page_def Let_def setEntry_def
  by (auto split: bind_splits dest!: ensure_entry_only
      intro!: memory_only_trans [OF _ memory_only_mem] elim!: memory_only_trans [rotated]
      intro: memory_only_log)

lemma grow_once_only: "grow_once current s = Some s' \<Longrightarrow> heap_only s s'"
proof -
  assume "grow_once current s = Some s'"
  then obtain f s1 s2 where k: "kalloc_frame s = Some (f, s1)"
    "map_page (virtual_alloc_end s1) f 0xF s1 = Some s2"
    and s': "s' = (set_size current (get_size current (mem s2) + PAGE_SIZE) s2)\<lparr>virtual_alloc_end :=
      virtual_alloc_end s2 + PAGE_SIZE\<rparr>"
    by (auto simp: grow_once_def Let_def set_size_def split: bind_splits)
  have "heap_only s s2"
    by (rule memory_only_heap_only, rule memory_only_trans [OF kalloc_frame_only [OF k(1)] map_page_only [OF k(2)]])
  moreover have "heap_only s2 s'"
    unfolding s' by (simp add: heap_only_def set_size_def)
  ultimately show ?thesis by (rule heap_only_trans)
qed

lemma heap_only_refl [simp]: "heap_only s s"
  by (simp add: heap_only_def)

lemma grow_only:
  assumes "grow current sz s = Some s'"
  shows "heap_only s s'"
proof (rule grow.raw_induct [OF _ assms])
  fix rec current sz and s s' :: "'a vheap_scheme"
  assume IH: "\<And>current sz s s'. rec current sz s = Some s' \<Longrightarrow> heap_only s s'"
    and e: "(if get_size current (mem s) < sz + 32 then do {
        (new_frame, s) \<leftarrow> kalloc_frame s;
        s \<leftarrow> map_page (virtual_alloc_end s) new_frame 0xF s;
        let s = set_size current (get_size current (mem s) + PAGE_SIZE) s;
        let s = s\<lparr>virtual_alloc_end := virtual_alloc_end s + PAGE_SIZE\<rparr>;
        rec current sz s
      } else Some s) = Some s'"
  show "heap_only s s'"
  proof (cases "get_size current (mem s) < sz + 32")
    case False
    with e show ?thesis by simp
  next
    case True
    with e obtain t where "grow_once current s = Some t" "rec current sz t = Some s'"
      by (auto simp: grow_once_def Let_def split: bind_splits)
    then show ?thesis
      using IH grow_once_only heap_only_trans by blast
  qed
qed

lemma kalloc_only: "kalloc sz s = Some (p, s') \<Longrightarrow> heap_only s s'"
proof -
  assume a: "kalloc sz s = Some (p, s')"
  then obtain c t where c: "(if is_last c (mem s) \<and> get_size c (mem s) < sz + 32
      then grow c sz s else Some s) = Some t"
    and s': "\<exists>m. s' = log VIRTUAL_MEMORY ''Allocated %i bytes at 0x%x'' [VInt sz, VInt (c + 16)]
      (t\<lparr>mem := m, free_list := c + 16 + sz\<rparr>)"
    by (auto simp: kalloc_def Let_def set_size_def set_last_def split: bind_splits)
  have "heap_only s t"
    using c grow_only by (auto split: if_splits)
  moreover obtain m where m: "s' = log VIRTUAL_MEMORY ''Allocated %i bytes at 0x%x''
      [VInt sz, VInt (c + 16)] (t\<lparr>mem := m, free_list := c + 16 + sz\<rparr>)" (is "_ = log _ _ _ ?u")
    using s' by blast
  have "heap_only t ?u" by (simp add: heap_only_def)
  moreover have "heap_only ?u s'"
    unfolding m by (rule memory_only_heap_only, rule memory_only_log) simp
  ultimately show ?thesis using heap_only_trans by blast
qed

text \<open>An allocation, as its clients use it.\<close>

lemma kalloc_step:
  assumes wf: "heap_wf s" and room: "kalloc_cost sz \<le> frames_left s"
  obtains s' where "kalloc sz s = Some (free_list s + 16, s')" "heap_wf s'" "heap_only s s'"
    "unat (free_list s') = unat (free_list s) + 16 + unat sz" "free_list s' = free_list s + 16 + sz"
    "frames_left s \<le> frames_left s' + kalloc_cost sz"
    "\<And>x. \<not> in_pool s x \<Longrightarrow> 16 \<le> unat (x - free_list s) \<Longrightarrow> 8 \<le> unat (x - free_list s') \<Longrightarrow> mem s' x = mem s x"
    "in_pool s' = in_pool s"
  using kalloc_facts [OF assms] kalloc_only by (force simp: frames_left_def)

section \<open>What clients may write\<close>

lemma heap_base: "heap_wf s \<Longrightarrow> unat VIRTUAL_HEAP_START \<le> unat (free_list s)"
  by (simp add: heap_wf_def heap_node_def)

lemma heap_top: "heap_wf s \<Longrightarrow> unat (free_list s) + 16 \<le> unat VIRTUAL_HEAP_START + 2 ^ 27"
  using heap_size(4) [of s] heap_end_bound [of s "virtual_alloc_end s"] by (simp add: heap_wf_def)

text \<open>Stores into allocated blocks: the invariant, the translation and the frame count are kept.\<close>

lemma heap_store:
  assumes wf: "heap_wf s" and a: "unat VIRTUAL_HEAP_START \<le> unat a"
    "unat a + length bs \<le> unat (free_list s)"
  shows "heap_wf (s\<lparr>mem := store_bytes (mem s) a bs\<rparr>)"
    "sv48 (s\<lparr>mem := store_bytes (mem s) a bs\<rparr>) = sv48 s"
    "frames_left (s\<lparr>mem := store_bytes (mem s) a bs\<rparr>) = frames_left s"
proof -
  have out: "store_bytes (mem s) a bs x = mem s x"
    if "in_pool s x \<or> unat (x - free_list s) < 8" for x
  proof (rule store_bytes_out, rule ccontr)
    assume "\<not> length bs \<le> unat (x - a)"
    then have "unat x = unat a + unat (x - a)" "unat (x - a) < length bs"
      using a(2) unat_bound [of "free_list s"] by (auto intro!: unat_in_range [of x a "length bs"])
    then show False
      using that heap_below_free [OF wf, of x] a by auto
  qed
  note w = heap_wf_write [OF wf, of "store_bytes (mem s) a bs"]
  show "heap_wf (s\<lparr>mem := store_bytes (mem s) a bs\<rparr>)"
    "sv48 (s\<lparr>mem := store_bytes (mem s) a bs\<rparr>) = sv48 s"
    "frames_left (s\<lparr>mem := store_bytes (mem s) a bs\<rparr>) = frames_left s"
    using w out by (simp_all add: frames_left_def)
qed

text \<open>Where the pool of frames lies.\<close>

lemma pool_start:
  assumes "phys_layout s"
  shows "unat (managed_frames_address_start s) = unat VIRTUAL_OFFSET + unat (phys_base s)"
proof -
  have "managed_frames_address_start s = VIRTUAL_OFFSET + phys_base s" by (simp add: phys_base_def)
  then show ?thesis
    using assms by (simp only: unat_word_ariths) (simp add: phys_layout_def VIRTUAL_OFFSET_def)
qed

lemma pool_top:
  assumes "phys_layout s"
  shows "unat (managed_frames_address_start s) + (32768 + 4096 * NFRAMES) \<le> 2 ^ 64"
  using assms pool_start [OF assms] by (simp add: phys_layout_def VIRTUAL_OFFSET_def)

text \<open>User memory is the lower half of the address space: no pool, no heap.\<close>

lemma low_outside:
  assumes wf: "heap_wf s" and x: "unat x < 2 ^ 47"
  shows "\<not> in_pool s x" "16 \<le> unat (x - free_list s)"
proof -
  have lay: "phys_layout s" using wf by (simp add: heap_wf_def pt_wf_def)
  note b = pool_start [OF lay]
  show "\<not> in_pool s x"
  proof
    assume "in_pool s x"
    then have "unat x = unat (managed_frames_address_start s) + unat (x - managed_frames_address_start s)"
      unfolding in_pool_def using pool_top [OF lay] by (rule unat_in_range)
    with b x show False by (simp add: VIRTUAL_OFFSET_def)
  qed
  show "16 \<le> unat (x - free_list s)"
  proof (rule ccontr)
    assume "\<not> 16 \<le> unat (x - free_list s)"
    then have "unat x = unat (free_list s) + unat (x - free_list s)"
      using heap_top [OF wf] by (intro unat_in_range [of _ _ 16]) (simp_all add: VIRTUAL_HEAP_START_def)
    with x heap_base [OF wf] show False by (simp add: VIRTUAL_HEAP_START_def)
  qed
qed

lemma kalloc_keeps_low:
  assumes "heap_wf s" and "kalloc_cost sz \<le> frames_left s" and "kalloc sz s = Some (p, s')"
    and "unat x < 2 ^ 47"
  shows "mem s' x = mem s x"
proof -
  obtain t where t: "kalloc sz s = Some (free_list s + 16, t)" "heap_wf t"
    "\<And>x. \<not> in_pool s x \<Longrightarrow> 16 \<le> unat (x - free_list s) \<Longrightarrow> 8 \<le> unat (x - free_list t) \<Longrightarrow> mem t x = mem s x"
    using kalloc_step [OF assms(1,2)] by metis
  show ?thesis
    using t assms(3) low_outside [OF assms(1,4)] low_outside(2) [OF t(2) assms(4)] by simp
qed

text \<open>The translation of addresses below the heap survives an allocation.\<close>

lemma kalloc_sv48_low:
  assumes "heap_wf s" and "kalloc_cost sz \<le> frames_left s" and "kalloc sz s = Some (p, s')"
    and "unat x < 2 ^ 47"
  shows "sv48 s' x = sv48 s x"
proof -
  have "x < virtual_alloc_end s"
    using assms(4) heap_base [OF assms(1)] heap_size(4) [OF assms(1)]
    by (simp add: word_less_nat_alt VIRTUAL_HEAP_START_def)
  then show ?thesis
    using kalloc_facts [OF assms(1,2)] assms(3) by auto
qed

lemma load_bytes_0 [simp]: "load_bytes m a 0 = []"
  by (simp add: load_bytes_def)

lemma store_bytes_Nil [simp]: "store_bytes m a [] = m"
  by (simp add: store_bytes_def)

lemma memcpy_store:
  assumes "disj dest (unat len) src (unat len)"
  shows "snd (memcpy dest src len s) = s\<lparr>mem := store_bytes (mem s) dest (load_bytes (mem s) src (unat len))\<rparr>"
  using memcpy_loop_eq [OF assms, of 0 "mem s"] by (simp add: memcpy_def)

section \<open>User pages\<close>

lemma low_page:
  assumes "unat va < 2 ^ 47"
  shows "canonical va" "\<not> direct va"
proof -
  have b: "\<not> bit va n" if "47 \<le> n" for n
    using small_bits [OF assms, of n] that by force
  then have "drop_bit 47 va = 0"
    by (intro bit_word_eqI) (simp add: bit_simps)
  then show "canonical va" by (simp add: canonical_def)
  have "\<not> bit (vpn 3 va) 8"
    using b [of 47] by (simp add: vpn_def bit_simps)
  moreover have "bit (256 :: u64) 8" by simp
  ultimately show "\<not> direct va" unfolding direct_def by metis
qed

lemma low_store:
  assumes wf: "heap_wf s" and a: "unat a + length bs \<le> 2 ^ 47"
  shows "heap_wf (s\<lparr>mem := store_bytes (mem s) a bs\<rparr>)"
    "sv48 (s\<lparr>mem := store_bytes (mem s) a bs\<rparr>) = sv48 s"
    "frames_left (s\<lparr>mem := store_bytes (mem s) a bs\<rparr>) = frames_left s"
proof -
  have out: "store_bytes (mem s) a bs x = mem s x"
    if "in_pool s x \<or> unat (x - free_list s) < 8" for x
  proof (rule store_bytes_out, rule ccontr)
    assume "\<not> length bs \<le> unat (x - a)"
    moreover from this have "unat x = unat a + unat (x - a)"
      using a by (intro unat_in_range [of x a "length bs"]) auto
    ultimately have "unat x < 2 ^ 47" using a by simp
    with that show False using low_outside [OF wf, of x] by auto
  qed
  show "heap_wf (s\<lparr>mem := store_bytes (mem s) a bs\<rparr>)"
    "sv48 (s\<lparr>mem := store_bytes (mem s) a bs\<rparr>) = sv48 s"
    "frames_left (s\<lparr>mem := store_bytes (mem s) a bs\<rparr>) = frames_left s"
    using heap_wf_write [OF wf, of "store_bytes (mem s) a bs"] out by (simp_all add: frames_left_def)
qed

text \<open>A fresh frame behind a user page.\<close>

lemma user_page_ok:
  assumes wf: "heap_wf s" and room: "4 \<le> frames_left s" and va: "unat va < 2 ^ 47"
    and flag: "flag < 0x400" "bit flag 1"
  obtains f s1 s' where "kalloc_frame s = Some (f, s1)" "map_page va f flag s1 = Some s'" "heap_wf s'"
    "memory_only s s'" "frames_left s \<le> frames_left s' + 4" "in_pool s' = in_pool s"
    "\<And>x. \<not> in_pool s x \<Longrightarrow> mem s' x = mem s x"
    "\<And>v. sv48 s' v = (if drop_bit 12 v = drop_bit 12 va
       then Some (f OR take_bit 12 v, (1 OR ucast flag) AND 0x1F) else sv48 s v)"
proof -
  have pt: "pt_wf s" using wf by (simp add: heap_wf_def)
  have "card (used s) + 4 \<le> NFRAMES" using room by (simp add: frames_left_def)
  from fresh_page [OF pt this low_page [OF va] flag] obtain f s1 m tx where fp:
    "kalloc_frame s = Some (f, s1)" "map_page va f flag s1 = Some (s\<lparr>mem := m, out := tx\<rparr>)"
    "pt_wf (s\<lparr>mem := m, out := tx\<rparr>)"
    "card (used s) + 1 \<le> card (used (s\<lparr>mem := m, out := tx\<rparr>))"
    "card (used (s\<lparr>mem := m, out := tx\<rparr>)) \<le> card (used s) + 4"
    "\<And>x. \<not> in_pool s x \<Longrightarrow> m x = mem s x"
    "\<And>v. sv48 (s\<lparr>mem := m, out := tx\<rparr>) v = (if drop_bit 12 v = drop_bit 12 va
       then Some (f OR take_bit 12 v, (1 OR ucast flag) AND 0x1F) else sv48 s v)"
    unfolding Let_def by blast
  let ?s' = "s\<lparr>mem := m, out := tx\<rparr>"
  have mo: "memory_only s ?s'"
    using memory_only_trans [OF kalloc_frame_only [OF fp(1)] map_page_only [OF fp(2)]] .
  have free: "\<not> in_pool s x" if "unat (x - free_list s) < 8" for x
  proof -
    have "unat x = unat (free_list s) + unat (x - free_list s)"
      using that heap_top [OF wf] by (intro unat_in_range [of _ _ 8]) (simp_all add: VIRTUAL_HEAP_START_def)
    then show ?thesis
      using heap_not_in_pool [of s x] heap_base [OF wf] pt by (simp add: pt_wf_def)
  qed
  have "is_last (free_list s) m = is_last (free_list s) (mem s)"
    "get_size (free_list s) m = get_size (free_list s) (mem s)"
    by (rule node_cong; use free fp(6) in blast)+
  moreover have "drop_bit 12 v \<noteq> drop_bit 12 va" if "VIRTUAL_HEAP_START \<le> v" for v
  proof
    assume "drop_bit 12 v = drop_bit 12 va"
    from arg_cong [OF this, of unat] have "unat v div 4096 = unat va div 4096"
      by (simp add: drop_bit_eq_div unat_div)
    moreover have "unat va div 4096 < 2 ^ 35" using va by auto
    moreover have "2 ^ 35 \<le> unat v div 4096"
      using that by (simp add: word_le_nat_alt VIRTUAL_HEAP_START_def)
    ultimately show False by simp
  qed
  ultimately have "heap_wf ?s'"
    using wf fp(3,4,7) by (auto simp: heap_wf_def heap_node_def heap_mapped_def)
  then show ?thesis
    using fp mo by (intro that [of f s1 ?s']) (auto simp: frames_left_def state_simps)
qed

section \<open>The state after the memory managers are up\<close>

definition space_only :: "'a paging_scheme \<Rightarrow> 'a paging_scheme \<Rightarrow> bool" where
  "space_only s s' \<longleftrightarrow> s' = s\<lparr>mem := mem s', out := out s', first_level_table := first_level_table s',
     satp := satp s'\<rparr> \<and> (quiet s \<longrightarrow> out s' = out s)"

lemma space_only_trans [trans]: "space_only s t \<Longrightarrow> space_only t u \<Longrightarrow> space_only s u"
  unfolding space_only_def quiet_def by (cases s, cases t, cases u) simp

lemma memory_only_space_only: "memory_only s t \<Longrightarrow> space_only s t"
  unfolding memory_only_def space_only_def by (cases s, cases t) simp

lemma setup_loop_only: "memory_only s (setup_loop first_table second_table page s)"
proof (induction first_table second_table page s rule: setup_loop.induct)
  case (1 first_table second_table page s)
  have "memory_only s (map_page_for_setup first_table second_table page (page - VIRTUAL_OFFSET) s)"
    unfolding map_page_for_setup_def Let_def setEntry_def
    by (rule memory_only_trans [OF memory_only_trans [OF memory_only_log memory_only_mem] memory_only_mem]) simp
  with 1 show ?case
    by (subst setup_loop.simps) (auto intro: memory_only_trans)
qed

lemma paging_init_only: "paging_init s = Some s' \<Longrightarrow> space_only s s'"
proof -
  assume "paging_init s = Some s'"
  then obtain f g s2 s3 where k: "kalloc_frame (log PAGING ''Initialising paging'' [] s) = Some (f, s2)"
    "kalloc_frame s2 = Some (g, s3)"
    and s': "s' = (let a = f + VIRTUAL_OFFSET; b = g + VIRTUAL_OFFSET;
       s = log PAGING ''Second level table: 0x%x'' [VInt b]
         (log PAGING ''First level table: 0x%x'' [VInt a] (s3\<lparr>first_level_table := a\<rparr>));
       s = setup_loop a b VIRTUAL_OFFSET s
     in log PAGING ''Paging initializion done'' [] (switch_to_new_page_table (frame_get_ppn f) s))"
    by (auto simp: paging_init_def Let_def split: bind_splits)
  have log: "space_only s (log PAGING fmt args s)" for fmt args s
    by (rule memory_only_space_only, rule memory_only_log) simp
  have "space_only s s3"
    using space_only_trans [OF space_only_trans [OF log]] k
      memory_only_space_only [OF kalloc_frame_only] by blast
  also have "space_only s3 (s3\<lparr>first_level_table := f + VIRTUAL_OFFSET\<rparr>)" (is "space_only _ ?s4")
    by (simp add: space_only_def)
  also have "space_only ?s4 (log PAGING ''First level table: 0x%x'' [VInt (f + VIRTUAL_OFFSET)] ?s4)"
    (is "space_only _ ?s5") by (rule log)
  also have "space_only ?s5 (log PAGING ''Second level table: 0x%x'' [VInt (g + VIRTUAL_OFFSET)] ?s5)"
    (is "space_only _ ?s6") by (rule log)
  also have "space_only ?s6 (setup_loop (f + VIRTUAL_OFFSET) (g + VIRTUAL_OFFSET) VIRTUAL_OFFSET ?s6)"
    (is "space_only _ ?s7") by (rule memory_only_space_only [OF setup_loop_only])
  also have "space_only ?s7 (switch_to_new_page_table (frame_get_ppn f) ?s7)" (is "space_only _ ?s8")
    by (simp add: space_only_def switch_to_new_page_table_def)
  also have "space_only ?s8 s'" unfolding s' Let_def by (rule log)
  finally show ?thesis .
qed

lemma virtual_allocator_init_only: "virtual_allocator_init s = Some s' \<Longrightarrow> heap_only s s'"
proof -
  assume "virtual_allocator_init s = Some s'"
  then obtain f s2 s3 where k: "kalloc_frame (log VIRTUAL_MEMORY ''Initialising virtual allocator'' [] s) = Some (f, s2)"
    "map_page VIRTUAL_HEAP_START f 0xF s2 = Some s3"
    and s': "s' = log VIRTUAL_MEMORY ''Initialization of virtual allocator done'' []
       (log VIRTUAL_MEMORY (''Virtual alloc end: 0x%x'' @ [CHR 0x0A]) [VInt (VIRTUAL_HEAP_START + PAGE_SIZE)]
         ((set_last VIRTUAL_HEAP_START (set_size VIRTUAL_HEAP_START PAGE_SIZE s3))
            \<lparr>free_list := VIRTUAL_HEAP_START, virtual_alloc_end := VIRTUAL_HEAP_START + PAGE_SIZE\<rparr>))"
    by (auto simp: virtual_allocator_init_def Let_def split: bind_splits)
  have log: "heap_only s (log VIRTUAL_MEMORY fmt args s)" for fmt args s
    by (rule memory_only_heap_only, rule memory_only_log) simp
  have "heap_only s s3"
    using heap_only_trans [OF heap_only_trans [OF log]] k memory_only_heap_only [OF kalloc_frame_only]
      memory_only_heap_only [OF map_page_only] by blast
  moreover have "heap_only s3 s'"
    unfolding s'
    by (rule heap_only_trans [OF heap_only_trans [OF _ log] log])
      (simp add: heap_only_def set_last_def set_size_def)
  ultimately show ?thesis by (rule heap_only_trans)
qed

text \<open>From a laid out, empty frame allocator to a heap: nothing else of the state changes.\<close>

lemma boot_heap:
  assumes "phys_layout s" and "frames_zero s" and "used s = {}"
  obtains s1 t where "paging_init s = Some s1" "virtual_allocator_init s1 = Some t" "heap_wf t"
    "frames_left t \<ge> NFRAMES - 6" "free_list t = VIRTUAL_HEAP_START" "vheap.more t = vheap.more s"
    "logLevel t = logLevel s" "quiet s \<Longrightarrow> out t = out s"
    "\<forall>v. unat v < 2 ^ 47 \<longrightarrow> sv48 t v = None"
    "\<forall>v. v < VIRTUAL_HEAP_START \<longrightarrow> sv48 t v = (if canonical v \<and> direct v
       then Some (push_bit 30 (vpn 2 v) OR take_bit 30 v, 0xF) else None)"
proof -
  have "card (used s) + 2 \<le> NFRAMES" using assms(3) by (simp add: NFRAMES_def)
  from paging_init_wf [OF assms(1,2) this] obtain s1 where s1: "paging_init s = Some s1" "pt_wf s1"
    "card (used s1) \<le> 2" "\<forall>v. sv48 s1 v = (if canonical v \<and> direct v
       then Some (push_bit 30 (vpn 2 v) OR take_bit 30 v, 0xF) else None)" using assms(3) by auto
  then have "card (used s1) + 4 \<le> NFRAMES" by (simp add: NFRAMES_def)
  from virtual_allocator_init_ok [OF s1(2) this] obtain t where t: "virtual_allocator_init s1 = Some t"
    "heap_wf t" "free_list t = VIRTUAL_HEAP_START" "card (used t) \<le> card (used s1) + 4"
    "\<forall>v. v < VIRTUAL_HEAP_START \<or> VIRTUAL_HEAP_START + 4096 \<le> v \<longrightarrow> sv48 t v = sv48 s1 v" by blast
  have sv: "sv48 t v = None" if "unat v < 2 ^ 47" for v
    using t(5) s1(4) low_page(2) [OF that] that by (simp add: word_less_nat_alt VIRTUAL_HEAP_START_def)
  have sv': "\<forall>v. v < VIRTUAL_HEAP_START \<longrightarrow> sv48 t v = (if canonical v \<and> direct v
       then Some (push_bit 30 (vpn 2 v) OR take_bit 30 v, 0xF) else None)"
    using t(5) s1(4) by metis
  note o = paging_init_only [OF s1(1)] virtual_allocator_init_only [OF t(1)]
  have ex: "vheap.more t = vheap.more s" "logLevel t = logLevel s" "quiet s \<Longrightarrow> out t = out s"
    using o unfolding space_only_def heap_only_def quiet_def by (cases s, cases s1, cases t, simp)+
  have "frames_left t \<ge> NFRAMES - 6" using t(4) s1(3) by (simp add: frames_left_def)
  with t(2,3) ex sv show ?thesis by (intro that [OF s1(1) t(1) _ _ _ _ _ _ _ sv']) simp_all
qed

text \<open>The same with a user page that holds given bytes, for the concrete instances of later theories.\<close>

lemma boot_user_page:
  fixes s :: "'a vheap_scheme"
  assumes "phys_layout s" and "frames_zero s" and "used s = {}" and "quiet s" and "length bs \<le> 4096"
  obtains t :: "'a vheap_scheme" where "heap_wf t" "NFRAMES - 10 \<le> frames_left t" "vheap.more t = vheap.more s"
    "logLevel t = logLevel s" "out t = out s" "load_bytes (mem t) 0x400000 (length bs) = bs"
    "\<forall>v. drop_bit 12 v = drop_bit 12 0x400000 \<longrightarrow> sv48 t v \<noteq> None"
proof -
  obtain r t :: "'a vheap_scheme" where t: "heap_wf t" "frames_left t \<ge> NFRAMES - 6" "vheap.more t = vheap.more s"
    "logLevel t = logLevel s" "out t = out s"
    using boot_heap [OF assms(1-3)] assms(4) by metis
  have room: "4 \<le> frames_left t" using t(2) by (simp add: NFRAMES_def)
  have "unat (0x400000 :: u64) < 2 ^ 47" "(0x1F :: u16) < 0x400" "bit (0x1F :: u16) 1" by simp_all
  from user_page_ok [OF t(1) room this] obtain f and u1 u :: "'a vheap_scheme" where u: "heap_wf u" "memory_only t u"
    "frames_left t \<le> frames_left u + 4"
    "\<forall>v. sv48 u v = (if drop_bit 12 v = drop_bit 12 0x400000
       then Some (f OR take_bit 12 v, (1 OR ucast (0x1F :: u16)) AND 0x1F) else sv48 t v)"
    by metis
  let ?u = "u\<lparr>mem := store_bytes (mem u) 0x400000 bs\<rparr>"
  have "unat (0x400000 :: u64) + length bs \<le> 2 ^ 47" using assms(5) by simp
  note ls = low_store [OF u(1) this]
  have q: "quiet t" using assms(4) t(4) by (simp add: quiet_def)
  then have e: "logLevel u = logLevel t" "out u = out t" "vheap.more u = vheap.more t"
    using u(2) unfolding memory_only_def by (cases t, cases u, simp)+
  have "load_bytes (mem ?u) 0x400000 (length bs) = bs"
    using assms(5) by (simp add: load_store_same)
  moreover have "\<forall>v. drop_bit 12 v = drop_bit 12 0x400000 \<longrightarrow> sv48 ?u v \<noteq> None"
    unfolding ls(2) using u(4) by simp
  moreover have "NFRAMES - 10 \<le> frames_left ?u" unfolding ls(3) using u(3) t(2) by simp
  ultimately show ?thesis
    using ls(1) e t by (intro that [of ?u]) simp_all
qed

end
