(* ===== verification/Phys_Map.thy ===== *)
theory Phys_Map
  imports Heap_Frame
begin

text \<open>
  Where mapped pages lie in physical memory, for the components that hand physical addresses to a
  device. The invariant \<open>phys_ok\<close>: the direct map is in force, every other mapped page lies in
  a frame in use that holds no page table, and no two pages share a frame. It holds after start-up
  and is kept by allocations, by mapping fresh user pages and by stores outside the pool of frames;
  with it a transfer by DMA into a heap buffer changes the bytes of the buffer, their copy in the
  direct map, and nothing else.
\<close>

section \<open>The invariant\<close>

definition direct_ok :: "'a paging_scheme \<Rightarrow> bool" where
  "direct_ok s \<longleftrightarrow> (\<forall>v. canonical v \<and> direct v \<longrightarrow> sv48 s v = Some (push_bit 30 (vpn 2 v) OR take_bit 30 v, 0xF))"

definition leaf_ok :: "'a paging_scheme \<Rightarrow> bool" where
  "leaf_ok s \<longleftrightarrow> (\<forall>v p fl. \<not> direct v \<and> sv48 s v = Some (p, fl) \<longrightarrow>
     (\<exists>i \<in> used s. \<not> table_frame s i \<and>
       (\<forall>w. drop_bit 12 w = drop_bit 12 v \<longrightarrow> sv48 s w = Some (frame_addr s i OR take_bit 12 w, fl))))"

definition leaf_inj :: "'a paging_scheme \<Rightarrow> bool" where
  "leaf_inj s \<longleftrightarrow> (\<forall>v v' p p' fl fl'. \<not> direct v \<and> \<not> direct v' \<and> sv48 s v = Some (p, fl) \<and>
     sv48 s v' = Some (p', fl') \<and> drop_bit 12 p = drop_bit 12 p' \<longrightarrow> drop_bit 12 v = drop_bit 12 v')"

definition phys_ok :: "'a paging_scheme \<Rightarrow> bool" where
  "phys_ok s \<longleftrightarrow> direct_ok s \<and> leaf_ok s \<and> leaf_inj s"

lemma leaf_okE:
  assumes "phys_ok s" and "\<not> direct v" and "sv48 s v = Some (p, fl)"
  obtains i where "i \<in> used s" "\<not> table_frame s i" "p = frame_addr s i OR take_bit 12 v"
    "\<forall>w. drop_bit 12 w = drop_bit 12 v \<longrightarrow> sv48 s w = Some (frame_addr s i OR take_bit 12 w, fl)"
proof -
  obtain i where i: "i \<in> used s" "\<not> table_frame s i"
    "\<forall>w. drop_bit 12 w = drop_bit 12 v \<longrightarrow> sv48 s w = Some (frame_addr s i OR take_bit 12 w, fl)"
    using assms unfolding phys_ok_def leaf_ok_def by blast
  moreover from i(3) assms(3) have "p = frame_addr s i OR take_bit 12 v" by auto
  ultimately show ?thesis using that by blast
qed

lemma phys_ok_cong:
  assumes "sv48 s' = sv48 s" and "used s' = used s" and "frame_addr s' = frame_addr s"
    and "\<And>i. i \<in> used s \<Longrightarrow> table_frame s' i \<Longrightarrow> table_frame s i"
    and "phys_ok s"
  shows "phys_ok s'"
proof -
  have "leaf_ok s'"
    using assms(5) unfolding phys_ok_def leaf_ok_def assms(1-3) using assms(4) by blast
  moreover have "direct_ok s'" "leaf_inj s'"
    using assms(5) unfolding phys_ok_def direct_ok_def leaf_inj_def assms(1) by blast+
  ultimately show ?thesis by (simp add: phys_ok_def)
qed

lemma phys_ok_fields:
  assumes "mem s' = mem s" "first_level_table s' = first_level_table s"
    "managed_frames_address_start s' = managed_frames_address_start s"
    "first_frame_address s' = first_frame_address s"
    and "phys_ok s"
  shows "phys_ok s'"
proof (rule phys_ok_cong [OF _ _ _ _ assms(5)])
  show "sv48 s' = sv48 s" "used s' = used s" by (rule pt_wf_cong [OF assms(1-4)])+
  show fa: "frame_addr s' = frame_addr s" using assms by (simp add: frame_addr_def fun_eq_iff)
  show "table_frame s i" if "table_frame s' i" for i
    using that assms fa by (simp add: table_frame_def page_of_def)
qed

lemma phys_ok_out [simp]: "phys_ok (s\<lparr>out := t\<rparr>) = phys_ok s"
  using phys_ok_fields [of s "s\<lparr>out := t\<rparr>"] phys_ok_fields [of "s\<lparr>out := t\<rparr>" s] by auto

lemma frame_addr_cong' [state_simps]:
  "frame_addr (s\<lparr>mem := m\<rparr>) = frame_addr s" "frame_addr (s\<lparr>out := t\<rparr>) = frame_addr s"
  by (simp_all add: frame_addr_def fun_eq_iff)

lemma phys_ok_kept:
  assumes "pt_wf s" and "\<And>x. in_pool s x \<Longrightarrow> \<not> data_page s x \<Longrightarrow> m x = mem s x" and "phys_ok s"
  shows "phys_ok (s\<lparr>mem := m\<rparr>)"
proof (rule phys_ok_cong [OF _ _ _ _ assms(3)])
  note k = pt_wf_kept [OF assms(1,2)]
  show "sv48 (s\<lparr>mem := m\<rparr>) = sv48 s" by (rule k)
  show "used (s\<lparr>mem := m\<rparr>) = used s"
    using assms(1) by (intro used_kept assms(2)) (simp_all add: pt_wf_def)
  show "table_frame s i" if "table_frame (s\<lparr>mem := m\<rparr>) i" for i
    using that fun_cong [OF k(3), of i] by simp
qed (simp add: state_simps)

lemma phys_ok_outside:
  assumes "pt_wf s" and "\<And>x. in_pool s x \<Longrightarrow> m x = mem s x" and "phys_ok s"
  shows "phys_ok (s\<lparr>mem := m\<rparr>)"
  by (rule phys_ok_kept [OF assms(1) _ assms(3)], rule assms(2), assumption)

section \<open>Mapping a page to a fresh frame\<close>

lemma frame_addr_page:
  assumes "phys_layout s" and "i < NFRAMES"
  shows "drop_bit 12 (frame_addr s i OR take_bit 12 v) = drop_bit 12 (frame_addr s i)"
    and "take_bit 12 (frame_addr s i) = 0"
proof -
  have "4096 dvd unat (frame_addr s i)"
    using assms unat_frame_addr [OF assms] by (auto simp: phys_layout_def intro!: dvd_add)
  then show "take_bit 12 (frame_addr s i) = 0"
    by (simp add: word_unat_eq_iff unat_take_bit take_bit_eq_0_iff)
  show "drop_bit 12 (frame_addr s i OR take_bit 12 v) = drop_bit 12 (frame_addr s i)"
    by (rule bit_word_eqI) (auto simp: bit_simps)
qed

lemma frame_addr_or:
  assumes "phys_layout s" and "i < NFRAMES"
  shows "frame_addr s i OR take_bit 12 v = frame_addr s i + take_bit 12 v"
proof -
  have "\<not> bit (frame_addr s i) n" if "n < 12" for n
    using frame_addr_page(2) [OF assms] that
    by (metis bit_take_bit_iff bit_0_eq bot_apply bot_bool_def)
  then have "frame_addr s i AND take_bit 12 v = 0"
    by (intro bit_word_eqI) (auto simp: bit_simps)
  then show ?thesis by (rule disjunctive_add_eq_or [symmetric])
qed

lemma frame_addr_eq_iff:
  assumes "phys_layout s" and "i < NFRAMES" "j < NFRAMES"
    and "drop_bit 12 (frame_addr s i) = drop_bit 12 (frame_addr s j)"
  shows "i = j"
proof -
  have "frame_addr s i = frame_addr s j"
    using assms(4) frame_addr_page(2) [OF assms(1,2)] frame_addr_page(2) [OF assms(1,3)]
      bits_ident [of 12 "frame_addr s i"] bits_ident [of 12 "frame_addr s j"] by metis
  then show ?thesis using frame_addr_inj [OF assms(1-3)] by simp
qed

lemma direct_page: "drop_bit 12 v = drop_bit 12 va \<Longrightarrow> direct v = direct va"
proof -
  assume a: "drop_bit 12 v = drop_bit 12 va"
  have "drop_bit (12 + k) v = drop_bit (12 + k) va" for k
    using arg_cong [OF a, of "drop_bit k"] by (simp add: add.commute)
  from this [of 27] this [of 18] show ?thesis by (simp add: direct_def vpn_def)
qed

lemma phys_ok_fresh:
  assumes ok: "phys_ok s" and lay: "phys_layout s" and va: "\<not> direct va"
    and k: "k < NFRAMES" "k \<notin> used s" "k \<in> used s'" "\<not> table_frame s' k"
    and old: "used s \<subseteq> used s'" "\<forall>i \<in> used s. table_frame s' i \<longrightarrow> table_frame s i" "frame_addr s' = frame_addr s"
    and sv: "\<And>v. sv48 s' v = (if drop_bit 12 v = drop_bit 12 va then Some (frame_addr s k OR take_bit 12 v, fl) else sv48 s v)"
  shows "phys_ok s'"
proof -
  have "direct_ok s'"
    unfolding direct_ok_def
  proof (intro allI impI)
    fix v assume v: "canonical v \<and> direct v"
    then have "drop_bit 12 v \<noteq> drop_bit 12 va" using direct_page va by blast
    with v ok show "sv48 s' v = Some (push_bit 30 (vpn 2 v) OR take_bit 30 v, 0xF)"
      by (simp add: sv phys_ok_def direct_ok_def)
  qed
  moreover have "leaf_ok s'"
    unfolding leaf_ok_def
  proof (intro allI impI)
    fix v p g assume v: "\<not> direct v \<and> sv48 s' v = Some (p, g)"
    show "\<exists>i \<in> used s'. \<not> table_frame s' i \<and>
        (\<forall>w. drop_bit 12 w = drop_bit 12 v \<longrightarrow> sv48 s' w = Some (frame_addr s' i OR take_bit 12 w, g))"
    proof (cases "drop_bit 12 v = drop_bit 12 va")
      case True
      then show ?thesis using v k(3,4) old(3) by (auto simp: sv)
    next
      case False
      with v have "\<not> direct v" "sv48 s v = Some (p, g)" by (simp_all add: sv)
      from leaf_okE [OF ok this] obtain i where "i \<in> used s" "\<not> table_frame s i"
        "\<forall>w. drop_bit 12 w = drop_bit 12 v \<longrightarrow> sv48 s w = Some (frame_addr s i OR take_bit 12 w, g)" by blast
      then show ?thesis using old False by (auto simp: sv)
    qed
  qed
  moreover have "leaf_inj s'"
  proof -
    have other: "drop_bit 12 p \<noteq> drop_bit 12 (frame_addr s k OR take_bit 12 w)"
      if v: "\<not> direct v" "sv48 s v = Some (p, g)" for v p g w
    proof -
      obtain i where i: "i \<in> used s" "p = frame_addr s i OR take_bit 12 v"
        by (rule leaf_okE [OF ok v])
      then have "i < NFRAMES" "i \<noteq> k" using used_bound k(2) by auto
      then show ?thesis
        using i(2) frame_addr_page(1) [OF lay] frame_addr_eq_iff [OF lay _ k(1)] k(1) by auto
    qed
    have "drop_bit 12 v = drop_bit 12 v'"
      if a: "\<not> direct v" "\<not> direct v'" "sv48 s' v = Some (p, g)" "sv48 s' v' = Some (p', g')"
        "drop_bit 12 p = drop_bit 12 p'" for v v' p p' g g'
    proof (cases "drop_bit 12 v = drop_bit 12 va"; cases "drop_bit 12 v' = drop_bit 12 va")
      assume "drop_bit 12 v \<noteq> drop_bit 12 va" "drop_bit 12 v' \<noteq> drop_bit 12 va"
      then have "sv48 s v = Some (p, g)" "sv48 s v' = Some (p', g')" using a(3,4) by (simp_all add: sv)
      with a ok show ?thesis unfolding phys_ok_def leaf_inj_def by blast
    qed (use a other [of v p g v'] other [of v' p' g' v] in \<open>auto simp: sv split: if_splits\<close>)
    then show ?thesis unfolding leaf_inj_def by blast
  qed
  ultimately show ?thesis by (simp add: phys_ok_def)
qed

text \<open>The operations that map pages keep the invariant.\<close>

lemma fresh_page_phys:
  fixes s :: "'a vheap_scheme"
  assumes "phys_ok s" and "pt_wf s" and "card (used s) + 4 \<le> NFRAMES" and va: "canonical va" "\<not> direct va"
    and flag: "flag < 0x400" "bit flag 1"
    and run: "kalloc_frame s = Some (f, s1)" "map_page va f flag s1 = Some s'"
  shows "phys_ok s'" "pt_wf s'" "memory_only s s'"
proof -
  obtain k m tx where fp: "s' = s\<lparr>mem := m, out := tx\<rparr>" "pt_wf s'" "used s \<subseteq> used s'" "f = frame_addr s k"
    "k \<notin> used s" "k \<in> used s'" "\<not> table_frame s' k" "\<forall>i \<in> used s. table_frame s' i \<longrightarrow> table_frame s i"
    "\<And>v. sv48 s' v = (if drop_bit 12 v = drop_bit 12 va then Some (f OR take_bit 12 v, (1 OR ucast flag) AND 0x1F)
        else sv48 s v)"
    using fresh_page [OF assms(2-7)] run by (auto simp: Let_def)
  show "pt_wf s'" by (rule fp(2))
  show "memory_only s s'" using kalloc_frame_only [OF run(1)] map_page_only [OF run(2)] by (rule memory_only_trans)
  have lay: "phys_layout s" using assms(2) by (simp add: pt_wf_def)
  have fa: "frame_addr s' = frame_addr s" unfolding fp(1) by (simp add: state_simps)
  show "phys_ok s'"
    by (rule phys_ok_fresh [OF assms(1) lay va(2) used_bound [OF fp(6)] fp(5-7,3,8) fa fp(9) [unfolded fp(4)]])
qed

lemma phys_ok_set_size:
  assumes "heap_wf s" and "phys_ok t" and "pt_wf t" and "memory_only s t"
  shows "phys_ok (set_size (free_list s) n t)"
proof -
  have wf: "unat VIRTUAL_HEAP_START \<le> unat (free_list s)" "unat (free_list s) + 16 < 2 ^ 64"
    using heap_base [OF assms(1)] heap_top [OF assms(1)] by (simp_all add: VIRTUAL_HEAP_START_def)
  have "8 \<le> unat (x - free_list s)" if "in_pool t x" for x
  proof (rule ccontr)
    assume "\<not> 8 \<le> unat (x - free_list s)"
    then have "unat VIRTUAL_HEAP_START \<le> unat x"
      using wf unat_in_range [of x "free_list s" 8] by simp
    with that assms(3) heap_not_in_pool [of t x] show False by (simp add: pt_wf_def)
  qed
  then have "phys_ok (t\<lparr>mem := mem (set_size (free_list s) n t)\<rparr>)"
    using assms(2,3) by (intro phys_ok_outside) (simp_all add: set_size_out)
  then show ?thesis by (simp add: set_size_def)
qed

lemma grow_once_phys:
  assumes wf: "heap_wf s" and room: "card (used s) + 4 \<le> NFRAMES" and ok: "phys_ok s"
    and run: "grow_once (free_list s) s = Some s'"
  shows "phys_ok s'"
proof -
  obtain f s1 t where t: "kalloc_frame s = Some (f, s1)" "map_page (virtual_alloc_end s1) f 0xF s1 = Some t"
    "s' = set_size (free_list s) (get_size (free_list s) (mem t) + PAGE_SIZE) t
      \<lparr>virtual_alloc_end := virtual_alloc_end t + PAGE_SIZE\<rparr>"
    using run by (auto simp: grow_once_def Let_def set_size_def split: bind_splits)
  have e: "virtual_alloc_end s1 = virtual_alloc_end s"
    using kalloc_frame_only [OF t(1)] by (cases s, cases s1) (simp add: memory_only_def)
  have "unat VIRTUAL_HEAP_START \<le> unat (virtual_alloc_end s)"
    "unat (virtual_alloc_end s) < unat VIRTUAL_HEAP_START + 2 ^ 30"
    using wf heap_end_bound [of s "virtual_alloc_end s"] by (simp_all add: heap_wf_def heap_node_def)
  note hp = heap_page [OF this]
  have pt: "pt_wf s" using wf by (simp add: heap_wf_def)
  have fl: "(0xF :: u16) < 0x400" "bit (0xF :: u16) 1" by simp_all
  note fp = fresh_page_phys [OF ok pt room hp fl t(1) t(2) [unfolded e]]
  show ?thesis
    unfolding t(3) by (rule phys_ok_fields [OF _ _ _ _ phys_ok_set_size [OF wf fp]]) simp_all
qed

lemma grow_phys:
  assumes "heap_wf s" and "card (used s) + 4 * n \<le> NFRAMES"
    and "unat sz + 32 \<le> unat (virtual_alloc_end s - free_list s) + 4096 * n"
    and "phys_ok s" and "grow (free_list s) sz s = Some s'"
  shows "phys_ok s'"
  using assms
proof (induction n arbitrary: s)
  case 0
  then have "\<not> get_size (free_list s) (mem s) < sz + 32"
    using heap_size [OF 0(1)] by (simp add: word_less_nat_alt unat_word_ariths not_less)
  with 0 show ?case by (simp add: grow_unfold)
next
  case (Suc n)
  show ?case
  proof (cases "get_size (free_list s) (mem s) < sz + 32")
    case False
    with Suc.prems show ?thesis by (simp add: grow_unfold)
  next
    case True
    obtain t where t: "grow_once (free_list s) s = Some t" "heap_wf t" "grown s t"
      "unat (virtual_alloc_end t) = unat (virtual_alloc_end s) + 4096" "card (used t) \<le> card (used s) + 4"
      using grow_once_ok [OF Suc.prems(1)] Suc.prems(2) by auto
    have ft: "free_list t = free_list s" using t(3) by (simp add: grown_def)
    have "unat sz + 32 \<le> unat (virtual_alloc_end t - free_list t) + 4096 * n"
      using Suc.prems(3) t(4) heap_size(3,4) [OF Suc.prems(1)] heap_size(3) [OF t(2)] ft by simp
    moreover have "card (used t) + 4 * n \<le> NFRAMES" using Suc.prems(2) t(5) by simp
    moreover have "phys_ok t"
      using Suc.prems(2) by (intro grow_once_phys [OF Suc.prems(1) _ Suc.prems(4) t(1)]) simp
    moreover have "grow (free_list t) sz t = Some s'"
      using True t(1) Suc.prems(5) ft grow_unfold [of "free_list s" sz s] by simp
    ultimately show ?thesis using Suc.IH [OF t(2)] by blast
  qed
qed

lemma kalloc_phys:
  assumes wf: "heap_wf s" and room: "kalloc_cost sz \<le> frames_left s" and ok: "phys_ok s"
    and run: "kalloc sz s = Some (p, s')"
  shows "phys_ok s'"
proof -
  let ?n = "(unat sz + 32) div 4096 + 1"
  have r: "card (used s) + 4 * ?n \<le> NFRAMES" using room by (simp add: kalloc_cost_def frames_left_def)
  obtain t tx where t: "grow (free_list s) sz s = Some t" "heap_wf t" "s' = carve sz t\<lparr>out := tx\<rparr>"
    "unat sz + 32 \<le> unat (virtual_alloc_end t - free_list t)"
    using kalloc_ok [OF wf r] run by auto
  have "unat sz + 32 \<le> unat (virtual_alloc_end s - free_list s) + 4096 * ?n" by simp
  from grow_phys [OF wf r this ok t(1)] have ok': "phys_ok t" .
  have pt: "pt_wf t" using t(2) by (simp add: heap_wf_def)
  note b = heap_size(3,4) [OF t(2)] heap_base [OF t(2)] t(4)
  have ub: "unat (virtual_alloc_end t) < 2 ^ 64" using unat_bound [of "virtual_alloc_end t"] by simp
  have q: "unat (free_list t + 16 + sz) = unat (free_list t) + 16 + unat sz"
    using b ub by (simp add: unat_word_ariths)
  have "mem (carve sz t) x = mem t x" if "in_pool t x" for x
  proof -
    have "unat x < unat VIRTUAL_HEAP_START"
      using that pt heap_not_in_pool [of t x] by (force simp: pt_wf_def)
    then have "16 \<le> unat (x - free_list t)" "8 \<le> unat (x - (free_list t + 16 + sz))"
      using b q ub unat_in_range [of x "free_list t" 16]
        unat_in_range [of x "free_list t + 16 + sz" 8] by force+
    then show ?thesis by (rule carve_ok(9) [OF t(2,4)])
  qed
  from phys_ok_outside [OF pt this ok'] have "phys_ok (t\<lparr>mem := mem (carve sz t)\<rparr>)" .
  then show ?thesis
    unfolding t(3) phys_ok_out by (rule phys_ok_fields [rotated -1]) (simp_all add: carve_def Let_def set_size_def set_last_def)
qed

text \<open>Stores that keep the pool, and the pages of user programs.\<close>

lemma phys_ok_low_store:
  assumes "heap_wf s" and "phys_ok s" and "unat a + length bs \<le> 2 ^ 47"
  shows "phys_ok (s\<lparr>mem := store_bytes (mem s) a bs\<rparr>)"
proof (rule phys_ok_outside [OF _ _ assms(2)])
  show "pt_wf s" using assms(1) by (simp add: heap_wf_def)
  show "store_bytes (mem s) a bs x = mem s x" if "in_pool s x" for x
  proof (rule store_bytes_out, rule ccontr)
    assume "\<not> length bs \<le> unat (x - a)"
    then have "unat x < 2 ^ 47" using assms(3) unat_in_range [of x a "length bs"] by simp
    with that low_outside(1) [OF assms(1)] show False by blast
  qed
qed

lemma phys_ok_heap_store:
  assumes "heap_wf s" and "phys_ok s" and "unat VIRTUAL_HEAP_START \<le> unat a" "unat a + length bs \<le> unat (free_list s)"
  shows "phys_ok (s\<lparr>mem := store_bytes (mem s) a bs\<rparr>)"
proof (rule phys_ok_outside [OF _ _ assms(2)])
  show "pt_wf s" using assms(1) by (simp add: heap_wf_def)
  then show "store_bytes (mem s) a bs x = mem s x" if "in_pool s x" for x
  proof (intro store_bytes_out, intro leI notI)
    assume "unat (x - a) < length bs"
    then have "unat VIRTUAL_HEAP_START \<le> unat x"
      using assms(3,4) unat_in_range [of x a "length bs"] unat_bound [of "free_list s"] by simp
    with that \<open>pt_wf s\<close> show False using heap_not_in_pool [of s x] by (simp add: pt_wf_def)
  qed
qed

section \<open>Transfers by DMA\<close>

text \<open>A device stores at physical addresses: every virtual address translated into the range changes.\<close>

definition dma_write :: "u64 \<Rightarrow> u8 list \<Rightarrow> 'a paging_scheme \<Rightarrow> 'a paging_scheme" where
  "dma_write p bs s = s\<lparr>mem := (\<lambda>va. case sv48 s va of
     None \<Rightarrow> mem s va
   | Some (q, _) \<Rightarrow> if unat (q - p) < length bs then bs ! unat (q - p) else mem s va)\<rparr>"

definition contiguous :: "'a paging_scheme \<Rightarrow> u64 \<Rightarrow> nat \<Rightarrow> u64 \<Rightarrow> bool" where
  "contiguous s va n p \<longleftrightarrow> (\<forall>i<n. \<exists>fl. sv48 s (va + of_nat i) = Some (p + of_nat i, fl))"

lemma pool_direct:
  assumes "phys_layout s" and "phys_ok s" and "in_pool s x"
  shows "sv48 s x = Some (x - VIRTUAL_OFFSET, 0xF)"
proof -
  have b: "unat (x - managed_frames_address_start s) < 32768 + 4096 * NFRAMES"
    using assms(3) by (simp add: in_pool_def)
  have "unat x = unat (managed_frames_address_start s) + unat (x - managed_frames_address_start s)"
    by (rule unat_in_range [OF b pool_top [OF assms(1)]])
  then have "unat VIRTUAL_OFFSET \<le> unat x" "unat x < unat VIRTUAL_OFFSET + 2 ^ 32"
    using b pool_start [OF assms(1)] assms(1) by (simp_all add: phys_layout_def)
  then have "x - VIRTUAL_OFFSET < 0x100000000"
    by (simp add: word_less_nat_alt unat_sub word_le_nat_alt)
  from direct_map_address [OF this] assms(2) show ?thesis
    by (simp add: phys_ok_def direct_ok_def)
qed

lemma leaf_same_address:
  assumes "phys_layout s" and "phys_ok s" and "\<not> direct v" "\<not> direct w"
    and "sv48 s v = Some (p, fl)" "sv48 s w = Some (p, fl')"
  shows "v = w"
proof -
  have pg: "take_bit 12 p = take_bit 12 u" if u: "\<not> direct u" "sv48 s u = Some (p, g)" for u g
  proof -
    obtain i where i: "i \<in> used s" "p = frame_addr s i OR take_bit 12 u"
      by (rule leaf_okE [OF assms(2) u])
    then show ?thesis using frame_addr_page(2) [OF assms(1) used_bound [OF i(1)]] by simp
  qed
  have "drop_bit 12 v = drop_bit 12 w"
    using assms unfolding phys_ok_def leaf_inj_def by blast
  then show ?thesis
    using pg [OF assms(3,5)] pg [OF assms(4,6)] bits_ident [of 12 v] bits_ident [of 12 w] by metis
qed

lemma leaf_data_page:
  assumes "phys_layout s" and "phys_ok s" and "\<not> direct v" and "sv48 s v = Some (p, fl)"
  shows "data_page s (VIRTUAL_OFFSET + p)"
proof -
  obtain i where i: "i \<in> used s" "\<not> table_frame s i" "p = frame_addr s i OR take_bit 12 v"
    by (rule leaf_okE [OF assms(2-4)])
  have "p = frame_addr s i + take_bit 12 v"
    unfolding i(3) by (rule frame_addr_or [OF assms(1) used_bound [OF i(1)]])
  then have "VIRTUAL_OFFSET + p - page_of s i = take_bit 12 v" by (simp add: page_of_def)
  moreover have "unat (take_bit 12 v) < 4096" by (simp add: unat_take_bit take_bit_nat_less_exp [of 12, simplified])
  ultimately show ?thesis using i(1,2) unfolding data_page_def by metis
qed

text \<open>
  The transfer into a buffer on the heap. \<open>dma_kept\<close> is what it leaves alone: the pool outside
  the data pages, and every address outside the direct map and outside the buffer.
\<close>

lemma heap_not_direct:
  assumes "heap_wf s" and "unat VIRTUAL_HEAP_START \<le> unat v" "unat v < unat (free_list s)"
  shows "canonical v" "\<not> direct v"
proof -
  have "unat v < unat VIRTUAL_HEAP_START + 2 ^ 30" using assms(3) heap_top [OF assms(1)] by simp
  from heap_page [OF assms(2) this] show "canonical v" "\<not> direct v" .
qed

lemma dma_kept:
  assumes lay: "phys_layout s" and ok: "phys_ok s" and cont: "contiguous s buf (length bs) p"
    and nd: "\<And>i. i < length bs \<Longrightarrow> \<not> direct (buf + of_nat i)" and b: "length bs < 2 ^ 64"
  shows "in_pool s x \<Longrightarrow> \<not> data_page s x \<Longrightarrow> mem (dma_write p bs s) x = mem s x"
    and "\<not> direct x \<Longrightarrow> length bs \<le> unat (x - buf) \<Longrightarrow> mem (dma_write p bs s) x = mem s x"
proof -
  have pre: "\<exists>fl. sv48 s (buf + of_nat (unat (q - p))) = Some (q, fl) \<and> \<not> direct (buf + of_nat (unat (q - p)))"
    if "unat (q - p) < length bs" for q
    using cont nd [OF that] that unfolding contiguous_def by fastforce
  show "mem (dma_write p bs s) x = mem s x" if x: "in_pool s x" "\<not> data_page s x"
  proof -
    have "\<not> unat (x - VIRTUAL_OFFSET - p) < length bs"
    proof
      assume "unat (x - VIRTUAL_OFFSET - p) < length bs"
      from pre [OF this] have "data_page s (VIRTUAL_OFFSET + (x - VIRTUAL_OFFSET))"
        using leaf_data_page [OF lay ok] by blast
      with x(2) show False by simp
    qed
    then show ?thesis using pool_direct [OF lay ok x(1)] by (simp add: dma_write_def)
  qed
  show "mem (dma_write p bs s) x = mem s x" if x: "\<not> direct x" "length bs \<le> unat (x - buf)"
  proof -
    have "\<not> unat (q - p) < length bs" if q: "sv48 s x = Some (q, fl)" for q fl
    proof
      assume l: "unat (q - p) < length bs"
      from pre [OF this] have "x = buf + of_nat (unat (q - p))"
        using leaf_same_address [OF lay ok x(1) _ q] by blast
      then have "unat (x - buf) = unat (q - p)" by simp
      with x(2) l show False by simp
    qed
    then show ?thesis by (auto simp: dma_write_def split: option.split)
  qed
qed

lemma dma_write_buffer:
  assumes wf: "heap_wf s" and ok: "phys_ok s" and cont: "contiguous s buf (length bs) p"
    and buf: "unat VIRTUAL_HEAP_START \<le> unat buf" "unat buf + length bs \<le> unat (free_list s)"
  shows "heap_wf (dma_write p bs s)" "phys_ok (dma_write p bs s)" "sv48 (dma_write p bs s) = sv48 s"
    "frames_left (dma_write p bs s) = frames_left s"
    "load_bytes (mem (dma_write p bs s)) buf (length bs) = bs"
    "\<And>x. \<not> direct x \<Longrightarrow> length bs \<le> unat (x - buf) \<Longrightarrow> mem (dma_write p bs s) x = mem s x"
    "used (dma_write p bs s) = used s"
proof -
  have pt: "pt_wf s" and lay: "phys_layout s" using wf by (simp_all add: heap_wf_def pt_wf_def)
  have b: "length bs < 2 ^ 64" using buf(2) unat_bound [of "free_list s"] by simp
  have u: "unat (buf + of_nat i) = unat buf + i" if "i < length bs" for i
    using that buf(2) unat_bound [of "free_list s"] by (simp add: unat_word_ariths unat_of_nat)
  have nd: "\<not> direct (buf + of_nat i)" if "i < length bs" for i
    using heap_not_direct [OF wf] u [OF that] buf that by simp
  note k = dma_kept [OF lay ok cont nd b]
  let ?m = "mem (dma_write p bs s)"
  have kp: "?m x = mem s x" if "in_pool s x" "\<not> data_page s x" for x
    using k(1) that by blast
  have eq: "dma_write p bs s = s\<lparr>mem := ?m\<rparr>" by (simp add: dma_write_def)
  have free: "?m x = mem s x" if "unat (x - free_list s) < 8" for x
  proof (rule k(2))
    have x: "unat x = unat (free_list s) + unat (x - free_list s)"
      using that heap_top [OF wf] by (intro unat_in_range [of _ _ 8]) (simp_all add: VIRTUAL_HEAP_START_def)
    have "unat x < unat VIRTUAL_HEAP_START + 2 ^ 30" using x that heap_top [OF wf] by simp
    then show "\<not> direct x" using x heap_page [of x] heap_base [OF wf] by simp
    show "length bs \<le> unat (x - buf)"
    proof -
      have le: "unat buf + length bs \<le> unat x" using x buf by linarith
      then have "buf \<le> x" by (simp add: word_le_nat_alt)
      with le show ?thesis by (simp add: unat_sub)
    qed
  qed
  have h: "heap_wf (s\<lparr>mem := ?m\<rparr>)" "used (s\<lparr>mem := ?m\<rparr>) = used s" "sv48 (s\<lparr>mem := ?m\<rparr>) = sv48 s"
    using heap_wf_kept [OF wf kp free] by blast+
  show "heap_wf (dma_write p bs s)" "sv48 (dma_write p bs s) = sv48 s" "frames_left (dma_write p bs s) = frames_left s"
    "used (dma_write p bs s) = used s"
    by (subst eq, simp add: frames_left_def h)+
  have "phys_ok (s\<lparr>mem := ?m\<rparr>)" by (rule phys_ok_kept [OF pt _ ok]) (rule kp)
  then show "phys_ok (dma_write p bs s)" using eq by simp
  show "load_bytes ?m buf (length bs) = bs"
  proof (rule nth_equalityI)
    fix i assume "i < length (load_bytes ?m buf (length bs))"
    then have i: "i < length bs" by (simp add: load_bytes_def)
    then obtain fl where "sv48 s (buf + of_nat i) = Some (p + of_nat i, fl)"
      using cont unfolding contiguous_def by blast
    moreover have "unat (of_nat i :: u64) = i" using i b by (simp add: unat_of_nat)
    ultimately show "load_bytes ?m buf (length bs) ! i = bs ! i"
      using i by (simp add: load_bytes_def dma_write_def)
  qed (simp add: load_bytes_def)
  show "\<And>x. \<not> direct x \<Longrightarrow> length bs \<le> unat (x - buf) \<Longrightarrow> ?m x = mem s x" using k(2) by blast
qed

text \<open>A buffer inside one page is contiguous, and so is a single byte.\<close>

lemma page_add:
  fixes va :: u64
  assumes "unat va mod 4096 + i < 4096"
  shows "drop_bit 12 (va + of_nat i) = drop_bit 12 va" "take_bit 12 (va + of_nat i) = take_bit 12 va + of_nat i"
proof -
  have "unat va = 4096 * (unat va div 4096) + unat va mod 4096" by simp
  moreover have "unat va div 4096 < 4503599627370496" using unat_bound [of va] by (simp add: less_mult_imp_div_less)
  ultimately have "unat va + i < 18446744073709551616" using assms by linarith
  then have u: "unat (va + of_nat i) = unat va + i" by (simp add: unat_word_ariths unat_of_nat)
  have m: "(unat va + i) mod 4096 = unat va mod 4096 + i"
    using assms mod_add_left_eq [of "unat va" 4096 i] by simp
  have d: "(unat va + i) div 4096 = unat va div 4096"
    using assms div_add1_eq [of "unat va" i 4096] by simp
  show "drop_bit 12 (va + of_nat i) = drop_bit 12 va"
    using u d by (simp add: word_unat_eq_iff drop_bit_eq_div unat_div)
  have "unat (of_nat i :: u64) = i" using assms by (simp add: unat_of_nat)
  then show "take_bit 12 (va + of_nat i) = take_bit 12 va + of_nat i"
    using u m assms by (simp add: word_unat_eq_iff unat_take_bit take_bit_nat_def unat_word_ariths)
qed

lemma contiguous_page:
  assumes "phys_layout s" and "phys_ok s" and "\<not> direct va" and "sv48 s va = Some (p, fl)"
    and "unat va mod 4096 + n \<le> 4096"
  shows "contiguous s va n p"
  unfolding contiguous_def
proof (intro allI impI)
  fix i assume "i < n"
  then have pg: "drop_bit 12 (va + of_nat i) = drop_bit 12 va" "take_bit 12 (va + of_nat i) = take_bit 12 va + of_nat i"
    using assms(5) by (simp_all add: page_add)
  obtain k where k: "k \<in> used s" "p = frame_addr s k OR take_bit 12 va"
    "\<forall>w. drop_bit 12 w = drop_bit 12 va \<longrightarrow> sv48 s w = Some (frame_addr s k OR take_bit 12 w, fl)"
    by (rule leaf_okE [OF assms(2-4)])
  note fo = frame_addr_or [OF assms(1) used_bound [OF k(1)]]
  have "frame_addr s k OR take_bit 12 (va + of_nat i) = p + of_nat i"
    using fo [of "va + of_nat i"] fo [of va] pg(2) k(2) by (metis add.assoc)
  with k(3) pg(1) show "\<exists>fl. sv48 s (va + of_nat i) = Some (p + of_nat i, fl)" by simp
qed

section \<open>Allocated heap memory\<close>

definition in_heap :: "'a vheap_scheme \<Rightarrow> u64 \<Rightarrow> bool" where
  "in_heap s x \<longleftrightarrow> unat VIRTUAL_HEAP_START \<le> unat x \<and> unat x < unat (free_list s)"

text \<open>Whatever changes in allocated heap memory, the invariants stay.\<close>

lemma heap_region:
  assumes wf: "heap_wf s" and ok: "phys_ok s" and m: "\<forall>x. \<not> in_heap s x \<longrightarrow> m x = mem s x"
  shows "heap_wf (s\<lparr>mem := m\<rparr>)" "phys_ok (s\<lparr>mem := m\<rparr>)" "sv48 (s\<lparr>mem := m\<rparr>) = sv48 s"
    "frames_left (s\<lparr>mem := m\<rparr>) = frames_left s" "used (s\<lparr>mem := m\<rparr>) = used s"
proof -
  have pt: "pt_wf s" using wf by (simp add: heap_wf_def)
  have pool: "m x = mem s x" if "in_pool s x" for x
    using that m pt heap_not_in_pool [of s x] by (auto simp: in_heap_def pt_wf_def)
  have free: "m x = mem s x" if "unat (x - free_list s) < 8" for x
  proof -
    have "unat x = unat (free_list s) + unat (x - free_list s)"
      using that heap_top [OF wf] by (intro unat_in_range [of _ _ 8]) (simp_all add: VIRTUAL_HEAP_START_def)
    with m show ?thesis by (simp add: in_heap_def)
  qed
  have h: "heap_wf (s\<lparr>mem := m\<rparr>)" "used (s\<lparr>mem := m\<rparr>) = used s" "sv48 (s\<lparr>mem := m\<rparr>) = sv48 s"
    using heap_wf_write [OF wf pool free] by blast+
  from h show "heap_wf (s\<lparr>mem := m\<rparr>)" "sv48 (s\<lparr>mem := m\<rparr>) = sv48 s"
    "frames_left (s\<lparr>mem := m\<rparr>) = frames_left s" "used (s\<lparr>mem := m\<rparr>) = used s" by (simp_all add: frames_left_def)
  show "phys_ok (s\<lparr>mem := m\<rparr>)" by (rule phys_ok_outside [OF pt _ ok]) (rule pool)
qed

text \<open>The physical address of allocated heap memory, as the hardware and the driver compute it.\<close>

definition pa :: "'a paging_scheme \<Rightarrow> u64 \<Rightarrow> u64" where
  "pa s va = fst (the (sv48 s va))"

lemma heap_pa:
  assumes "heap_wf s" and "in_heap s va"
  shows "sv48 s va = Some (pa s va, 0xF)"
    and "get_physical_address_of_virtual_address va s = (pa s va, s)"
proof -
  have "VIRTUAL_HEAP_START \<le> va" "va < virtual_alloc_end s"
    using assms heap_size(4) [OF assms(1)] by (simp_all add: in_heap_def word_le_nat_alt word_less_nat_alt)
  then show "sv48 s va = Some (pa s va, 0xF)"
    using assms(1) by (auto simp: heap_wf_def heap_mapped_def pa_def)
  then show "get_physical_address_of_virtual_address va s = (pa s va, s)"
    using software_walk [of s va] heap_not_direct [OF assms(1), of va] assms by (simp add: heap_wf_def in_heap_def)
qed

section \<open>Start-up\<close>

lemma virtual_allocator_init_phys:
  assumes "phys_ok s" and "pt_wf s" and "card (used s) + 4 \<le> NFRAMES" and "virtual_allocator_init s = Some s'"
  shows "phys_ok s'"
proof -
  let ?h = VIRTUAL_HEAP_START
  define s0 where "s0 = log VIRTUAL_MEMORY ''Initialising virtual allocator'' [] s"
  obtain f s1 t ty where t: "kalloc_frame s0 = Some (f, s1)" "map_page ?h f 0xF s1 = Some t"
    "s' = (set_last ?h (set_size ?h 4096 t))\<lparr>free_list := ?h, virtual_alloc_end := ?h + 4096\<rparr>\<lparr>out := ty\<rparr>"
    using assms(4) unfolding virtual_allocator_init_def Let_def s0_def [symmetric]
    by (auto simp: PAGE_SIZE_def log_eq split: bind_splits)
  have s0: "phys_ok s0" "pt_wf s0" "card (used s0) + 4 \<le> NFRAMES"
    using assms(1-3) by (simp_all add: s0_def, simp add: log_eq)
  have "unat ?h < unat ?h + 2 ^ 30" by simp
  note hp = heap_page [OF order_refl this]
  have fl: "(0xF :: u16) < 0x400" "bit (0xF :: u16) 1" by simp_all
  note fp = fresh_page_phys [OF s0 hp fl t(1,2)]
  let ?u = "set_last ?h (set_size ?h 4096 t)"
  have "8 \<le> unat (x - ?h)" if "in_pool t x" for x
  proof (rule ccontr)
    assume "\<not> 8 \<le> unat (x - ?h)"
    then have "unat ?h \<le> unat x"
      using unat_in_range [of x ?h 8] by (simp add: VIRTUAL_HEAP_START_def)
    with that fp(2) heap_not_in_pool [of t x] show False by (simp add: pt_wf_def)
  qed
  then have "phys_ok (t\<lparr>mem := mem ?u\<rparr>)"
    by (intro phys_ok_outside [OF fp(2) _ fp(1)]) (simp add: set_last_out set_size_out)
  then show ?thesis
    unfolding t(3) phys_ok_out by (rule phys_ok_fields [rotated -1]) (simp_all add: set_size_def set_last_def)
qed

lemma boot_phys:
  assumes "phys_layout s" and "frames_zero s" and "used s = {}"
    and "paging_init s = Some s1" and "virtual_allocator_init s1 = Some t"
  shows "phys_ok t"
proof -
  have "card (used s) + 2 \<le> NFRAMES" using assms(3) by (simp add: NFRAMES_def)
  from paging_init_wf [OF assms(1,2) this] assms(3,4) have s1: "pt_wf s1" "card (used s1) \<le> 2"
    "\<forall>va. sv48 s1 va = (if canonical va \<and> direct va
       then Some (push_bit 30 (vpn 2 va) OR take_bit 30 va, 0xF) else None)" by auto
  then have "phys_ok s1" by (simp add: phys_ok_def direct_ok_def leaf_ok_def leaf_inj_def)
  moreover have "card (used s1) + 4 \<le> NFRAMES" using s1(2) by (simp add: NFRAMES_def)
  ultimately show ?thesis using virtual_allocator_init_phys [OF _ s1(1) _ assms(5)] by blast
qed

end
