(* ===== verification/Linear_Heap.thy ===== *)
theory Linear_Heap
  imports Phys_Map
begin

text \<open>
  The kernel heap during start-up. The block driver gives a device the physical address of the first
  byte of a buffer, so its buffers must be physically contiguous, which \<^verbatim>\<open>kalloc\<close> does not
  promise. It provides it all the same as long as nothing but the heap takes frames and the heap stays
  below two megabytes: the frames in use are then the first ones of the pool, the page tables of the
  heap are complete after its first page, and every further page gets the frame after the one before.
  \<open>linear_heap\<close> states this, \<open>kalloc\<close> keeps it, and start-up establishes it. The first
  page is apart from the others, because the frames of its page tables follow it.
\<close>

section \<open>The invariant\<close>

definition heap_limit :: nat where
  "heap_limit = unat VIRTUAL_HEAP_START + 2 ^ 21"

definition linear_from :: "'a vheap_scheme \<Rightarrow> nat \<Rightarrow> bool" where
  "linear_from s K \<longleftrightarrow> used s = {..<K} \<and>
     4096 * K + 4096 * 4096 + unat VIRTUAL_HEAP_START \<le> 4096 * NFRAMES + unat (virtual_alloc_end s) \<and>
     (\<forall>v. VIRTUAL_HEAP_START + 4096 \<le> v \<and> v < virtual_alloc_end s \<longrightarrow>
        sv48 s v = Some (frame_addr s K - (virtual_alloc_end s - v), 0xF))"

definition linear_heap :: "'a vheap_scheme \<Rightarrow> bool" where
  "linear_heap s \<longleftrightarrow> heap_wf s \<and> phys_ok s \<and> unat (virtual_alloc_end s) \<le> heap_limit \<and> (\<exists>K. linear_from s K)"

lemma linear_heap_cong:
  assumes "linear_heap s" and "heap_wf s'" "phys_ok s'" "used s' = used s" "sv48 s' = sv48 s" "frame_addr s' = frame_addr s"
    "virtual_alloc_end s' = virtual_alloc_end s"
  shows "linear_heap s'"
  using assms by (auto simp: linear_heap_def linear_from_def)

lemma linear_heap_out [simp]: "linear_heap (s\<lparr>out := tx\<rparr>) = linear_heap s"
  by (auto simp: state_simps heap_wf_out intro: linear_heap_cong [of s] linear_heap_cong [of "s\<lparr>out := tx\<rparr>"]
      simp: linear_heap_def linear_from_def)

text \<open>The frames last for whatever fits below the limit.\<close>

lemma linear_frames:
  assumes "linear_heap s"
  shows "3584 \<le> frames_left s"
proof -
  obtain K where K: "linear_from s K" "unat (virtual_alloc_end s) \<le> heap_limit"
    using assms by (auto simp: linear_heap_def)
  then have "4096 * K + 4096 * 4096 \<le> 4096 * NFRAMES + 2 ^ 21" by (simp add: linear_from_def heap_limit_def)
  moreover have "frames_left s = NFRAMES - K" using K(1) by (simp add: frames_left_def linear_from_def)
  ultimately show ?thesis by simp
qed

lemma linear_room:
  assumes "linear_heap s" and "unat (free_list s) + unat sz + 32 \<le> heap_limit"
  shows "kalloc_cost sz \<le> frames_left s" "kalloc_cost sz + 1024 \<le> frames_left s"
proof -
  have "unat VIRTUAL_HEAP_START \<le> unat (free_list s)" using assms(1) heap_base by (auto simp: linear_heap_def)
  then have "unat sz + 32 \<le> 2097152" using assms(2) by (simp add: heap_limit_def)
  then have "(unat sz + 32) div 4096 \<le> 512" by simp
  then show "kalloc_cost sz + 1024 \<le> frames_left s"
    using linear_frames [OF assms(1)] by (simp add: kalloc_cost_def)
  then show "kalloc_cost sz \<le> frames_left s" by simp
qed

section \<open>Growing\<close>

lemma fresh_page_segment:
  fixes s :: "'a vheap_scheme"
  assumes wf: "pt_wf s" and K: "used s = {..<K}" "K + 4 \<le> NFRAMES" and va: "canonical va" "\<not> direct va"
    and run: "kalloc_frame s = Some (f, s1)" "map_page va f 0xF s1 = Some s'"
  shows "f = frame_addr s K" "\<exists>K'. used s' = {..<K'}"
    "tbl (mem s) (first_level_table s) 3 va = Some t \<Longrightarrow> used s' = {..<Suc K}"
proof -
  obtain k where k: "is_first_free s k"
    using first_free_exists [OF not_full, of s] K by auto
  note kK = first_free_segment [OF k K(1)]
  let ?t = "s\<lparr>mem := (mem s)(flag_addr s k := 1)\<rparr>"
  obtain tx where s1: "f = frame_addr s k" "s1 = ?t\<lparr>out := tx\<rparr>"
    using kalloc_frame_eq [OF k] run(1) by auto
  show "f = frame_addr s K" using s1(1) kK(1) by simp
  have u: "used s1 = {..<Suc K}" using used_alloc [OF k] kK(2) by (simp add: s1(2) state_simps)
  have w: "pt_wf s1" using pt_wf_alloc(1) [OF wf k] by (simp add: s1(2) state_simps)
  have fo: "frame_ok f"
    using wf first_free_unused [OF k] unfolding s1(1) by (auto simp: pt_wf_def intro: frame_ok_frame_addr)
  have "card (used s1) + 3 \<le> NFRAMES" using u K(2) by simp
  moreover have "(0xF :: u16) < 0x400" "bit (0xF :: u16) 1" by simp_all
  ultimately have "tables_grow s1 s'"
    using map_page_full [OF w _ va fo] run(2) by (fastforce simp: Let_def)
  then show "\<exists>K'. used s' = {..<K'}" using u unfolding tables_grow_def by blast
  show "used s' = {..<Suc K}" if "tbl (mem s) (first_level_table s) 3 va = Some t"
  proof -
    have "tbl (mem s1) (first_level_table s1) 3 va = Some t"
      using that tbl_flag [OF wf, of 3 k] first_free_unused [OF k] by (simp add: s1(2) del: fun_upd_apply tbl.simps)
    from map_page_covered [OF w this run(2)] u show ?thesis by simp
  qed
qed

lemma set_size_space:
  assumes "heap_wf s" and "pt_wf t" and "memory_only s t"
  shows "used (set_size (free_list s) n t) = used t" "sv48 (set_size (free_list s) n t) = sv48 t"
proof -
  have wf: "unat VIRTUAL_HEAP_START \<le> unat (free_list s)" "unat (free_list s) + 16 < 2 ^ 64"
    using heap_base [OF assms(1)] heap_top [OF assms(1)] by (simp_all add: VIRTUAL_HEAP_START_def)
  have "8 \<le> unat (x - free_list s)" if "in_pool t x" for x
  proof (rule ccontr)
    assume "\<not> 8 \<le> unat (x - free_list s)"
    then have "unat VIRTUAL_HEAP_START \<le> unat x"
      using wf unat_in_range [of x "free_list s" 8] by simp
    with that assms(2) heap_not_in_pool [of t x] show False by (simp add: pt_wf_def)
  qed
  then have pool: "mem (set_size (free_list s) n t) x = mem t x" if "in_pool t x" for x
    using that by (simp add: set_size_out)
  have "set_size (free_list s) n t = t\<lparr>mem := mem (set_size (free_list s) n t)\<rparr>" by (simp add: set_size_def)
  then show "used (set_size (free_list s) n t) = used t" "sv48 (set_size (free_list s) n t) = sv48 t"
    using pt_wf_outside [OF assms(2) pool] used_outside [OF pool] by metis+
qed

text \<open>The addresses below the limit share the tables of the heap's first page.\<close>

lemma heap_agree_tables:
  assumes "unat VIRTUAL_HEAP_START \<le> unat v" and "unat v < heap_limit"
  shows "agree 3 v VIRTUAL_HEAP_START"
proof -
  have "unat v div 2 ^ 21 = unat VIRTUAL_HEAP_START div 2 ^ 21"
    using assms by (intro div_nat_eqI) (simp_all add: heap_limit_def VIRTUAL_HEAP_START_def)
  then have "drop_bit 21 v = drop_bit 21 VIRTUAL_HEAP_START"
    by (simp add: word_unat_eq_iff drop_bit_eq_div unat_div)
  then have "drop_bit (9 * k) (drop_bit 21 v) = drop_bit (9 * k) (drop_bit 21 VIRTUAL_HEAP_START)" for k by simp
  then have "drop_bit (21 + 9 * k) v = drop_bit (21 + 9 * k) VIRTUAL_HEAP_START" for k
    by (simp only: drop_bit_drop_bit add.commute [of 21])
  from this [of 0] this [of 1] this [of 2] show ?thesis
    by (simp add: agree_def vpn_def numeral_3_eq_3 less_Suc_eq)
qed

lemma heap_tables:
  assumes "heap_wf s" and "unat VIRTUAL_HEAP_START \<le> unat v" and "unat v < heap_limit"
  obtains t where "tbl (mem s) (first_level_table s) 3 v = Some t"
proof -
  have pt: "pt_wf s" using assms(1) by (simp add: heap_wf_def)
  have "VIRTUAL_HEAP_START < virtual_alloc_end s"
    using heap_size(4) [OF assms(1)] heap_base [OF assms(1)] by (simp add: word_less_nat_alt)
  then obtain p where p: "sv48 s VIRTUAL_HEAP_START = Some (p, 0xF)"
    using assms(1) by (auto simp: heap_wf_def heap_mapped_def)
  have "\<not> direct VIRTUAL_HEAP_START" by (simp add: direct_def vpn_def VIRTUAL_HEAP_START_def)
  from mapped_covered [OF pt p this] that tbl_agree [OF heap_agree_tables [OF assms(2,3)]] show ?thesis by metis
qed

lemma grow_once_linear:
  assumes lin: "linear_heap s" and room: "unat (virtual_alloc_end s) + 4096 \<le> heap_limit"
    and run: "grow_once (free_list s) s = Some s'"
  shows "linear_heap s'"
proof -
  let ?e = "virtual_alloc_end s" and ?h = VIRTUAL_HEAP_START
  obtain K where wf: "heap_wf s" and ok: "phys_ok s" and K: "linear_from s K"
    using lin by (auto simp: linear_heap_def)
  have u: "used s = {..<K}" using K by (simp add: linear_from_def)
  have K4: "K + 4 \<le> NFRAMES" using linear_frames [OF lin] u by (simp add: frames_left_def)
  then have c4: "card (used s) + 4 \<le> NFRAMES" using u by simp
  obtain f s1 t where t: "kalloc_frame s = Some (f, s1)" "map_page (virtual_alloc_end s1) f 0xF s1 = Some t"
    "s' = set_size (free_list s) (get_size (free_list s) (mem t) + PAGE_SIZE) t
      \<lparr>virtual_alloc_end := virtual_alloc_end t + PAGE_SIZE\<rparr>"
    using run by (auto simp: grow_once_def Let_def set_size_def split: bind_splits)
  have e: "virtual_alloc_end s1 = ?e"
    using kalloc_frame_only [OF t(1)] by (cases s, cases s1) (simp add: memory_only_def)
  have eb: "unat ?h \<le> unat ?e" "unat ?e < unat ?h + 2 ^ 30" "unat ?e < heap_limit"
    using wf heap_end_bound [of s ?e] room by (simp_all add: heap_wf_def heap_node_def)
  note hp = heap_page [OF eb(1,2)]
  have pt: "pt_wf s" using wf by (simp add: heap_wf_def)
  have fl: "(0xF :: u16) < 0x400" "bit (0xF :: u16) 1" by simp_all
  note mp = t(2) [unfolded e]
  note fp = fresh_page_phys [OF ok pt c4 hp fl t(1) mp]
  obtain tb where tb: "tbl (mem s) (first_level_table s) 3 ?e = Some tb" by (rule heap_tables [OF wf eb(1,3)])
  note sg = fresh_page_segment [OF pt u K4 hp t(1) mp]
  have ut: "used t = {..<Suc K}" by (rule sg(3) [OF tb])
  have svt: "sv48 t v = (if drop_bit 12 v = drop_bit 12 ?e then Some (f OR take_bit 12 v, 0xF) else sv48 s v)" for v
    using fresh_page [OF pt c4 hp fl] t(1) mp by (auto simp: Let_def)
  have s': "used s' = {..<Suc K}" "sv48 s' = sv48 t" "frame_addr s' = frame_addr s" "virtual_alloc_end s' = ?e + 4096"
  proof -
    let ?t = "set_size (free_list s) (get_size (free_list s) (mem t) + PAGE_SIZE) t"
    note sp = set_size_space [OF wf fp(2,3), of "get_size (free_list s) (mem t) + PAGE_SIZE"]
    have "used s' = used ?t" "sv48 s' = sv48 ?t" unfolding t(3) by (rule pt_wf_cong; simp)+
    with sp ut show "used s' = {..<Suc K}" "sv48 s' = sv48 t" by simp_all
    show "frame_addr s' = frame_addr s" "virtual_alloc_end s' = ?e + 4096"
      using fp(3) unfolding t(3) by (cases s, cases t, simp add: memory_only_def set_size_def frame_addr_def PAGE_SIZE_def fun_eq_iff)+
  qed
  have e4: "unat (?e + 4096) = unat ?e + 4096" "4096 dvd unat ?e"
    using room wf by (simp_all add: unat_word_ariths heap_limit_def VIRTUAL_HEAP_START_def heap_wf_def heap_mapped_def)
  have fa: "frame_addr s (Suc K) = frame_addr s K + 4096" by (simp add: frame_addr_def)
  have range: "drop_bit 12 v = drop_bit 12 ?e \<longleftrightarrow> ?e \<le> v \<and> v < ?e + 4096" for v
    using e4 eb(2) by (intro same_page_range) (simp_all add: VIRTUAL_HEAP_START_def)
  have new: "frame_addr s K OR take_bit 12 v = frame_addr s (Suc K) - (?e + 4096 - v)" if "?e \<le> v" "v < ?e + 4096" for v
  proof -
    have "take_bit 12 ?e = 0" using e4(2) by (simp add: word_unat_eq_iff unat_take_bit take_bit_eq_0_iff)
    then have "v - ?e = take_bit 12 v"
      using range [of v] that bits_ident [of 12 v] bits_ident [of 12 ?e] by (metis add.right_neutral add_diff_cancel_left')
    moreover have "frame_addr s K OR take_bit 12 v = frame_addr s K + take_bit 12 v"
      using pt K4 by (intro frame_addr_or) (simp_all add: pt_wf_def)
    ultimately show ?thesis unfolding fa by (simp add: algebra_simps)
  qed
  have "linear_from s' (Suc K)"
    unfolding linear_from_def s' e4(1)
  proof (intro conjI allI impI)
    show "4096 * Suc K + 4096 * 4096 + unat ?h \<le> 4096 * NFRAMES + (unat ?e + 4096)"
      using K by (simp add: linear_from_def)
    fix v assume v: "?h + 4096 \<le> v \<and> v < ?e + 4096"
    show "sv48 t v = Some (frame_addr s (Suc K) - (?e + 4096 - v), 0xF)"
    proof (cases "?e \<le> v")
      case True
      with v show ?thesis using svt [of v] range [of v] new [of v] sg(1) by simp
    next
      case False
      then have "sv48 s v = Some (frame_addr s K - (?e - v), 0xF)" using K v by (simp add: linear_from_def not_le)
      with False show ?thesis using svt [of v] range [of v] by (simp add: fa algebra_simps)
    qed
  qed simp
  moreover have "heap_wf s'" "unat (virtual_alloc_end s') \<le> heap_limit"
    using grow_once_ok [OF wf c4] run room s'(4) e4(1) by auto
  ultimately show ?thesis using grow_once_phys [OF wf c4 ok run] by (auto simp: linear_heap_def)
qed

lemma grow_linear:
  assumes "linear_heap s" and "unat (free_list s) + unat sz + 32 \<le> heap_limit"
    and "card (used s) + 4 * n \<le> NFRAMES" and "unat sz + 32 \<le> unat (virtual_alloc_end s - free_list s) + 4096 * n"
    and "grow (free_list s) sz s = Some s'"
  shows "linear_heap s'"
  using assms
proof (induction n arbitrary: s)
  case 0
  then have "\<not> get_size (free_list s) (mem s) < sz + 32"
    using heap_size [of s] by (simp add: linear_heap_def word_less_nat_alt unat_word_ariths not_less)
  with 0 show ?case by (simp add: grow_unfold)
next
  case (Suc n)
  have wf: "heap_wf s" using Suc.prems(1) by (simp add: linear_heap_def)
  show ?case
  proof (cases "get_size (free_list s) (mem s) < sz + 32")
    case False
    with Suc.prems show ?thesis by (simp add: grow_unfold)
  next
    case True
    obtain t where t: "grow_once (free_list s) s = Some t" "heap_wf t" "grown s t"
      "unat (virtual_alloc_end t) = unat (virtual_alloc_end s) + 4096" "card (used t) \<le> card (used s) + 4"
      using grow_once_ok [OF wf] Suc.prems(3) by auto
    have ft: "free_list t = free_list s" using t(3) by (simp add: grown_def)
    have "unat (virtual_alloc_end s) < unat (free_list s) + unat (sz + 32)"
      using True heap_size [OF wf] by (simp add: word_less_nat_alt)
    moreover have "unat (sz + 32) \<le> unat sz + 32" by (simp add: unat_word_ariths)
    ultimately have lt: "unat (virtual_alloc_end s) < heap_limit" using Suc.prems(2) by linarith
    have "4096 dvd heap_limit" by (simp add: heap_limit_def VIRTUAL_HEAP_START_def)
    moreover have "4096 dvd unat (virtual_alloc_end s)" using wf by (simp add: heap_wf_def heap_mapped_def)
    ultimately obtain a b where ab: "heap_limit = 4096 * a" "unat (virtual_alloc_end s) = 4096 * b" by (elim dvdE)
    with lt have "Suc b \<le> a" by simp
    then have "unat (virtual_alloc_end s) + 4096 \<le> heap_limit" unfolding ab by simp
    then have "linear_heap t" by (rule grow_once_linear [OF Suc.prems(1) _ t(1)])
    moreover have "unat sz + 32 \<le> unat (virtual_alloc_end t - free_list t) + 4096 * n"
      using Suc.prems(4) t(4) heap_size(3,4) [OF wf] heap_size(3) [OF t(2)] ft by simp
    moreover have "card (used t) + 4 * n \<le> NFRAMES" using Suc.prems(3) t(5) by simp
    moreover have "grow (free_list t) sz t = Some s'"
      using True t(1) Suc.prems(5) ft grow_unfold [of "free_list s" sz s] by simp
    ultimately show ?thesis using Suc.IH [of t] Suc.prems(2) ft by simp
  qed
qed

text \<open>An allocation below the limit keeps the heap linear.\<close>

lemma kalloc_linear:
  assumes lin: "linear_heap s" and fit: "unat (free_list s) + unat sz + 32 \<le> heap_limit"
    and run: "kalloc sz s = Some (p, s')"
  shows "linear_heap s'" "free_list s' = free_list s + 16 + sz" "unat (free_list s') = unat (free_list s) + 16 + unat sz"
proof -
  note room = linear_room(1) [OF lin fit]
  have wf: "heap_wf s" and ok: "phys_ok s" using lin by (simp_all add: linear_heap_def)
  let ?n = "(unat sz + 32) div 4096 + 1"
  have r: "card (used s) + 4 * ?n \<le> NFRAMES" using room by (simp add: kalloc_cost_def frames_left_def)
  obtain t tx where t: "grow (free_list s) sz s = Some t" "heap_wf t" "s' = carve sz t\<lparr>out := tx\<rparr>"
    "unat sz + 32 \<le> unat (virtual_alloc_end t - free_list t)"
    using kalloc_ok [OF wf r] run by auto
  have "unat sz + 32 \<le> unat (virtual_alloc_end s - free_list s) + 4096 * ?n" by simp
  from grow_linear [OF lin fit r this t(1)] have lt: "linear_heap t" .
  have w: "heap_wf s'" "phys_ok s'" using kalloc_facts [OF wf room] kalloc_phys [OF wf room ok run] run by auto
  note c = carve_ok [OF t(2,4)]
  have "frame_addr (carve sz t) = frame_addr t"
    by (simp add: carve_def Let_def set_size_def set_last_def frame_addr_def fun_eq_iff)
  then have "used s' = used t" "sv48 s' = sv48 t" "frame_addr s' = frame_addr t" "virtual_alloc_end s' = virtual_alloc_end t"
    using c(3-5) by (simp_all add: t(3) state_simps)
  then show "linear_heap s'" by (rule linear_heap_cong [OF lt w])
  show "free_list s' = free_list s + 16 + sz" "unat (free_list s') = unat (free_list s) + 16 + unat sz"
    using kalloc_facts [OF wf room] run by auto
qed

section \<open>Stores and transfers\<close>

lemma linear_region:
  assumes "linear_heap s" and "\<forall>x. \<not> in_heap s x \<longrightarrow> m x = mem s x"
  shows "linear_heap (s\<lparr>mem := m\<rparr>)"
  using assms(1) heap_region [OF _ _ assms(2)]
  by (intro linear_heap_cong [OF assms(1)]) (simp_all add: linear_heap_def state_simps)

lemma linear_dma:
  assumes "linear_heap s" and "contiguous s buf (length bs) p"
    and "unat VIRTUAL_HEAP_START \<le> unat buf" "unat buf + length bs \<le> unat (free_list s)"
  shows "linear_heap (dma_write p bs s)"
proof -
  note d = dma_write_buffer [OF _ _ assms(2-4)]
  show ?thesis
    using assms(1) d by (intro linear_heap_cong [OF assms(1)]) (simp_all add: linear_heap_def, simp_all add: dma_write_def state_simps)
qed

section \<open>Contiguous buffers\<close>

lemma linear_contiguous:
  assumes "linear_heap s" and "unat VIRTUAL_HEAP_START + 4096 \<le> unat p" and "unat p + n \<le> unat (free_list s)"
  shows "\<exists>f. contiguous s p n f"
proof -
  obtain K where K: "linear_from s K" and wf: "heap_wf s" using assms(1) by (auto simp: linear_heap_def)
  have "sv48 s (p + of_nat i) = Some (frame_addr s K - (virtual_alloc_end s - p) + of_nat i, 0xF)" if "i < n" for i
  proof -
    have u: "unat (p + of_nat i) = unat p + i"
      using that assms(3) unat_bound [of "free_list s"] by (simp add: unat_word_ariths unat_of_nat)
    then have "VIRTUAL_HEAP_START + 4096 \<le> p + of_nat i" "p + of_nat i < virtual_alloc_end s"
      using assms(2,3) that heap_size(4) [OF wf] by (simp_all add: word_le_nat_alt word_less_nat_alt VIRTUAL_HEAP_START_def)
    then show ?thesis using K by (simp add: linear_from_def algebra_simps)
  qed
  then show ?thesis unfolding contiguous_def by blast
qed

section \<open>Start-up\<close>

lemma boot_linear:
  assumes "phys_layout s" and "frames_zero s" and "used s = {}"
    and "paging_init s = Some s1" and "virtual_allocator_init s1 = Some t"
  shows "linear_heap t"
proof -
  let ?h = VIRTUAL_HEAP_START
  have "card (used s) + 2 \<le> NFRAMES" "\<exists>K. used s = {..<K}" using assms(3) by (auto simp: NFRAMES_def)
  from paging_init_wf [OF assms(1,2) this(1)] this(2) assms(3,4) obtain K where s1: "pt_wf s1" "card (used s1) \<le> 2" "used s1 = {..<K}"
    by auto
  then have K: "K \<le> 2" by simp
  then have c4: "card (used s1) + 4 \<le> NFRAMES" using s1(2) by (simp add: NFRAMES_def)
  obtain t' where t': "virtual_allocator_init s1 = Some t'" "heap_wf t'" "card (used t') \<le> card (used s1) + 4"
    using virtual_allocator_init_ok [OF s1(1) c4] by blast
  then have t: "heap_wf t" "card (used t) \<le> 6" using assms(5) s1(2) by simp_all
  have ok: "phys_ok t" by (rule boot_phys [OF assms])
  define s0 where "s0 = log VIRTUAL_MEMORY ''Initialising virtual allocator'' [] s1"
  obtain f s2 u ty where u: "kalloc_frame s0 = Some (f, s2)" "map_page ?h f 0xF s2 = Some u"
    "t = (set_last ?h (set_size ?h 4096 u))\<lparr>free_list := ?h, virtual_alloc_end := ?h + 4096\<rparr>\<lparr>out := ty\<rparr>"
    using assms(5) unfolding virtual_allocator_init_def Let_def s0_def [symmetric]
    by (auto simp: PAGE_SIZE_def log_eq split: bind_splits)
  have e: "virtual_alloc_end t = ?h + 4096" unfolding u(3) by simp
  have s0: "pt_wf s0" "used s0 = {..<K}" "K + 4 \<le> NFRAMES" using s1 K by (simp_all add: s0_def NFRAMES_def)
  have "unat ?h < unat ?h + 2 ^ 30" by simp
  note hp = heap_page [OF order_refl this]
  obtain K' where K': "used u = {..<K'}" using fresh_page_segment(2) [OF s0 hp u(1,2)] by blast
  have "used t = used u"
  proof -
    have "8 \<le> unat (x - ?h)" if "in_pool t x" for x
    proof (rule ccontr)
      assume "\<not> 8 \<le> unat (x - ?h)"
      then have "unat ?h \<le> unat x"
        using unat_in_range [of x ?h 8] by (simp add: VIRTUAL_HEAP_START_def)
      with that t(1) heap_not_in_pool [of t x] show False by (simp add: heap_wf_def pt_wf_def)
    qed
    have "mem (set_last ?h (set_size ?h 4096 u)) x = mem u x" if "in_pool u x" for x
    proof -
      have "in_pool t x" using that by (simp add: u(3) in_pool_def set_last_def set_size_def)
      with \<open>\<And>x. in_pool t x \<Longrightarrow> 8 \<le> unat (x - ?h)\<close> show ?thesis by (simp add: set_last_out set_size_out)
    qed
    from used_outside [of u, OF this] show ?thesis
      unfolding u(3) by (simp add: set_last_def set_size_def used_def flag_addr_def)
  qed
  then have "used t = {..<K'}" "K' \<le> 6" using K' t(2) by simp_all
  moreover have "unat (?h + 4096) = unat ?h + 4096" by (simp add: VIRTUAL_HEAP_START_def)
  ultimately have "used t = {..<K'} \<and>
      4096 * K' + 4096 * 4096 + unat ?h \<le> 4096 * NFRAMES + unat (?h + 4096)" by (simp add: NFRAMES_def)
  then have "linear_from t K'" unfolding linear_from_def e by (meson not_le)
  then show ?thesis
    using t(1) ok e by (auto simp: linear_heap_def heap_limit_def VIRTUAL_HEAP_START_def)
qed

text \<open>Several allocations from a linear heap.\<close>

lemma kallocs_linear:
  assumes "linear_heap s" and "unat (free_list s) + (\<Sum>sz \<leftarrow> szs. 16 + unat sz) + 16 \<le> heap_limit"
  shows "\<exists>ps u. kallocs szs s = Some (ps, u) \<and> linear_heap u \<and> length ps = length szs \<and>
    unat (free_list u) = unat (free_list s) + (\<Sum>sz \<leftarrow> szs. 16 + unat sz) \<and>
    (\<forall>i < length szs. unat (ps ! i) + unat (szs ! i) \<le> unat (free_list u))"
  using assms
proof (induction szs arbitrary: s)
  case (Cons sz szs)
  have fit: "unat (free_list s) + unat sz + 32 \<le> heap_limit" using Cons.prems(2) by simp
  have wf: "heap_wf s" using Cons.prems(1) by (simp add: linear_heap_def)
  obtain t where t: "kalloc sz s = Some (free_list s + 16, t)" "unat (free_list t) = unat (free_list s) + 16 + unat sz"
    using kalloc_facts [OF wf linear_room(1) [OF Cons.prems(1) fit]] by blast
  have p: "unat (free_list s + 16) + unat sz = unat (free_list t)"
    using t(2) unat_bound [of "free_list t"] by (simp add: unat_word_ariths)
  have "unat (free_list t) + (\<Sum>sz \<leftarrow> szs. 16 + unat sz) + 16 \<le> heap_limit" using Cons.prems(2) t(2) by simp
  from Cons.IH [OF kalloc_linear(1) [OF Cons.prems(1) fit t(1)] this] obtain ps u where
    u: "kallocs szs t = Some (ps, u)" "linear_heap u" "length ps = length szs"
    "unat (free_list u) = unat (free_list t) + (\<Sum>sz \<leftarrow> szs. 16 + unat sz)"
    "\<forall>i < length szs. unat (ps ! i) + unat (szs ! i) \<le> unat (free_list u)" by blast
  have "\<forall>i < length (sz # szs). unat (((free_list s + 16) # ps) ! i) + unat ((sz # szs) ! i) \<le> unat (free_list u)"
    using u(4,5) p by (auto simp: less_Suc_eq_0_disj)
  then show ?case using t u by (intro exI [of _ "(free_list s + 16) # ps"] exI [of _ u]) simp
qed simp

text \<open>
  C13: the buffers that the drivers hand to a device during start-up are physically contiguous, although
  \<^verbatim>\<open>kalloc\<close> only promises virtual contiguity. Once \<^verbatim>\<open>paging_init\<close> and
  \<^verbatim>\<open>virtual_allocator_init\<close> have run on an unused pool, every sequence of allocations within the
  first two megabytes succeeds, and each block behind the first page of the heap lies on consecutive
  physical addresses, across page boundaries too.
\<close>

theorem boot_buffers_contiguous:
  assumes "phys_layout s" and "frames_zero s" and "used s = {}"
    and "paging_init s = Some s1" and "virtual_allocator_init s1 = Some t"
    and "(\<Sum>sz \<leftarrow> szs. 16 + unat sz) + 16 \<le> 2 ^ 21"
  shows "\<exists>ps u. kallocs szs t = Some (ps, u) \<and> heap_wf u \<and> length ps = length szs \<and>
    (\<forall>i < length szs. VIRTUAL_HEAP_START + 4096 \<le> ps ! i \<longrightarrow> (\<exists>f. contiguous u (ps ! i) (unat (szs ! i)) f))"
proof -
  have lin: "linear_heap t" by (rule boot_linear [OF assms(1-5)])
  have "card (used s) + 2 \<le> NFRAMES" using assms(3) by (simp add: NFRAMES_def)
  from paging_init_wf [OF assms(1,2) this] assms(3,4) have s1: "pt_wf s1" "card (used s1) + 4 \<le> NFRAMES"
    by (auto simp: NFRAMES_def)
  from virtual_allocator_init_ok [OF this] assms(5) have "free_list t = VIRTUAL_HEAP_START" by auto
  then have "unat (free_list t) + (\<Sum>sz \<leftarrow> szs. 16 + unat sz) + 16 \<le> heap_limit"
    using assms(6) by (simp add: heap_limit_def)
  from kallocs_linear [OF lin this] obtain ps u where u: "kallocs szs t = Some (ps, u)" "linear_heap u" "length ps = length szs"
    "\<forall>i < length szs. unat (ps ! i) + unat (szs ! i) \<le> unat (free_list u)" by blast
  have "\<exists>f. contiguous u (ps ! i) (unat (szs ! i)) f" if "i < length szs" "VIRTUAL_HEAP_START + 4096 \<le> ps ! i" for i
    using that u(4) by (intro linear_contiguous [OF u(2)]) (simp_all add: word_le_nat_alt VIRTUAL_HEAP_START_def)
  with u show ?thesis by (auto simp: linear_heap_def)
qed

theorem boot_buffers_contiguous_witness:
  "\<exists>s t p q u f. paging_init sample_heap = Some s \<and> virtual_allocator_init s = Some t \<and>
     kallocs [5000, 6672] t = Some ([p, q], u) \<and> contiguous u q 6672 f"
proof -
  obtain s t where t: "paging_init sample_heap = Some s" "virtual_allocator_init s = Some t" "heap_wf t"
    "card (used t) \<le> 6" "free_list t = VIRTUAL_HEAP_START"
    by (rule sample_heap_wf)
  have "(\<Sum>sz \<leftarrow> [5000, 6672 :: u64]. 16 + unat sz) + 16 \<le> 2 ^ 21" by simp
  from boot_buffers_contiguous [OF sample_heap_ok t(1,2) this] obtain ps u where
    u: "kallocs [5000, 6672] t = Some (ps, u)" "length ps = 2"
    "\<forall>i < length [5000, 6672 :: u64]. VIRTUAL_HEAP_START + 4096 \<le> ps ! i \<longrightarrow> (\<exists>f. contiguous u (ps ! i) (unat ([5000, 6672 :: u64] ! i)) f)"
    by auto
  obtain p q where pq: "ps = [p, q]" using u(2) by (auto simp: length_Suc_conv numeral_2_eq_2)
  have "sum_list (map kalloc_cost [5000, 6672]) \<le> frames_left t"
    using t(4) by (simp add: kalloc_cost_def frames_left_def NFRAMES_def)
  from kh.allocs_blocks [OF t(3) this] u(1) pq have "unat (free_list t) < unat p \<and> unat p + 5000 < unat q"
    unfolding kallocs_allocs by auto
  then have "VIRTUAL_HEAP_START + 4096 \<le> q" using t(5) by (simp add: word_le_nat_alt VIRTUAL_HEAP_START_def)
  with u(3) [rule_format, of 1] pq have "\<exists>f. contiguous u q 6672 f" by simp
  with t(1,2) u(1) pq show ?thesis by blast
qed

end
