(* ===== verification/Kernel_Image.thy ===== *)
theory Kernel_Image
  imports Linear_Heap
begin

text \<open>
  The kernel image: code, data and string literals, which the linker places at the start of RAM,
  below the frames that the allocator manages. It is seen through the direct map. The memory managers,
  stores into heap objects and the transfers of a device into heap buffers leave it alone; the lemmas
  here say so once for each of them. \<open>R\<close> is the image: where it ends and what it holds.
\<close>

type_synonym image = "u64 \<times> mem"

definition in_image :: "'a phys_scheme \<Rightarrow> u64 \<Rightarrow> bool" where
  "in_image s x \<longleftrightarrow> unat VIRTUAL_OFFSET \<le> unat x \<and> unat x < unat (managed_frames_address_start s)"

definition kernel_image :: "image \<Rightarrow> 'a phys_scheme \<Rightarrow> bool" where
  "kernel_image R s \<longleftrightarrow> managed_frames_address_start s = fst R \<and> (\<forall>x. in_image s x \<longrightarrow> mem s x = snd R x)"

lemma image_out [simp]: "kernel_image R (s\<lparr>out := tx\<rparr>) = kernel_image R s"
  by (simp add: kernel_image_def in_image_def)

lemma image_kept:
  assumes "kernel_image R s" and "managed_frames_address_start s' = managed_frames_address_start s"
    and "\<And>x. in_image s x \<Longrightarrow> mem s' x = mem s x"
  shows "kernel_image R s'"
  using assms by (simp add: kernel_image_def in_image_def)

lemma in_image_facts:
  assumes "phys_layout s" and "in_image s x"
  shows "\<not> in_pool s x" "unat x < unat VIRTUAL_HEAP_START" "x - VIRTUAL_OFFSET < 0x100000000"
proof -
  note b = assms(2) [unfolded in_image_def] pool_start [OF assms(1)]
  have p: "unat (phys_base s) < 2 ^ 32" using assms(1) by (simp add: phys_layout_def NFRAMES_def)
  show "\<not> in_pool s x"
  proof
    assume "in_pool s x"
    then have "unat x = unat (managed_frames_address_start s) + unat (x - managed_frames_address_start s)"
      by (intro unat_in_range [OF _ pool_top [OF assms(1)]]) (simp add: in_pool_def)
    with b show False by simp
  qed
  show "unat x < unat VIRTUAL_HEAP_START" using b p by (simp add: VIRTUAL_OFFSET_def VIRTUAL_HEAP_START_def)
  show "x - VIRTUAL_OFFSET < 0x100000000" using b p by (simp add: word_less_nat_alt unat_sub word_le_nat_alt) linarith
qed

lemma below_heap:
  assumes "heap_wf s" and "unat x < unat VIRTUAL_HEAP_START"
  shows "16 \<le> unat (x - free_list s)"
  using assms(2) heap_base [OF assms(1)] heap_top [OF assms(1)] unat_in_range [of x "free_list s" 16]
  by (force simp: VIRTUAL_HEAP_START_def)

section \<open>The heap and its clients\<close>

lemma image_kalloc:
  assumes wf: "heap_wf s" and room: "kalloc_cost sz \<le> frames_left s" and run: "kalloc sz s = Some (p, s')" and R: "kernel_image R s"
  shows "kernel_image R s'"
proof (rule image_kept [OF R])
  have lay: "phys_layout s" using wf by (simp add: heap_wf_def pt_wf_def)
  have h: "heap_only s s'" by (rule kalloc_only [OF run])
  show "managed_frames_address_start s' = managed_frames_address_start s"
    using h by (cases s, cases s') (simp add: heap_only_def)
  fix x assume "in_image s x"
  note x = in_image_facts [OF lay this]
  obtain t where t: "kalloc sz s = Some (free_list s + 16, t)" "heap_wf t"
    "\<And>x. \<not> in_pool s x \<Longrightarrow> 16 \<le> unat (x - free_list s) \<Longrightarrow> 8 \<le> unat (x - free_list t) \<Longrightarrow> mem t x = mem s x"
    using kalloc_facts [OF wf room] by metis
  then have "t = s'" "8 \<le> unat (x - free_list t)" using run below_heap [OF t(2) x(2)] by simp_all
  then show "mem s' x = mem s x" using t(3) [OF x(1) below_heap [OF wf x(2)]] by simp
qed

lemma image_region:
  assumes "heap_wf s" and "kernel_image R s" and "\<forall>x. \<not> in_heap s x \<longrightarrow> m x = mem s x"
  shows "kernel_image R (s\<lparr>mem := m\<rparr>)"
proof (rule image_kept [OF assms(2)])
  fix x assume "in_image s x"
  then have "unat x < unat VIRTUAL_HEAP_START"
    using assms(1) by (intro in_image_facts(2) [of s]) (simp_all add: heap_wf_def pt_wf_def)
  then have "\<not> in_heap s x" by (simp add: in_heap_def)
  with assms(3) show "mem (s\<lparr>mem := m\<rparr>) x = mem s x" by simp
qed simp

lemma image_dma:
  assumes wf: "heap_wf s" and ok: "phys_ok s" and R: "kernel_image R s" and cont: "contiguous s buf (length bs) p"
    and buf: "unat VIRTUAL_HEAP_START \<le> unat buf" "unat buf + length bs \<le> unat (free_list s)"
  shows "kernel_image R (dma_write p bs s)"
proof (rule image_kept [OF R])
  have lay: "phys_layout s" using wf by (simp add: heap_wf_def pt_wf_def)
  fix x assume "in_image s x"
  note x = in_image_facts [OF lay this]
  let ?p = "x - VIRTUAL_OFFSET"
  have sv: "sv48 s x = Some (?p, 0xF)"
    using direct_map_address [OF x(3)] ok by (simp add: phys_ok_def direct_ok_def)
  have "\<not> unat (?p - p) < length bs"
  proof
    assume l: "unat (?p - p) < length bs"
    let ?v = "buf + of_nat (unat (?p - p))"
    obtain fl where fl: "sv48 s ?v = Some (?p, fl)" using cont l unfolding contiguous_def by fastforce
    have "unat ?v = unat buf + unat (?p - p)"
      using l buf(2) unat_bound [of "free_list s"] by (simp add: unat_word_ariths)
    then have "\<not> direct ?v" using l buf by (intro heap_not_direct(2) [OF wf]) simp_all
    from leaf_data_page [OF lay ok this fl] obtain i where "i \<in> used s" "unat (x - page_of s i) < 4096"
      by (auto simp: data_page_def)
    then have "in_pool s x" by (intro page_in_pool [OF lay used_bound])
    with x(1) show False by simp
  qed
  then show "mem (dma_write p bs s) x = mem s x" using sv by (simp add: dma_write_def)
qed (simp add: dma_write_def)

section \<open>Start-up\<close>

lemma boot_image:
  assumes "phys_layout s" and "frames_zero s" and "used s = {}"
    and "paging_init s = Some s1" and "virtual_allocator_init s1 = Some t" and R: "kernel_image R s"
  shows "kernel_image R t" "managed_frames_address_start t = managed_frames_address_start s"
proof -
  have "card (used s) + 2 \<le> NFRAMES" using assms(3) by (simp add: NFRAMES_def)
  from paging_init_wf [OF assms(1,2) this] assms(3,4) have s1: "pt_wf s1" "card (used s1) + 4 \<le> NFRAMES"
    "managed_frames_address_start s1 = managed_frames_address_start s" "\<And>x. \<not> in_pool s x \<Longrightarrow> mem s1 x = mem s x"
    by (auto simp: NFRAMES_def)
  from virtual_allocator_init_ok [OF s1(1,2)] assms(5) have t: "managed_frames_address_start t = managed_frames_address_start s1"
    "\<And>x. \<not> in_pool s1 x \<Longrightarrow> unat x < unat VIRTUAL_HEAP_START \<Longrightarrow> mem t x = mem s1 x" by auto
  have "in_pool s1 = in_pool s" using s1(3) by (simp add: in_pool_def fun_eq_iff)
  then show "kernel_image R t"
    using s1(3,4) t in_image_facts(1,2) [OF assms(1)] by (intro image_kept [OF R]) simp_all
  show "managed_frames_address_start t = managed_frames_address_start s" using s1(3) t(1) by simp
qed

end
