(* ===== verification/Cstring.thy ===== *)
theory Cstring
  imports Kernel_Image
begin

text \<open>
  C strings in memory. The kernel measures strings with the same loop in several places
  (\<^verbatim>\<open>Path::Path\<close>, \<^verbatim>\<open>Path::copy_into\<close>,
  \<^verbatim>\<open>EXT2LinkedListDirectory::matches\<close>, \<^verbatim>\<open>EXT2::get_inode_from_dir\<close>): it
  counts bytes until it meets a zero. \<open>strlen_loop\<close> is that loop; \<open>None\<close> is a string
  that never ends. \<open>cstr\<close> is the text a pointer denotes, for the \<^verbatim>\<open>%s\<close>
  conversions, and \<open>is_cstr\<close> says that a text is stored at an address with its terminator.

  \<open>new_zeroed\<close> is a C++ \<^verbatim>\<open>new T()\<close> of a class without a constructor of its own:
  the language zero-initialises the object.
\<close>

partial_function (option) strlen_loop :: "u64 \<Rightarrow> u64 \<Rightarrow> mem \<Rightarrow> u64 option" where
  "strlen_loop p n m = (if m (p + n) \<noteq> 0 then strlen_loop p (n + 1) m else Some n)"

definition cstr :: "mem \<Rightarrow> u64 \<Rightarrow> string" where
  "cstr m p = (case strlen_loop p 0 m of
     None \<Rightarrow> [] | Some n \<Rightarrow> map char_of_byte (load_bytes m p (unat n)))"

definition is_cstr :: "mem \<Rightarrow> u64 \<Rightarrow> string \<Rightarrow> bool" where
  "is_cstr m p xs \<longleftrightarrow> length xs < 2 ^ 63 \<and> CHR 0x00 \<notin> set xs \<and>
     (\<forall>i < length xs. m (p + of_nat i) = byte_of_char (xs ! i)) \<and> m (p + of_nat (length xs)) = 0"

definition new_zeroed :: "u64 \<Rightarrow> 'a vheap_scheme \<Rightarrow> (u64 \<times> 'a vheap_scheme) option" where
  "new_zeroed sz s = do {
     (p, s) \<leftarrow> operator_new sz s;
     Some (p, s\<lparr>mem := store_bytes (mem s) p (replicate (unat sz) 0)\<rparr>)
   }"

text \<open>Stores to memory, as state updates.\<close>

definition put8 :: "u64 \<Rightarrow> u8 \<Rightarrow> 'a kio_scheme \<Rightarrow> 'a kio_scheme" where
  "put8 a v s = s\<lparr>mem := (mem s)(a := v)\<rparr>"

definition put16 :: "u64 \<Rightarrow> u16 \<Rightarrow> 'a kio_scheme \<Rightarrow> 'a kio_scheme" where
  "put16 a v s = s\<lparr>mem := st16 (mem s) a v\<rparr>"

definition put32 :: "u64 \<Rightarrow> u32 \<Rightarrow> 'a kio_scheme \<Rightarrow> 'a kio_scheme" where
  "put32 a v s = s\<lparr>mem := st32 (mem s) a v\<rparr>"

definition put64 :: "u64 \<Rightarrow> u64 \<Rightarrow> 'a kio_scheme \<Rightarrow> 'a kio_scheme" where
  "put64 a v s = s\<lparr>mem := st64 (mem s) a v\<rparr>"

text \<open>The \<open>n\<close> bytes at \<open>p\<close> can be accessed: the hardware translates every address.\<close>

definition mapped_range :: "'a paging_scheme \<Rightarrow> u64 \<Rightarrow> nat \<Rightarrow> bool" where
  "mapped_range s p n \<longleftrightarrow> (\<forall>i<n. sv48 s (p + of_nat i) \<noteq> None)"

section \<open>Lemmas\<close>

lemma byte_of_char_0 [simp]: "byte_of_char c = 0 \<longleftrightarrow> c = CHR 0x00"
proof -
  have "byte_of_char (CHR 0x00) = 0" by (simp add: byte_of_char_def)
  then show ?thesis by (metis byte_of_char_eq_iff)
qed

lemma is_cstr_nth:
  "is_cstr m p xs \<Longrightarrow> i < length xs \<Longrightarrow> m (p + of_nat i) = byte_of_char (xs ! i) \<and> m (p + of_nat i) \<noteq> 0"
  unfolding is_cstr_def by (metis byte_of_char_0 nth_mem)

lemma strlen_loop_cstr:
  assumes "is_cstr m p xs" and "i \<le> length xs"
  shows "strlen_loop p (of_nat i) m = Some (of_nat (length xs))"
  using assms(2)
proof (induction "length xs - i" arbitrary: i)
  case 0
  then show ?case using assms(1) by (subst strlen_loop.simps) (simp add: is_cstr_def)
next
  case (Suc k)
  then have "i < length xs" by simp
  then have "strlen_loop p (of_nat i) m = strlen_loop p (of_nat (Suc i)) m"
    using is_cstr_nth [OF assms(1), of i] by (subst strlen_loop.simps) (auto simp: add.commute)
  also have "\<dots> = Some (of_nat (length xs))"
    using Suc.hyps by (intro Suc.hyps(1)) simp_all
  finally show ?case .
qed

lemma strlen_cstr: "is_cstr m p xs \<Longrightarrow> strlen_loop p 0 m = Some (of_nat (length xs))"
  using strlen_loop_cstr [of m p xs 0] by simp

lemma unat_length_cstr: "is_cstr m p xs \<Longrightarrow> unat (of_nat (length xs) :: u64) = length xs"
  by (auto simp: is_cstr_def intro: unat_of_nat_small [of _ "2 ^ 64"])

lemma cstr_is_cstr: "is_cstr m p xs \<Longrightarrow> cstr m p = xs"
  unfolding cstr_def
  by (simp add: strlen_cstr unat_length_cstr)
    (auto intro!: nth_equalityI simp: is_cstr_def)

lemma is_cstr_cong:
  assumes "is_cstr m p xs" and "\<And>i. i \<le> length xs \<Longrightarrow> m' (p + of_nat i) = m (p + of_nat i)"
  shows "is_cstr m' p xs"
  using assms by (simp add: is_cstr_def)

lemma is_cstr_store:
  assumes "length xs < 2 ^ 63" and "CHR 0x00 \<notin> set xs"
  shows "is_cstr (store_bytes m p (map byte_of_char xs @ [0])) p xs"
  using assms by (auto simp: is_cstr_def store_bytes_def nth_append unat_of_nat)

section \<open>Objects on the kernel heap\<close>

text \<open>An object of \<open>n\<close> bytes in an allocated block.\<close>

definition heap_block :: "'a vheap_scheme \<Rightarrow> u64 \<Rightarrow> nat \<Rightarrow> bool" where
  "heap_block s p n \<longleftrightarrow> unat VIRTUAL_HEAP_START \<le> unat p \<and> unat p + n \<le> unat (free_list s)"

text \<open>Two objects that do not overlap.\<close>

definition apart :: "u64 \<Rightarrow> nat \<Rightarrow> u64 \<Rightarrow> nat \<Rightarrow> bool" where
  "apart p n q k \<longleftrightarrow> unat p + n \<le> unat q \<or> unat q + k \<le> unat p"

lemma put64_simps [simp]:
  "mem (put64 a v s) = st64 (mem s) a v" "out (put64 a v s) = out s" "logLevel (put64 a v s) = logLevel s"
  "free_list (put64 a v h) = free_list h" "virtual_alloc_end (put64 a v h) = virtual_alloc_end h"
  by (simp_all add: put64_def)

lemma heap_block_put64 [simp]: "heap_block (put64 a v s) p n = heap_block s p n"
  by (simp add: heap_block_def)

lemma heap_block_offset:
  assumes "heap_block s p n" and "k + j \<le> n"
  shows "heap_block s (p + of_nat k) j" "unat (p + of_nat k) = unat p + k"
proof -
  have "unat p + k < 2 ^ 64 \<or> k = 0"
    using assms unat_bound [of "free_list s"] by (auto simp: heap_block_def)
  then show "unat (p + of_nat k) = unat p + k"
    by (cases "k = 0") (auto simp: unat_word_ariths unat_of_nat)
  then show "heap_block s (p + of_nat k) j"
    using assms by (simp add: heap_block_def)
qed

lemma heap_wf_put64:
  assumes "heap_wf s" and "heap_block s a 8"
  shows "heap_wf (put64 a v s)" "sv48 (put64 a v s) = sv48 s" "frames_left (put64 a v s) = frames_left s"
  using heap_store [OF assms(1), of a "bytes_of 8 v"] assms(2)
  by (simp_all add: heap_block_def put64_def st64_def)

lemma heap_block_bound: "heap_wf s \<Longrightarrow> heap_block s p n \<Longrightarrow> unat p + n < 2 ^ 64 - 2 ^ 40"
  using heap_top [of s] by (auto simp: heap_block_def VIRTUAL_HEAP_START_def)

lemma apart_disj:
  assumes "heap_wf s" and "heap_block s p n" and "heap_block s q k" and "apart p n q k" and "0 < n" "0 < k"
  shows "disj p n q k"
  using assms heap_block_bound [OF assms(1,2)] heap_block_bound [OF assms(1,3)]
  by (intro disj_nat) (auto simp: apart_def)

lemma ld64_put64_apart:
  assumes "heap_wf s" and "heap_block s p 8" and "heap_block s q 8" and "apart p 8 q 8"
  shows "ld64 (st64 m p v) q = ld64 m q"
  by (rule ld64_st64_disj, rule apart_disj [OF assms]) simp_all

lemma kalloc_block:
  assumes wf: "heap_wf s" and room: "kalloc_cost sz \<le> frames_left s"
  obtains p s' where "kalloc sz s = Some (p, s')" "heap_wf s'" "heap_only s s'"
    "p = free_list s + 16" "unat p = unat (free_list s) + 16" "heap_block s' p (unat sz)"
    "frames_left s \<le> frames_left s' + kalloc_cost sz"
    "\<forall>a n. heap_block s a n \<longrightarrow> heap_block s' a n"
    "\<forall>x. unat VIRTUAL_HEAP_START \<le> unat x \<longrightarrow> unat x < unat (free_list s) \<longrightarrow> mem s' x = mem s x"
proof -
  obtain s' where k: "kalloc sz s = Some (free_list s + 16, s')" "heap_wf s'" "heap_only s s'"
    "unat (free_list s') = unat (free_list s) + 16 + unat sz"
    "frames_left s \<le> frames_left s' + kalloc_cost sz"
    using kalloc_step [OF wf room] by metis
  have u: "unat (free_list s + 16) = unat (free_list s) + 16"
    using heap_top [OF wf] by (simp add: unat_word_ariths VIRTUAL_HEAP_START_def)
  show ?thesis
    using that [OF k(1-3) refl u _ k(5)] kh.alloc_keeps [OF wf room k(1)] heap_base [OF wf] k(4) u
    by (auto simp: heap_block_def)
qed

lemma ld64_block_cong:
  assumes "heap_block s a 8"
    and "\<And>x. unat VIRTUAL_HEAP_START \<le> unat x \<Longrightarrow> unat x < unat (free_list s) \<Longrightarrow> m' x = mem s x"
  shows "ld64 m' a = ld64 (mem s) a"
proof (rule ld64_cong)
  fix x assume x: "unat (x - a) < 8"
  then have "unat x = unat a + unat (x - a)"
    using assms(1) unat_bound [of "free_list s"] by (intro unat_in_range [of _ _ 8]) (auto simp: heap_block_def)
  with x assms show "m' x = mem s x" by (auto simp: heap_block_def)
qed

lemma new_zeroed_ok:
  assumes wf: "heap_wf s" and room: "kalloc_cost sz \<le> frames_left s"
  obtains p s' where "new_zeroed sz s = Some (p, s')" "heap_wf s'" "heap_only s s'"
    "p = free_list s + 16" "unat p = unat (free_list s) + 16" "heap_block s' p (unat sz)"
    "frames_left s \<le> frames_left s' + kalloc_cost sz"
    "\<forall>a n. heap_block s a n \<longrightarrow> heap_block s' a n"
    "\<forall>x. unat VIRTUAL_HEAP_START \<le> unat x \<longrightarrow> unat x < unat (free_list s) \<longrightarrow> mem s' x = mem s x"
    "load_bytes (mem s') p (unat sz) = replicate (unat sz) 0"
proof -
  obtain p t where k: "kalloc sz s = Some (p, t)" "heap_wf t" "heap_only s t"
    "p = free_list s + 16" "unat p = unat (free_list s) + 16" "heap_block t p (unat sz)"
    "frames_left s \<le> frames_left t + kalloc_cost sz"
    "\<forall>a n. heap_block s a n \<longrightarrow> heap_block t a n"
    "\<forall>x. unat VIRTUAL_HEAP_START \<le> unat x \<longrightarrow> unat x < unat (free_list s) \<longrightarrow> mem t x = mem s x"
    by (rule kalloc_block [OF wf room])
  let ?z = "replicate (unat sz) (0 :: u8)"
  let ?s' = "t\<lparr>mem := store_bytes (mem t) p ?z\<rparr>"
  have e: "new_zeroed sz s = Some (p, ?s')"
    using k(1) by (simp add: new_zeroed_def operator_new_def)
  have st: "heap_wf ?s'" "frames_left ?s' = frames_left t"
    using heap_store [OF k(2), of p ?z] k(6) by (simp_all add: heap_block_def)
  have ho: "heap_only s ?s'"
    by (rule heap_only_trans [OF k(3)]) (simp add: heap_only_def)
  have old: "mem ?s' x = mem s x" if "unat VIRTUAL_HEAP_START \<le> unat x" "unat x < unat (free_list s)" for x
  proof -
    have "unat sz \<le> unat (x - p)"
    proof (rule ccontr)
      assume "\<not> unat sz \<le> unat (x - p)"
      then have "unat x = unat p + unat (x - p)"
        using heap_block_bound [OF k(2,6)] by (intro unat_in_range [of _ _ "unat sz"]) auto
      with that k(5) show False by simp
    qed
    then show ?thesis using k(9) that by (simp add: store_bytes_out)
  qed
  have "load_bytes (mem ?s') p (unat sz) = ?z"
    using unat_bound [of sz] by (simp add: load_store_same)
  then show ?thesis
    using k(6-8) st(2) old by (intro that [OF e st(1) ho k(4,5)]) (simp_all add: heap_block_def)
qed

lemma heap_only_put64: "heap_only s (put64 a v s)"
  by (simp add: put64_def heap_only_def)

lemma heap_fields:
  assumes "heap_block s p 24"
  shows "heap_block s p 8" "heap_block s (p + 8) 8" "heap_block s (p + 16) 8"
    "unat (p + 8) = unat p + 8" "unat (p + 16) = unat p + 16"
  using heap_block_offset [OF assms, of 0 8] heap_block_offset [OF assms, of 8 8]
    heap_block_offset [OF assms, of 16 8] by simp_all

lemma heap_wf_cong:
  assumes "mem s = mem t" "first_level_table s = first_level_table t"
    "managed_frames_address_start s = managed_frames_address_start t"
    "first_frame_address s = first_frame_address t" "free_list s = free_list t"
    "virtual_alloc_end s = virtual_alloc_end t"
  shows "heap_wf s = heap_wf t" "sv48 s = sv48 t" "frames_left s = frames_left t"
    "heap_block s = heap_block t"
proof -
  note c = pt_wf_cong [OF assms(1-4)]
  show "sv48 s = sv48 t" by (rule c)
  show "frames_left s = frames_left t" using c by (simp add: frames_left_def)
  show "heap_block s = heap_block t" using assms(5) by (simp add: heap_block_def fun_eq_iff)
  show "heap_wf s = heap_wf t" using c assms by (simp add: heap_wf_def heap_mapped_def)
qed

lemma heap_wf_printf [simp]: "heap_wf (printf fmt args s) = heap_wf s"
  by (simp add: printf_eq heap_wf_out)

end
