(* ===== verification/Virtio.thy ===== *)
theory Virtio
  imports Cstring
begin

text \<open>
  The virtio drivers: \<^verbatim>\<open>kernel/drivers/virtio/virtio.h\<close>, \<^verbatim>\<open>blk.h\<close>,
  \<^verbatim>\<open>blk.cpp\<close>, \<^verbatim>\<open>console.h\<close> and \<^verbatim>\<open>console.cpp\<close>.

  Driver objects, virtqueues and requests are objects in kernel memory, reached by their address;
  the offsets of their members are those of the LP64 layout. A device is the parameter \<open>V\<close>:
  functions that read and write its memory-mapped registers, and \<open>vserve\<close>, what the device
  does with a block request (the bytes it delivers, the status it reports; \<open>None\<close> when it
  never completes). Its answer reaches memory by DMA at physical addresses: \<open>dma_write\<close>
  of Phys_Map changes every virtual address that the hardware translates into the written range.
\<close>

section \<open>Layout of the device registers and of the driver objects\<close>

definition VIRTIO_START :: u64 where
  [layout_defs]: "VIRTIO_START = 0x10001000 + VIRTUAL_OFFSET"

definition VIRTIO_AMOUNT :: u64 where
  [layout_defs]: "VIRTIO_AMOUNT = 8"

definition VIRTIO_SIZE :: u64 where
  [layout_defs]: "VIRTIO_SIZE = 0x1000"

definition VIRTIO_QUEUE_SIZE :: u32 where
  [layout_defs]: "VIRTIO_QUEUE_SIZE = 256"

text \<open>\<^verbatim>\<open>class VirtIODeviceRegisters\<close>: the byte offset of each register the drivers use.\<close>

datatype VirtIODeviceRegisters = magic_value | version | device_id | device_features
  | device_features_sel | driver_features | driver_features_sel | queue_sel | queue_num_max
  | queue_num | queue_ready | queue_notify | status | queue_desc | queue_driver | queue_device

fun reg_offset :: "VirtIODeviceRegisters \<Rightarrow> u64" where
  "reg_offset magic_value = 0x00"
| "reg_offset version = 0x04"
| "reg_offset device_id = 0x08"
| "reg_offset device_features = 0x10"
| "reg_offset device_features_sel = 0x14"
| "reg_offset driver_features = 0x20"
| "reg_offset driver_features_sel = 0x24"
| "reg_offset queue_sel = 0x30"
| "reg_offset queue_num_max = 0x34"
| "reg_offset queue_num = 0x38"
| "reg_offset queue_ready = 0x44"
| "reg_offset queue_notify = 0x50"
| "reg_offset status = 0x70"
| "reg_offset queue_desc = 0x80"
| "reg_offset queue_driver = 0x90"
| "reg_offset queue_device = 0xA0"

definition VIRTQ_DESC_F_NEXT :: u16 where
  "VIRTQ_DESC_F_NEXT = 1"

definition VIRTQ_DESC_F_WRITE :: u16 where
  "VIRTQ_DESC_F_WRITE = 2"

text \<open>
  \<^verbatim>\<open>VirtQueue\<close>: 256 descriptors of 16 bytes, then the available ring (518 bytes), then, at
  the next multiple of four, the used ring (2056 bytes).
\<close>

definition desc_addr :: "u64 \<Rightarrow> u64 \<Rightarrow> u64" where
  "desc_addr queue i = queue + 16 * i"

definition avail_addr :: "u64 \<Rightarrow> u64" where
  "avail_addr queue = queue + 4096"

definition used_addr :: "u64 \<Rightarrow> u64" where
  "used_addr queue = queue + 4616"

definition sizeof_VirtQueue :: u64 where
  "sizeof_VirtQueue = 6672"

text \<open>\<^verbatim>\<open>VirtIOBlkRequest\<close>: the 16-byte header, 512 data bytes, the status byte.\<close>

definition status_addr :: "u64 \<Rightarrow> u64" where
  "status_addr request = request + 528"

definition sizeof_VirtIOBlkRequest :: u64 where
  "sizeof_VirtIOBlkRequest = 536"

section \<open>State and device\<close>

record 'd vio = vheap +
  dev :: 'd
  block_device :: u64
  console_device :: u64

record blk_request =
  rq_type :: u32
  rq_sector :: u64
  rq_len :: nat
  rq_data :: "u8 list"

record 'd vio_ops =
  vrd :: "u64 \<Rightarrow> 'd \<Rightarrow> u32"
  vwr :: "u64 \<Rightarrow> u32 \<Rightarrow> 'd \<Rightarrow> 'd"
  vwr64 :: "u64 \<Rightarrow> u64 \<Rightarrow> 'd \<Rightarrow> 'd"
  vwr8 :: "u64 \<Rightarrow> u8 \<Rightarrow> 'd \<Rightarrow> 'd"
  vserve :: "blk_request \<Rightarrow> 'd \<Rightarrow> (u8 list \<times> u8 \<times> 'd) option"

definition rreg :: "'d vio_ops \<Rightarrow> u64 \<Rightarrow> VirtIODeviceRegisters \<Rightarrow> ('d, 'a) vio_scheme \<Rightarrow> u32" where
  "rreg V registers r s = vrd V (registers + reg_offset r) (dev s)"

definition wreg ::
  "'d vio_ops \<Rightarrow> u64 \<Rightarrow> VirtIODeviceRegisters \<Rightarrow> u32 \<Rightarrow> ('d, 'a) vio_scheme \<Rightarrow> ('d, 'a) vio_scheme" where
  "wreg V registers r v s = s\<lparr>dev := vwr V (registers + reg_offset r) v (dev s)\<rparr>"

definition wreg64 ::
  "'d vio_ops \<Rightarrow> u64 \<Rightarrow> VirtIODeviceRegisters \<Rightarrow> u64 \<Rightarrow> ('d, 'a) vio_scheme \<Rightarrow> ('d, 'a) vio_scheme" where
  "wreg64 V registers r v s = s\<lparr>dev := vwr64 V (registers + reg_offset r) v (dev s)\<rparr>"

text \<open>
  A member that is assigned the physical address of an object: the walk may log, then the value
  is stored by \<open>store\<close>.
\<close>

definition with_physical ::
  "u64 \<Rightarrow> (u64 \<Rightarrow> ('d, 'a) vio_scheme \<Rightarrow> ('d, 'a) vio_scheme) \<Rightarrow> ('d, 'a) vio_scheme \<Rightarrow> ('d, 'a) vio_scheme" where
  "with_physical va store s = (let (p, s) = get_physical_address_of_virtual_address va s in store p s)"

section \<open>Device initialisation, common to both drivers\<close>

text \<open>Steps 1 to 6 of section 3.1 of the virtio specification; false when the features are refused.\<close>

definition negotiate :: "'d vio_ops \<Rightarrow> u64 \<Rightarrow> ('d, 'a) vio_scheme \<Rightarrow> bool \<times> ('d, 'a) vio_scheme" where
  "negotiate V registers s =
     (let s = wreg V registers status 0x0 s;
          s = wreg V registers status 0x1 s;
          s = wreg V registers status (rreg V registers status s OR 0x2) s;
          s = wreg V registers device_features_sel 0x0 s;
          features = rreg V registers device_features s;
          s = wreg V registers device_features_sel 0x1 s;
          s = wreg V registers driver_features_sel 0x0 s;
          s = wreg V registers driver_features features s;
          s = wreg V registers status (rreg V registers status s OR 0x8) s
      in (rreg V registers status s AND 0x8 \<noteq> 0x0, s))"

text \<open>Steps 7.1 to 7.3: selecting and checking a queue; the message is the reason to give up.\<close>

definition check_queue ::
  "'d vio_ops \<Rightarrow> u64 \<Rightarrow> string \<Rightarrow> u32 \<Rightarrow> ('d, 'a) vio_scheme \<Rightarrow> string option \<times> ('d, 'a) vio_scheme" where
  "check_queue V registers name i s =
     (let s = wreg V registers queue_sel i s in
      if rreg V registers queue_ready s \<noteq> 0x0 then
        (Some (''VirtQueue for '' @ name @ '' device is already in use.''), s)
      else if rreg V registers queue_num_max s = 0x0 then
        (Some (''VirtQueue for '' @ name @ '' device is not available.''), s)
      else if rreg V registers queue_num_max s < VIRTIO_QUEUE_SIZE then
        (Some ''VirtQueue does not support enough queue elements.'', s)
      else (None, s))"

text \<open>Steps 7.5 to 7.7.\<close>

definition publish_queue :: "'d vio_ops \<Rightarrow> u64 \<Rightarrow> u64 \<Rightarrow> ('d, 'a) vio_scheme \<Rightarrow> ('d, 'a) vio_scheme" where
  "publish_queue V registers queue s =
     (let s = wreg V registers queue_num VIRTIO_QUEUE_SIZE s;
          s = with_physical queue (wreg64 V registers queue_desc) s;
          s = with_physical (avail_addr queue) (wreg64 V registers queue_driver) s;
          s = with_physical (used_addr queue) (wreg64 V registers queue_device) s
      in wreg V registers queue_ready 0x1 s)"

section \<open>Finding a device\<close>

text \<open>The scan of the eight MMIO slots for a magic value, a version and a device id.\<close>

function find_device :: "'d vio_ops \<Rightarrow> u32 \<Rightarrow> u32 \<Rightarrow> u64 \<Rightarrow> 'd \<Rightarrow> u64 option" where
  "find_device V want_version want_id address d =
     (if address < VIRTIO_START + VIRTIO_AMOUNT * VIRTIO_SIZE then
        if vrd V (address + reg_offset magic_value) d = 0x74726976 \<and>
           vrd V (address + reg_offset version) d = want_version \<and>
           vrd V (address + reg_offset device_id) d = want_id
        then Some address
        else find_device V want_version want_id (address + VIRTIO_SIZE) d
      else None)"
  by pat_completeness auto
termination
proof (relation "measure (\<lambda>(_, _, _, a, _). unat (VIRTIO_START + VIRTIO_AMOUNT * VIRTIO_SIZE) - unat a)", simp)
  fix V :: "'d vio_ops" and v i and a :: u64 and d
  assume "a < VIRTIO_START + VIRTIO_AMOUNT * VIRTIO_SIZE"
  then have "unat a < 0xFFFF800010009000"
    by (simp add: layout_defs word_less_nat_alt)
  moreover from this have "unat (a + 0x1000) = unat a + 0x1000"
    by (simp add: unat_word_ariths)
  ultimately show "((V, v, i, a + VIRTIO_SIZE, d), (V, v, i, a, d))
      \<in> measure (\<lambda>(_, _, _, a, _). unat (VIRTIO_START + VIRTIO_AMOUNT * VIRTIO_SIZE) - unat a)"
    by (simp add: layout_defs)
qed

declare find_device.simps [simp del]

section \<open>The block device\<close>

text \<open>\<^verbatim>\<open>VirtIOBlockDevice\<close>: registers, config and queue, eight bytes each.\<close>

definition blk_set_registers :: "u64 \<Rightarrow> u64 \<Rightarrow> 'a kio_scheme \<Rightarrow> 'a kio_scheme" where
  "blk_set_registers this registers s = put64 this registers s"

definition blk_set_config :: "u64 \<Rightarrow> u64 \<Rightarrow> 'a kio_scheme \<Rightarrow> 'a kio_scheme" where
  "blk_set_config this config s = put64 (this + 8) config s"

definition get_block_device :: "'d vio_ops \<Rightarrow> ('d, 'a) vio_scheme \<Rightarrow> (u64 \<times> ('d, 'a) vio_scheme) option" where
  "get_block_device V s =
     (case find_device V 0x2 0x2 VIRTIO_START (dev s) of
        None \<Rightarrow> Some (0x0, s)
      | Some address \<Rightarrow> do {
          (device, s) \<leftarrow> kalloc 24 s;
          let s = s\<lparr>block_device := device\<rparr>;
          let s = blk_set_registers device address s;
          let s = blk_set_config device (address + 0x100) s;
          Some (device, s)
        })"

definition blk_init :: "'d vio_ops \<Rightarrow> u64 \<Rightarrow> ('d, 'a) vio_scheme \<Rightarrow> (int \<times> ('d, 'a) vio_scheme) option" where
  "blk_init V this s =
     (let registers = ld64 (mem s) this;
          (ok, s) = negotiate V registers s in
      if \<not> ok then
        Some (- 1, log ERROR ''Error in block device initialization: Device does not support the selected features'' [] s)
      else
      let (err, s) = check_queue V registers ''block'' 0x0 s in
      case err of
        Some msg \<Rightarrow> Some (- 1, log ERROR msg [] s)
      | None \<Rightarrow> do {
          (queue, s) \<leftarrow> new_zeroed sizeof_VirtQueue s;
          let s = put64 (this + 16) queue s;
          let s = publish_queue V registers queue s;
          let s = s\<lparr>dev := vwr8 V (ld64 (mem s) (this + 8) + 32) 0x0 (dev s)\<rparr>;
          let s = wreg V registers status (rreg V registers status s OR 0x4) s;
          Some (0, s)
        })"

text \<open>The constructor of \<^verbatim>\<open>VirtIOBlkRequest\<close> takes the sector as \<^verbatim>\<open>uint32_t\<close>.\<close>

definition VirtIOBlkRequest :: "u64 \<Rightarrow> u32 \<Rightarrow> u32 \<Rightarrow> 'a kio_scheme \<Rightarrow> 'a kio_scheme" where
  "VirtIOBlkRequest this type sector s = put64 (this + 8) (ucast sector) (put32 this type s)"

text \<open>The descriptor chain of a request, as \<^verbatim>\<open>basic_op\<close> writes it.\<close>

definition fill_descriptors ::
  "u64 \<Rightarrow> u64 \<Rightarrow> u64 \<Rightarrow> u64 \<Rightarrow> u8 \<Rightarrow> ('d, 'a) vio_scheme \<Rightarrow> ('d, 'a) vio_scheme" where
  "fill_descriptors queue request buffer len type s =
     (let s = with_physical request (put64 (desc_addr queue 0)) s;
          s = put32 (desc_addr queue 0 + 8) 16 s;
          s = put16 (desc_addr queue 0 + 12) VIRTQ_DESC_F_NEXT s;
          s = put16 (desc_addr queue 0 + 14) 1 s;
          s = with_physical buffer (put64 (desc_addr queue 1)) s;
          s = put32 (desc_addr queue 1 + 8) (ucast len) s;
          s = put16 (desc_addr queue 1 + 14) 2 s;
          s = put16 (desc_addr queue 1 + 12)
                (if type = 0x1 then VIRTQ_DESC_F_NEXT else VIRTQ_DESC_F_NEXT OR VIRTQ_DESC_F_WRITE) s;
          s = with_physical (status_addr request) (put64 (desc_addr queue 2)) s;
          s = put32 (desc_addr queue 2 + 8) 1 s
      in put16 (desc_addr queue 2 + 12) VIRTQ_DESC_F_WRITE s)"

definition submit_head :: "u64 \<Rightarrow> 'a kio_scheme \<Rightarrow> 'a kio_scheme" where
  "submit_head queue s =
     (let idx = ld16 (mem s) (avail_addr queue + 2);
          s = put16 (avail_addr queue + 4 + 2 * ucast (idx mod 256)) 0x0 s
      in put16 (avail_addr queue + 2) (ld16 (mem s) (avail_addr queue + 2) + 1) s)"

text \<open>
  The device's turn: it takes the request from the header and the descriptors, and its answer goes
  to the addresses in the descriptors. The driver then polls the status byte; \<open>None\<close> when it
  stays at the value the driver put there.
\<close>

definition requested :: "u64 \<Rightarrow> u64 \<Rightarrow> u64 \<Rightarrow> mem \<Rightarrow> blk_request" where
  "requested queue request buffer m =
     \<lparr>rq_type = ld32 m request, rq_sector = ld64 m (request + 8),
      rq_len = unat (ld32 m (desc_addr queue 1 + 8)),
      rq_data = load_bytes m buffer (unat (ld32 m (desc_addr queue 1 + 8)))\<rparr>"

definition device_turn ::
  "'d vio_ops \<Rightarrow> u64 \<Rightarrow> u64 \<Rightarrow> u64 \<Rightarrow> ('d, 'a) vio_scheme \<Rightarrow> ('d, 'a) vio_scheme option" where
  "device_turn V queue request buffer s = do {
     (data, st, d) \<leftarrow> vserve V (requested queue request buffer (mem s)) (dev s);
     let s1 = s\<lparr>dev := d\<rparr>;
     let s2 = (if ld16 (mem s) (desc_addr queue 1 + 12) AND VIRTQ_DESC_F_WRITE \<noteq> 0
               then dma_write (ld64 (mem s) (desc_addr queue 1)) data s1 else s1);
     Some (dma_write (ld64 (mem s) (desc_addr queue 2)) [st] s2)
   }"

definition basic_op ::
  "'d vio_ops \<Rightarrow> u64 \<Rightarrow> u64 \<Rightarrow> u64 \<Rightarrow> u64 \<Rightarrow> u8 \<Rightarrow> ('d, 'a) vio_scheme \<Rightarrow> (int \<times> ('d, 'a) vio_scheme) option" where
  "basic_op V this sector len buffer type s =
     (if len mod 512 \<noteq> 0 then
        Some (- 1, log ERROR ''Length for basic block device op is not a multiple of 512.'' [] s)
      else if type \<noteq> 0x0 \<and> type \<noteq> 0x1 then
        Some (- 1, log ERROR ''Type of operation has to be 0x0 or 0x1.'' [] s)
      else do {
        (request, s) \<leftarrow> operator_new sizeof_VirtIOBlkRequest s;
        let s = VirtIOBlkRequest request (ucast type) (ucast sector) s;
        let s = put8 (status_addr request) 0x12 s;
        let queue = ld64 (mem s) (this + 16);
        let s = fill_descriptors queue request buffer len type s;
        let s = submit_head queue s;
        let s = wreg V (ld64 (mem s) this) queue_notify 0x0 s;
        s \<leftarrow> device_turn V queue request buffer s;
        if mem s (status_addr request) = 0x12 then None else Some (0, s)
      })"

definition read_blocks ::
  "'d vio_ops \<Rightarrow> u64 \<Rightarrow> u64 \<Rightarrow> u64 \<Rightarrow> u64 \<Rightarrow> ('d, 'a) vio_scheme \<Rightarrow> (int \<times> ('d, 'a) vio_scheme) option" where
  "read_blocks V this sector len buffer s = basic_op V this sector len buffer 0x0 s"

definition write_blocks ::
  "'d vio_ops \<Rightarrow> u64 \<Rightarrow> u64 \<Rightarrow> u64 \<Rightarrow> u64 \<Rightarrow> ('d, 'a) vio_scheme \<Rightarrow> (int \<times> ('d, 'a) vio_scheme) option" where
  "write_blocks V this sector len buffer s = basic_op V this sector len buffer 0x1 s"

definition blk_read ::
  "'d vio_ops \<Rightarrow> u64 \<Rightarrow> u64 \<Rightarrow> u64 \<Rightarrow> u64 \<Rightarrow> ('d, 'a) vio_scheme \<Rightarrow> (int \<times> ('d, 'a) vio_scheme) option" where
  "blk_read V this offset len buffer s = do {
     let s = log VIRTIO ''Reading %i bytes from offset 0x%x'' [VInt len, VInt offset] s;
     let offset = offset + 512 * 2048;
     let sector = offset div 512;
     let too_much_at_start = offset mod 512;
     let amount = len div 512;
     (temp_buffer, s) \<leftarrow> kalloc (512 * (amount + 1)) s;
     let s = log WARNING ''Temp buffer in VirtIOBlockDevice::read should be freed!'' [] s;
     (res, s) \<leftarrow> read_blocks V this sector ((amount + 1) * 512) temp_buffer s;
     if res < 0 then Some (res, s)
     else Some (0, snd (memcpy buffer (temp_buffer + too_much_at_start) len s))
   }"

section \<open>The console device\<close>

definition console_set_registers :: "u64 \<Rightarrow> u64 \<Rightarrow> 'a kio_scheme \<Rightarrow> 'a kio_scheme" where
  "console_set_registers this registers s = put64 this registers s"

definition console_set_config :: "u64 \<Rightarrow> u64 \<Rightarrow> 'a kio_scheme \<Rightarrow> 'a kio_scheme" where
  "console_set_config this config s = put64 (this + 8) config s"

text \<open>
  The loop over the four queues. The members \<^verbatim>\<open>receiveq\<close>, \<^verbatim>\<open>transmitq\<close>,
  \<^verbatim>\<open>control_receiveq\<close> and \<^verbatim>\<open>control_transmitq\<close> follow each other from offset 16.
\<close>

fun console_queues ::
  "'d vio_ops \<Rightarrow> u64 \<Rightarrow> u64 \<Rightarrow> nat \<Rightarrow> nat \<Rightarrow> ('d, 'a) vio_scheme \<Rightarrow> (int \<times> ('d, 'a) vio_scheme) option" where
  "console_queues V this registers i 0 s = Some (0, s)"
| "console_queues V this registers i (Suc n) s =
     (let (err, s) = check_queue V registers ''console'' (of_nat i) s in
      case err of
        Some msg \<Rightarrow> Some (- 1, log ERROR msg [] s)
      | None \<Rightarrow> do {
          (queue, s) \<leftarrow> new_zeroed sizeof_VirtQueue s;
          let s = put64 (this + 16 + 8 * of_nat i) queue s;
          console_queues V this registers (Suc i) n (publish_queue V registers queue s)
        })"

definition console_init :: "'d vio_ops \<Rightarrow> u64 \<Rightarrow> ('d, 'a) vio_scheme \<Rightarrow> (int \<times> ('d, 'a) vio_scheme) option" where
  "console_init V this s =
     (let registers = ld64 (mem s) this;
          (ok, s) = negotiate V registers s in
      if \<not> ok then
        Some (- 1, log ERROR ''Error in console device initialization: Device does not support the selected features'' [] s)
      else do {
        (res, s) \<leftarrow> console_queues V this registers 0 4 s;
        if res < 0 then Some (res, s)
        else Some (0, wreg V registers status (rreg V registers status s OR 0x4) s)
      })"

text \<open>The scan compares the version register with 3 and the device id with 2.\<close>

definition get_console_device :: "'d vio_ops \<Rightarrow> ('d, 'a) vio_scheme \<Rightarrow> (u64 \<times> ('d, 'a) vio_scheme) option" where
  "get_console_device V s =
     (case find_device V 0x3 0x2 VIRTIO_START (dev s) of
        None \<Rightarrow> Some (0x0, s)
      | Some address \<Rightarrow> do {
          (device, s) \<leftarrow> kalloc 48 s;
          let s = s\<lparr>console_device := device\<rparr>;
          let s = console_set_registers device address s;
          let s = console_set_config device (address + 0x100) s;
          Some (device, s)
        })"

section \<open>The scan of the slots\<close>

definition slot :: "nat \<Rightarrow> u64" where
  "slot i = VIRTIO_START + of_nat i * VIRTIO_SIZE"

definition offers :: "'d vio_ops \<Rightarrow> u32 \<Rightarrow> u32 \<Rightarrow> 'd \<Rightarrow> nat \<Rightarrow> bool" where
  "offers V want_version want_id d i \<longleftrightarrow> vrd V (slot i) d = 0x74726976 \<and>
     vrd V (slot i + 4) d = want_version \<and> vrd V (slot i + 8) d = want_id"

lemma slot_bound: "i \<le> 8 \<Longrightarrow> slot i < VIRTIO_START + VIRTIO_AMOUNT * VIRTIO_SIZE \<longleftrightarrow> i < 8"
proof -
  assume i: "i \<le> 8"
  then have "unat (slot i) = 0xFFFF800010001000 + i * 0x1000"
    by (simp add: slot_def layout_defs unat_word_ariths unat_of_nat)
  then show ?thesis by (simp add: word_less_nat_alt layout_defs)
qed

lemma find_device_from:
  assumes "k \<le> 8"
  shows "find_device V v i (slot k) d = map_option slot (find (offers V v i d) [k..<8])"
  using assms
proof (induction "8 - k" arbitrary: k)
  case 0
  then show ?case using slot_bound [of k] by (subst find_device.simps) simp
next
  case (Suc n)
  then have k: "k < 8" by simp
  have next_slot: "slot k + VIRTIO_SIZE = slot (Suc k)" by (simp add: slot_def distrib_right add.commute)
  show ?case
  proof (cases "offers V v i d k")
    case True
    with k show ?thesis
      using slot_bound [of k] by (subst find_device.simps) (simp add: offers_def upt_conv_Cons)
  next
    case False
    then have "find_device V v i (slot k) d = find_device V v i (slot (Suc k)) d"
      using k slot_bound [of k] next_slot by (subst find_device.simps) (auto simp: offers_def)
    also have "\<dots> = map_option slot (find (offers V v i d) [Suc k..<8])"
      using Suc k by (intro Suc.hyps(1)) simp_all
    finally show ?thesis using False k by (simp add: upt_conv_Cons)
  qed
qed

lemma find_device_eq: "find_device V v i VIRTIO_START d = map_option slot (find (offers V v i d) [0..<8])"
  using find_device_from [of 0 V v i d] by (simp add: slot_def)

section \<open>Properties\<close>

text \<open>
  C26: \<^verbatim>\<open>get_block_device\<close> takes the first of the eight slots that shows the magic value, version 2
  and the block device id, and returns a driver object whose registers are that slot and whose
  configuration lies 256 bytes above it; with no such slot it returns the null pointer and changes
  nothing.
\<close>

theorem get_block_device_first_slot:
  fixes s :: "('d, 'a) vio_scheme"
  assumes "heap_wf s" and "kalloc_cost 24 \<le> frames_left s"
  shows "case find (offers V 2 2 (dev s)) [0..<8] of
      None \<Rightarrow> get_block_device V s = Some (0, s)
    | Some i \<Rightarrow> \<exists>p (s' :: ('d, 'a) vio_scheme). get_block_device V s = Some (p, s') \<and> p \<noteq> 0 \<and> heap_wf s' \<and>
        block_device s' = p \<and> dev s' = dev s \<and>
        ld64 (mem s') p = slot i \<and> ld64 (mem s') (p + 8) = slot i + 0x100"
proof (cases "find (offers V 2 2 (dev s)) [0..<8]")
  case None
  then show ?thesis by (simp add: get_block_device_def find_device_eq)
next
  case (Some i)
  obtain p and t :: "('d, 'a) vio_scheme" where k: "kalloc 24 s = Some (p, t)" "heap_wf t" "heap_only s t"
    "unat p = unat (free_list s) + 16" "heap_block t p (unat (24 :: u64))"
    by (rule kalloc_block [OF assms])
  have "heap_block t p 24" using k(5) by simp
  note f = heap_fields [OF this]
  let ?t = "t\<lparr>block_device := p\<rparr>"
  let ?s' = "put64 (p + 8) (slot i + 0x100) (put64 p (slot i) ?t)"
  have d: "dev t = dev s" using k(3) unfolding heap_only_def by (cases s, cases t) simp
  have w: "heap_wf ?t" using k(2) heap_wf_cong(1) [of ?t t] by simp
  have b: "heap_block ?t = heap_block t" by (simp add: heap_block_def fun_eq_iff)
  have "heap_wf (put64 p (slot i) ?t)" using heap_wf_put64(1) [OF w] f(1) b by simp
  then have "heap_wf ?s'" using heap_wf_put64(1) [of "put64 p (slot i) ?t" "p + 8"] f(2) b by simp
  moreover have "ld64 (mem ?s') p = slot i"
    using ld64_put64_apart [OF k(2) f(2,1)] f(4) by (simp add: apart_def ld64_st64)
  moreover have "p \<noteq> 0" using k(4) by (metis add_is_0 unat_0 zero_neq_numeral)
  moreover have "get_block_device V s = Some (p, ?s')"
    using k(1) Some by (simp add: get_block_device_def find_device_eq blk_set_registers_def blk_set_config_def Let_def)
  ultimately show ?thesis
    using Some d by (intro exI [of _ p] exI [of _ ?s'] conjI | simp add: ld64_st64 put64_def)+
qed

text \<open>
  C27: a refused initialisation has no effect on memory. Whatever the device, when
  \<^verbatim>\<open>VirtIOBlockDevice::init\<close> returns a negative number, no queue has been allocated and no byte
  of memory, hence no page table and no driver object, has changed; the result is -1.
\<close>

theorem blk_init_refusal:
  assumes "blk_init V this s = Some (r, s')" and "r < 0"
  shows "r = - 1 \<and> mem s' = mem s \<and> free_list s' = free_list s \<and> block_device s' = block_device s"
proof -
  have n: "mem u = mem t \<and> free_list u = free_list t \<and> block_device u = block_device t"
    if "negotiate V g t = (b, u)" for g b and t u :: "('a, 'b) vio_scheme"
    using that by (auto simp: negotiate_def wreg_def Let_def)
  have c: "mem u = mem t \<and> free_list u = free_list t \<and> block_device u = block_device t"
    if "check_queue V g nm i t = (e, u)" for g nm i e and t u :: "('a, 'b) vio_scheme"
    using that by (auto simp: check_queue_def wreg_def Let_def split: if_splits)
  show ?thesis
    using assms
    by (auto simp: blk_init_def Let_def log_eq split: prod.splits if_splits option.splits bind_splits
        dest!: n c)
qed

text \<open>A device that answers every read with zero refuses the feature negotiation.\<close>

definition sample_vio :: "unit vio" where
  "sample_vio = vheap.extend sample_heap \<lparr>dev = (), block_device = 0, console_device = 0\<rparr>"

definition mute_device :: "unit vio_ops" where
  "mute_device = \<lparr>vrd = \<lambda>_ _. 0, vwr = \<lambda>_ _ d. d, vwr64 = \<lambda>_ _ d. d, vwr8 = \<lambda>_ _ d. d, vserve = \<lambda>_ _. None\<rparr>"

theorem blk_init_refusal_witness:
  "\<exists>s'. blk_init mute_device 0x1000 sample_vio = Some (- 1, s') \<and> mem s' = mem sample_vio"
proof -
  have "\<exists>s'. blk_init mute_device 0x1000 sample_vio = Some (- 1, s')"
    by (simp add: blk_init_def negotiate_def rreg_def mute_device_def Let_def)
  then show ?thesis
    using blk_init_refusal [of mute_device "0x1000" sample_vio "- 1"] by auto
qed

text \<open>A block device in the fourth slot.\<close>

definition fourth_slot_device :: "unit vio_ops" where
  "fourth_slot_device = mute_device\<lparr>vrd := \<lambda>a _. if a = slot 3 then 0x74726976 else 2\<rparr>"

theorem get_block_device_first_slot_witness:
  "\<exists>(s :: unit vio) p s'. get_block_device fourth_slot_device s = Some (p, s') \<and> p \<noteq> 0 \<and> ld64 (mem s') p = slot 3"
proof -
  have "phys_layout sample_vio" "frames_zero sample_vio" "used sample_vio = {}"
    by (simp_all add: sample_vio_def vheap.defs sample_heap_def paging.defs sample_paging_def phys_layout_def phys_base_def
      VIRTUAL_OFFSET_def NFRAMES_def frames_zero_def used_def)
  then obtain r s :: "unit vio" where s: "heap_wf s" "frames_left s \<ge> NFRAMES - 6"
    by (rule boot_heap)
  then have room: "kalloc_cost 24 \<le> frames_left s" by (simp add: kalloc_cost_def NFRAMES_def)
  have "find (offers fourth_slot_device 2 2 (dev s)) [0..<8] = Some 3"
    by (simp add: upt_rec offers_def fourth_slot_device_def slot_def layout_defs)
  then show ?thesis
    using get_block_device_first_slot [OF s(1) room, of fourth_slot_device] by auto
qed

end
