(* ===== verification/Blk_Transfer.thy ===== *)
theory Blk_Transfer
  imports Virtio
begin

text \<open>
  The request path of the block driver, end to end: \<^verbatim>\<open>basic_op\<close> builds a request and a
  descriptor chain in the virtqueue, the device stores its answer at the physical addresses the
  descriptors name, and \<^verbatim>\<open>VirtIOBlockDevice::read\<close> copies the wanted bytes out of a temporary
  buffer.
\<close>

section \<open>Stores into allocated memory\<close>

definition heap_agree :: "'a vheap_scheme \<Rightarrow> mem \<Rightarrow> bool" where
  "heap_agree s m \<longleftrightarrow> (\<forall>x. \<not> in_heap s x \<longrightarrow> m x = mem s x)"

lemma heap_agree_refl [simp]: "heap_agree s (mem s)"
  by (simp add: heap_agree_def)

lemma heap_block_in_heap:
  assumes "heap_block s a n" and "unat (x - a) < n"
  shows "in_heap s x" "unat x = unat a + unat (x - a)"
proof -
  show u: "unat x = unat a + unat (x - a)"
    using assms unat_bound [of "free_list s"] by (intro unat_in_range [OF assms(2)]) (simp add: heap_block_def)
  then show "in_heap s x" using assms by (simp add: heap_block_def in_heap_def)
qed

lemma heap_agree_store:
  assumes "heap_agree s m" and "heap_block s a (length bs)"
  shows "heap_agree s (store_bytes m a bs)"
  using assms heap_block_in_heap(1) [OF assms(2)] by (auto simp: heap_agree_def store_bytes_def)

lemma heap_agree_puts:
  assumes "heap_agree s m"
  shows "heap_block s a 2 \<Longrightarrow> heap_agree s (st16 m a v)" "heap_block s a 4 \<Longrightarrow> heap_agree s (st32 m a w)"
    "heap_block s a 8 \<Longrightarrow> heap_agree s (st64 m a x)" "heap_block s a 1 \<Longrightarrow> heap_agree s (m(a := y))"
proof -
  have "store_bytes m a [y] = m(a := y)" by (auto simp: store_bytes_def fun_eq_iff unat_eq_zero)
  then show "heap_block s a 1 \<Longrightarrow> heap_agree s (m(a := y))"
    using heap_agree_store [OF assms, of a "[y]"] by simp
qed (simp_all add: st16_def st32_def st64_def heap_agree_store assms)

lemma heap_block_at:
  assumes "heap_block s p n" and "unat k + j \<le> n"
  shows "heap_block s (p + k) j" "unat (p + k) = unat p + unat k"
  using heap_block_offset [OF assms] by simp_all

lemma sub_offset:
  fixes x q k :: u64
  assumes "unat k + n \<le> unat (x - q)"
  shows "n \<le> unat (x - (q + k))"
proof -
  have "k \<le> x - q" using assms by (simp add: word_le_nat_alt)
  then have "unat (x - (q + k)) = unat (x - q) - unat k" by (metis unat_sub diff_diff_eq)
  with assms show ?thesis by simp
qed

lemma near_offset:
  fixes x q k :: u64
  assumes "unat (x - (q + k)) < n" and "unat k + n \<le> hi" and "hi < 2 ^ 64"
  shows "unat (x - q) < hi"
proof -
  have "x - q = (x - (q + k)) + k" by simp
  then have "unat (x - q) \<le> unat (x - (q + k)) + unat k" by (metis unat_plus_if' le_refl diff_le_self)
  with assms show ?thesis by simp
qed

section \<open>The descriptor chain\<close>

definition desc_mem :: "mem \<Rightarrow> u64 \<Rightarrow> u64 \<Rightarrow> u64 \<Rightarrow> u64 \<Rightarrow> u64 \<Rightarrow> u8 \<Rightarrow> mem" where
  "desc_mem m q h b e len type =
     (let m = st16 (st16 (st32 (st64 m q h) (q + 8) 16) (q + 12) 1) (q + 14) 1;
          m = st16 (st32 (st64 m (q + 16) b) (q + 24) (ucast len)) (q + 30) 2;
          m = st16 m (q + 28) (if type = 1 then 1 else 3)
      in st16 (st32 (st64 m (q + 32) e) (q + 40) 1) (q + 44) 2)"

lemma desc_mem_loads:
  "ld64 (desc_mem m q h b e len type) (q + 16) = b"
  "ld32 (desc_mem m q h b e len type) (q + 24) = ucast len"
  "ld16 (desc_mem m q h b e len type) (q + 28) = (if type = 1 then 1 else 3)"
  "ld64 (desc_mem m q h b e len type) (q + 32) = e"
  by (simp_all add: desc_mem_def Let_def ld16_def ld32_def ld64_def st16_def st32_def st64_def load_store_disj
      load_store_same disj_def le_word_bytes_of take_bit_word_eq_self)

lemma desc_mem_out:
  assumes "48 \<le> unat (x - q)"
  shows "desc_mem m q h b e len type x = m x"
proof -
  have "n \<le> unat (x - (q + k))" if "unat k + n \<le> 48" for k n
    using that assms by (intro sub_offset) simp
  note o = this [of 8 4] this [of 12 2] this [of 14 2] this [of 16 8] this [of 24 4] this [of 30 2]
    this [of 28 2] this [of 32 8] this [of 40 4] this [of 44 2]
  from o assms show ?thesis
    by (simp add: desc_mem_def Let_def st16_def st32_def st64_def store_bytes_out)
qed

lemma with_physical_heap:
  assumes "heap_wf s" and "phys_ok s" and "heap_agree s m" and "in_heap s va"
  shows "with_physical va (put64 a) (s\<lparr>mem := m\<rparr>) = s\<lparr>mem := st64 m a (pa s va)\<rparr>"
proof -
  note r = heap_region [OF assms(1,2), of m]
  have wf: "heap_wf (s\<lparr>mem := m\<rparr>)" and sv: "sv48 (s\<lparr>mem := m\<rparr>) = sv48 s"
    using r assms(3) by (simp_all add: heap_agree_def)
  have "in_heap (s\<lparr>mem := m\<rparr>) va" using assms(4) by (simp add: in_heap_def)
  from heap_pa(2) [OF wf this] sv show ?thesis
    by (simp add: with_physical_def pa_def put64_def)
qed

lemma fill_descriptors_eq:
  assumes wf: "heap_wf s" and ok: "phys_ok s" and q: "heap_block s q 48"
    and "in_heap s request" "in_heap s buffer" "in_heap s (status_addr request)"
  shows "fill_descriptors q request buffer len type s =
      s\<lparr>mem := desc_mem (mem s) q (pa s request) (pa s buffer) (pa s (status_addr request)) len type\<rparr>"
    and "heap_agree s (desc_mem (mem s) q (pa s request) (pa s buffer) (pa s (status_addr request)) len type)"
proof -
  have b: "heap_block s (q + k) j" if "unat k + j \<le> 48" for k j
    using heap_block_at(1) [OF q that] .
  have b0: "heap_block s q 8" using b [of 0 8] by simp
  let ?m1 = "st16 (st16 (st32 (st64 (mem s) q (pa s request)) (q + 8) 16) (q + 12) 1) (q + 14) 1"
  let ?m2 = "st16 (st16 (st32 (st64 ?m1 (q + 16) (pa s buffer)) (q + 24) (ucast len)) (q + 30) 2)
    (q + 28) (if type = 1 then 1 else 3)"
  have a1: "heap_agree s ?m1"
    by (intro heap_agree_puts heap_agree_refl b b0) simp_all
  then have a2: "heap_agree s ?m2"
    by (intro heap_agree_puts b b0 heap_agree_refl) simp_all
  then show "heap_agree s (desc_mem (mem s) q (pa s request) (pa s buffer) (pa s (status_addr request)) len type)"
    unfolding desc_mem_def Let_def by (intro heap_agree_puts b b0 heap_agree_refl) simp_all
  have "s = s\<lparr>mem := mem s\<rparr>" by simp
  then have "with_physical request (put64 q) s = s\<lparr>mem := st64 (mem s) q (pa s request)\<rparr>"
    using with_physical_heap [OF wf ok heap_agree_refl assms(4), of q] by simp
  moreover have off: "desc_addr q 0 = q" "desc_addr q 1 = q + 16" "desc_addr q 2 = q + 32" "q + 16 + 8 = q + 24" "q + 16 + 12 = q + 28" "q + 16 + 14 = q + 30" "q + 32 + 8 = q + 40" "q + 32 + 12 = q + 44"
    by (simp_all add: desc_addr_def)
  ultimately show "fill_descriptors q request buffer len type s =
      s\<lparr>mem := desc_mem (mem s) q (pa s request) (pa s buffer) (pa s (status_addr request)) len type\<rparr>"
    using with_physical_heap [OF wf ok a1 assms(5), of "q + 16"] with_physical_heap [OF wf ok a2 assms(6), of "q + 32"]
    unfolding fill_descriptors_def off VIRTQ_DESC_F_NEXT_def VIRTQ_DESC_F_WRITE_def desc_mem_def Let_def
    by (cases "type = 1") (simp_all add: put32_def put16_def)
qed

section \<open>The available ring\<close>

lemma store_inside:
  fixes q k :: u64
  assumes "lo \<le> unat k" and "unat k + length bs \<le> hi" "hi < 2 ^ 63" and "unat (x - q) < lo \<or> hi \<le> unat (x - q)"
  shows "store_bytes m (q + k) bs x = m x"
proof (rule store_bytes_out)
  show "length bs \<le> unat (x - (q + k))"
  proof (cases "hi \<le> unat (x - q)")
    case True
    with assms(2) show ?thesis by (intro sub_offset) simp
  next
    case False
    have "unat (x - (q + k)) = unat ((x - q) - k)" by (simp add: diff_diff_eq)
    also have "\<dots> = 2 ^ 64 + unat (x - q) - unat k"
      using assms False by (simp add: unat_sub_if')
    finally show ?thesis using assms by simp
  qed
qed

lemma submit_head_eq:
  obtains m where "submit_head q s = s\<lparr>mem := m\<rparr>"
    "\<forall>x. unat (x - q) < 4096 \<or> 6672 \<le> unat (x - q) \<longrightarrow> m x = mem s x"
proof -
  define i where "i = ld16 (mem s) (q + 4098) mod 256"
  let ?k = "4100 + 2 * ucast i :: u64"
  have i: "unat i < 256" by (simp add: i_def unat_mod)
  then have "unat (ucast i :: u64) = unat i" by (simp add: unsigned_ucast_eq take_bit_nat_eq_self)
  then have "unat ?k = 4100 + 2 * unat i" using i by (simp add: unat_word_ariths)
  then have k: "4096 \<le> unat ?k" "unat ?k + 2 \<le> 6672" using i by simp_all
  let ?m = "st16 (mem s) (q + ?k) 0"
  let ?m' = "st16 ?m (q + 4098) (ld16 ?m (q + 4098) + 1)"
  have "submit_head q s = s\<lparr>mem := ?m'\<rparr>"
    by (simp add: submit_head_def avail_addr_def Let_def put16_def add.assoc i_def)
  moreover have "?m' x = mem s x" if "unat (x - q) < 4096 \<or> 6672 \<le> unat (x - q)" for x
    using store_inside [of 4096 ?k "bytes_of 2 (0 :: u16)" 6672 x q "mem s"] k that
      store_inside [of 4096 4098 "bytes_of 2 (ld16 ?m (q + 4098) + 1)" 6672 x q ?m]
    by (simp add: st16_def)
  ultimately show ?thesis using that by blast
qed

section \<open>The device's turn\<close>

lemma dma_write_dev: "dma_write p bs (s\<lparr>dev := d\<rparr>) = (dma_write p bs s)\<lparr>dev := d\<rparr>"
proof -
  have sv: "sv48 (s\<lparr>dev := d\<rparr>) = sv48 s" by (rule pt_wf_cong) simp_all
  have m: "mem (s\<lparr>dev := d\<rparr>) = mem s" by simp
  show ?thesis unfolding dma_write_def sv m by simp
qed

lemma vio_dev_cong:
  fixes s :: "('d, 'a) vio_scheme"
  shows "heap_wf (s\<lparr>dev := d\<rparr>) = heap_wf s" "sv48 (s\<lparr>dev := d\<rparr>) = sv48 s" "frames_left (s\<lparr>dev := d\<rparr>) = frames_left s"
    "heap_block (s\<lparr>dev := d\<rparr>) = heap_block s" "phys_ok (s\<lparr>dev := d\<rparr>) = phys_ok s" "in_heap (s\<lparr>dev := d\<rparr>) = in_heap s"
    "linear_heap (s\<lparr>dev := d\<rparr>) = linear_heap s"
proof -
  show "heap_wf (s\<lparr>dev := d\<rparr>) = heap_wf s" "sv48 (s\<lparr>dev := d\<rparr>) = sv48 s" "frames_left (s\<lparr>dev := d\<rparr>) = frames_left s"
    "heap_block (s\<lparr>dev := d\<rparr>) = heap_block s" by (rule heap_wf_cong; simp)+
  show "phys_ok (s\<lparr>dev := d\<rparr>) = phys_ok s"
    using phys_ok_fields [of s "s\<lparr>dev := d\<rparr>"] phys_ok_fields [of "s\<lparr>dev := d\<rparr>" s] by auto
  show "in_heap (s\<lparr>dev := d\<rparr>) = in_heap s" by (simp add: in_heap_def fun_eq_iff)
  have "used (s\<lparr>dev := d\<rparr>) = used s" by (rule pt_wf_cong) simp_all
  moreover have "frame_addr (s\<lparr>dev := d\<rparr>) = frame_addr s" by (simp add: frame_addr_def fun_eq_iff)
  ultimately show "linear_heap (s\<lparr>dev := d\<rparr>) = linear_heap s"
    using \<open>heap_wf (s\<lparr>dev := d\<rparr>) = heap_wf s\<close> \<open>phys_ok (s\<lparr>dev := d\<rparr>) = phys_ok s\<close> \<open>sv48 (s\<lparr>dev := d\<rparr>) = sv48 s\<close>
    by (simp add: linear_heap_def linear_from_def)
qed

lemma image_dev [simp]: "kernel_image R (s\<lparr>dev := d\<rparr>) = kernel_image R s"
  by (simp add: kernel_image_def in_image_def)

lemma device_turn_read:
  fixes u :: "('d, 'a) vio_scheme"
  assumes wf: "heap_wf u" and ok: "phys_ok u" and buf: "heap_block u buf (length data)" and r: "heap_block u r 536"
    and ap: "apart buf (length data) r 536"
    and cont: "contiguous u buf (length data) (ld64 (mem u) (desc_addr q 1))"
    and st_pa: "ld64 (mem u) (desc_addr q 2) = pa u (status_addr r)"
    and fl: "ld16 (mem u) (desc_addr q 1 + 12) AND VIRTQ_DESC_F_WRITE \<noteq> 0"
    and serve: "vserve V (requested q r buf (mem u)) (dev u) = Some (data, st, d')"
  obtains s' where "device_turn V q r buf u = Some s'" "mem s' (status_addr r) = st"
    "load_bytes (mem s') buf (length data) = data" "heap_wf s'" "phys_ok s'" "frames_left s' = frames_left u"
    "\<forall>x. \<not> direct x \<longrightarrow> length data \<le> unat (x - buf) \<longrightarrow> x \<noteq> status_addr r \<longrightarrow> mem s' x = mem u x"
    "s' = u\<lparr>mem := mem s', dev := d'\<rparr>" "linear_heap u \<longrightarrow> linear_heap s'" "\<forall>R. kernel_image R u \<longrightarrow> kernel_image R s'"
proof -
  let ?e = "status_addr r"
  have e: "heap_block u ?e 1" "unat ?e = unat r + 528"
    using heap_block_at [OF r, of 528 1] by (simp_all add: status_addr_def)
  have eh: "in_heap u ?e" using heap_block_in_heap(1) [OF e(1), of ?e] by simp
  have b: "unat VIRTUAL_HEAP_START \<le> unat buf" "unat buf + length data \<le> unat (free_list u)"
    using buf by (simp_all add: heap_block_def)
  let ?s2 = "dma_write (ld64 (mem u) (desc_addr q 1)) data u"
  note d1 = dma_write_buffer [OF wf ok cont b]
  have sv: "sv48 ?s2 ?e = Some (pa u ?e, 0xF)" using d1(3) heap_pa(1) [OF wf eh] by simp
  then have c1: "contiguous ?s2 ?e (length [st]) (pa u ?e)" by (simp add: contiguous_def)
  have fl2: "free_list ?s2 = free_list u" by (simp add: dma_write_def)
  have e2: "unat VIRTUAL_HEAP_START \<le> unat ?e" "unat ?e + length [st] \<le> unat (free_list ?s2)"
    using e(1) fl2 by (simp_all add: heap_block_def)
  note d2 = dma_write_buffer [OF d1(1,2) c1 e2]
  let ?s3 = "dma_write (pa u ?e) [st] ?s2"
  let ?s' = "?s3\<lparr>dev := d'\<rparr>"
  have run: "device_turn V q r buf u = Some ?s'"
    using serve fl st_pa by (simp add: device_turn_def Let_def dma_write_dev)
  have keep: "mem ?s3 x = mem u x" if "\<not> direct x" "length data \<le> unat (x - buf)" "x \<noteq> ?e" for x
  proof -
    have "length [st] \<le> unat (x - ?e)" using that(3) by (simp add: Suc_le_eq unat_gt_0)
    then show ?thesis using d2(6) [OF that(1)] d1(6) [OF that(1,2)] by simp
  qed
  have bk: "load_bytes (mem ?s3) buf (length data) = load_bytes (mem ?s2) buf (length data)"
  proof (rule load_bytes_cong)
    show "length data \<le> 2 ^ 64" using b(2) unat_bound [of "free_list u"] by simp
    fix x assume x: "unat (x - buf) < length data"
    note xh = heap_block_in_heap [OF buf x]
    have "x \<noteq> ?e" using xh(2) x ap e(2) by (auto simp: apart_def)
    then have "length [st] \<le> unat (x - ?e)" by (simp add: Suc_le_eq unat_gt_0)
    then show "mem ?s3 x = mem ?s2 x"
      using d2(6) [of x] heap_not_direct(2) [OF wf, of x] xh(1) by (simp add: in_heap_def)
  qed
  have "load_bytes (mem ?s3) ?e 1 = [st]" using d2(5) by simp
  then have st: "mem ?s3 ?e = st" by (simp add: load_bytes_def)
  have eq: "?s' = u\<lparr>mem := mem ?s', dev := d'\<rparr>" by (simp add: dma_write_def)
  have lin: "linear_heap u \<longrightarrow> linear_heap ?s'"
    using linear_dma [OF _ cont b] linear_dma [OF _ c1 e2] by (simp add: vio_dev_cong)
  have im: "\<forall>R. kernel_image R u \<longrightarrow> kernel_image R ?s'"
    using image_dma [OF wf ok _ cont b] image_dma [OF d1(1,2) _ c1 e2] by simp
  show ?thesis
    by (rule that [OF run _ _ _ _ _ _ eq lin im]) (use st bk d1 d2 keep in \<open>simp_all add: vio_dev_cong\<close>)
qed

section \<open>Preparing a request\<close>

lemma kalloc_sv48_heap:
  assumes "heap_wf s" and "kalloc_cost sz \<le> frames_left s" and "kalloc sz s = Some (p, s')" and "in_heap s x"
  shows "sv48 s' x = sv48 s x"
proof -
  have "x < virtual_alloc_end s"
    using assms(4) heap_size(4) [OF assms(1)] by (simp add: in_heap_def word_less_nat_alt)
  then show ?thesis using kalloc_facts [OF assms(1,2)] assms(3) by auto
qed

text \<open>The memory after the request object has been filled in.\<close>

definition request_mem :: "mem \<Rightarrow> u64 \<Rightarrow> u32 \<Rightarrow> u32 \<Rightarrow> mem" where
  "request_mem m r type sector = (st64 (st32 m r type) (r + 8) (ucast sector))(status_addr r := 0x12)"

lemma request_mem_facts:
  "unat (x - r) \<ge> 536 \<Longrightarrow> request_mem m r type sector x = m x"
  "ld32 (request_mem m r type sector) r = type" "ld64 (request_mem m r type sector) (r + 8) = ucast sector"
proof -
  show "request_mem m r type sector x = m x" if x: "unat (x - r) \<ge> 536"
  proof -
    have "4 \<le> unat (x - r)" "8 \<le> unat (x - (r + 8))" "x \<noteq> r + 528"
      using x sub_offset [of 8 8 x r] by auto
    then show ?thesis by (simp add: request_mem_def status_addr_def st32_def st64_def store_bytes_out)
  qed
  have e: "m(a := v) = store_bytes m a [v]" for m a v
    by (auto simp: store_bytes_def fun_eq_iff unat_eq_zero)
  show "ld32 (request_mem m r type sector) r = type" "ld64 (request_mem m r type sector) (r + 8) = ucast sector"
    unfolding request_mem_def status_addr_def e
    by (simp_all add: ld32_def ld64_def st32_def st64_def load_store_disj load_store_same disj_def le_word_bytes_of
        take_bit_word_eq_self)
qed

lemma heap_agree_request:
  assumes "heap_block s r 536"
  shows "heap_agree s (request_mem (mem s) r type sector)"
  using heap_block_in_heap(1) [OF assms] request_mem_facts(1) unfolding heap_agree_def by (metis not_le)

definition driver_ok :: "u64 \<Rightarrow> u64 \<Rightarrow> ('d, 'a) vio_scheme \<Rightarrow> bool" where
  "driver_ok this q s \<longleftrightarrow> heap_wf s \<and> phys_ok s \<and> heap_block s this 24 \<and> heap_block s q 6672 \<and>
     apart this 24 q 6672 \<and> ld64 (mem s) (this + 16) = q"

lemma apart_out:
  assumes "heap_block s a n" and "heap_block s b k" and "apart a n b k" and "unat (x - a) < n"
  shows "k \<le> unat (x - b)"
proof (rule ccontr)
  assume "\<not> k \<le> unat (x - b)"
  then have "unat (x - b) < k" by simp
  from heap_block_in_heap(2) [OF assms(2) this] heap_block_in_heap(2) [OF assms(1,4)] this assms(3,4)
  show False by (auto simp: apart_def)
qed

text \<open>The addresses of the next block header: outside every block there is and every block to come.\<close>

lemma header_out:
  assumes "heap_wf s" and "unat (x - free_list s) < 8"
  shows "\<not> direct x" "heap_block s a n \<Longrightarrow> n \<le> unat (x - a)" "k < 2 ^ 63 \<Longrightarrow> k \<le> unat (x - (free_list s + 16))"
    "unat x < unat (free_list s) + 8"
proof -
  have u: "unat x = unat (free_list s) + unat (x - free_list s)"
    using heap_top [OF assms(1)] by (intro unat_in_range [OF assms(2)]) (simp add: VIRTUAL_HEAP_START_def)
  then show "unat x < unat (free_list s) + 8" using assms(2) by linarith
  show "\<not> direct x"
  proof (rule heap_page(2))
    have "(2 :: nat) ^ 27 \<le> 2 ^ 30" by simp
    then show "unat VIRTUAL_HEAP_START \<le> unat x" "unat x < unat VIRTUAL_HEAP_START + 2 ^ 30"
      using u assms(2) heap_base [OF assms(1)] heap_top [OF assms(1)] by linarith+
  qed
  show "n \<le> unat (x - a)" if "heap_block s a n"
  proof -
    have le: "unat a + n \<le> unat x" using that u by (simp add: heap_block_def)
    then have "a \<le> x" by (simp add: word_le_nat_alt)
    with le show ?thesis by (simp add: unat_sub)
  qed
  have "unat (x - (free_list s + 16)) = unat ((x - free_list s) - 16)" by (simp add: diff_diff_eq)
  also have "\<dots> = 2 ^ 64 + unat (x - free_list s) - 16" using assms(2) by (simp add: unat_sub_if')
  finally show "k < 2 ^ 63 \<Longrightarrow> k \<le> unat (x - (free_list s + 16))" by simp
qed

lemma basic_op_prepared:
  fixes s :: "('d, 'a) vio_scheme"
  assumes dr: "driver_ok this q s" and room: "kalloc_cost 536 \<le> frames_left s"
    and buf: "in_heap s buf" and len: "len mod 512 = 0"
  obtains r u where
    "basic_op V this sector len buf 0 s =
      do { s' \<leftarrow> device_turn V q r buf u; if mem s' (status_addr r) = 0x12 then None else Some (0, s') }"
    "heap_wf u" "phys_ok u" "heap_block u r 536" "unat r = unat (free_list s) + 16"
    "\<forall>a n. heap_block s a n \<longrightarrow> heap_block u a n"
    "\<forall>x. in_heap s x \<longrightarrow> 6672 \<le> unat (x - q) \<longrightarrow> mem u x = mem s x"
    "\<forall>x. in_heap s x \<longrightarrow> sv48 u x = sv48 s x"
    "ld64 (mem u) (q + 16) = pa s buf" "ld32 (mem u) (q + 24) = ucast len" "ld16 (mem u) (q + 28) = 3"
    "ld64 (mem u) (q + 32) = pa u (status_addr r)" "ld32 (mem u) r = 0" "ld64 (mem u) (r + 8) = ucast (ucast sector :: u32)"
    "dev u = vwr V (ld64 (mem s) this + 0x50) 0 (dev s)" "frames_left s \<le> frames_left u + kalloc_cost 536"
    "heap_only s (u\<lparr>dev := dev s\<rparr>)" "ld64 (mem u) (free_list s) = 536"
    "unat (free_list u) = unat (free_list s) + 552"
    "linear_heap s \<longrightarrow> unat (free_list s) + 568 \<le> heap_limit \<longrightarrow> linear_heap u" "\<forall>R. kernel_image R s \<longrightarrow> kernel_image R u"
proof -
  have wf: "heap_wf s" and ok: "phys_ok s" and th: "heap_block s this 24" and q: "heap_block s q 6672"
    and ap: "apart this 24 q 6672" and qv: "ld64 (mem s) (this + 16) = q"
    using dr by (simp_all add: driver_ok_def)
  obtain r t where k: "kalloc 536 s = Some (r, t)" "heap_wf t" "heap_only s t" "r = free_list s + 16"
    "unat r = unat (free_list s) + 16" "heap_block t r (unat (536 :: u64))" "frames_left s \<le> frames_left t + kalloc_cost 536"
    "\<forall>a n. heap_block s a n \<longrightarrow> heap_block t a n"
    "\<forall>x. unat VIRTUAL_HEAP_START \<le> unat x \<longrightarrow> unat x < unat (free_list s) \<longrightarrow> mem t x = mem s x"
    by (rule kalloc_block [OF wf room])
  have r: "heap_block t r 536" using k(6) by simp
  have okt: "phys_ok t" by (rule kalloc_phys [OF wf room ok k(1)])
  have "unat (free_list s) \<le> unat (free_list t)" using k(5) r by (simp add: heap_block_def)
  then have ht: "in_heap t x" if "in_heap s x" for x using that by (simp add: in_heap_def)
  define m1 where "m1 = request_mem (mem t) r 0 (ucast sector)"
  let ?t1 = "t\<lparr>mem := m1\<rparr>"
  have a1: "heap_agree t m1" unfolding m1_def by (rule heap_agree_request [OF r])
  have g1: "heap_wf ?t1" "phys_ok ?t1" "sv48 ?t1 = sv48 t"
    using heap_region [OF k(2) okt, of m1] a1 by (simp_all add: heap_agree_def)
  have old: "536 \<le> unat (x - r)" if "in_heap s x" for x
  proof (rule ccontr)
    assume "\<not> 536 \<le> unat (x - r)"
    then have "unat x = unat r + unat (x - r)" by (intro heap_block_in_heap(2) [OF r]) simp
    moreover have "unat x < unat (free_list s)" using that by (simp add: in_heap_def)
    ultimately show False using k(5) by linarith
  qed
  then have m1: "m1 x = mem s x" if "in_heap s x" for x
    using that k(9) request_mem_facts(1) by (simp add: m1_def in_heap_def)
  have q1: "ld64 m1 (this + 16) = q"
    using ld64_block_cong [OF heap_fields(3) [OF th], of m1] m1 qv by (simp add: in_heap_def)
  have qt: "heap_block t q 6672" using k(8) q by blast
  then have q48: "heap_block ?t1 q 48" by (simp add: heap_block_def)
  have e: "in_heap t (status_addr r)" "in_heap t r"
    using heap_block_in_heap(1) [OF r] by (simp_all add: status_addr_def)
  have "in_heap ?t1 r" "in_heap ?t1 buf" "in_heap ?t1 (status_addr r)"
    using e ht [OF buf] by (simp_all add: in_heap_def)
  note f = fill_descriptors_eq [OF g1(1,2) q48 this, of len 0]
  have pa1: "pa ?t1 = pa t" by (simp add: pa_def g1(3) fun_eq_iff)
  define m2 where "m2 = desc_mem m1 q (pa t r) (pa t buf) (pa t (status_addr r)) len 0"
  have f1: "fill_descriptors q r buf len 0 ?t1 = t\<lparr>mem := m2\<rparr>" "heap_agree t m2"
    using f a1 by (simp_all add: pa1 m2_def heap_agree_def in_heap_def)
  obtain m3 where m3: "submit_head q (t\<lparr>mem := m2\<rparr>) = t\<lparr>mem := m2\<rparr>\<lparr>mem := m3\<rparr>"
    "\<forall>x. unat (x - q) < 4096 \<or> 6672 \<le> unat (x - q) \<longrightarrow> m3 x = mem (t\<lparr>mem := m2\<rparr>) x"
    by (rule submit_head_eq)
  have mm: "mem (t\<lparr>mem := m2\<rparr>) = m2" by simp
  have m32: "m3 x = m2 x" if "unat (x - q) < 4096 \<or> 6672 \<le> unat (x - q)" for x
    using m3(2) that unfolding mm by blast
  have a3: "heap_agree t m3"
    unfolding heap_agree_def
  proof (intro allI impI)
    fix x assume x: "\<not> in_heap t x"
    then have "6672 \<le> unat (x - q)" using heap_block_in_heap(1) [OF qt, of x] not_less by blast
    with m32 f1(2) x show "m3 x = mem t x" by (simp add: heap_agree_def)
  qed
  have g3: "heap_wf (t\<lparr>mem := m3\<rparr>)" "phys_ok (t\<lparr>mem := m3\<rparr>)" "sv48 (t\<lparr>mem := m3\<rparr>) = sv48 t"
    "frames_left (t\<lparr>mem := m3\<rparr>) = frames_left t"
    using heap_region [OF k(2) okt, of m3] a3 by (simp_all add: heap_agree_def)
  have keep: "m3 x = m1 x" if "6672 \<le> unat (x - q)" for x
    using that m32 desc_mem_out [of x q] by (simp add: m2_def)
  have ld: "load_bytes m3 (q + i) n = load_bytes m2 (q + i) n" if "unat i + n \<le> 4096" for i n
  proof (rule load_bytes_cong)
    show "m3 x = m2 x" if x: "unat (x - (q + i)) < n" for x
      by (rule m32, rule disjI1, rule near_offset [OF x]) (use \<open>unat i + n \<le> 4096\<close> in simp_all)
  qed (use that in simp)
  have rg: "ld64 m3 this = ld64 (mem s) this"
  proof (rule ld64_cong)
    fix x assume x: "unat (x - this) < 8"
    then have "6672 \<le> unat (x - q)" using apart_out [OF th q ap, of x] by simp
    then show "m3 x = mem s x" using keep m1 heap_block_in_heap(1) [OF th] x by simp
  qed
  have ap': "6672 \<le> unat (x - q)" if "unat (x - r) < 536" for x
  proof (rule apart_out [OF r qt _ that])
    show "apart r 536 q 6672" using k(5) q by (simp add: apart_def heap_block_def)
  qed
  have rl: "load_bytes m3 (r + i) n = load_bytes m1 (r + i) n" if "unat i + n \<le> 536" for i n
  proof (rule load_bytes_cong)
    show "m3 x = m1 x" if x: "unat (x - (r + i)) < n" for x
      by (rule keep, rule ap', rule near_offset [OF x]) (use \<open>unat i + n \<le> 536\<close> in simp_all)
  qed (use that in simp)
  let ?u = "t\<lparr>mem := m3, dev := vwr V (ld64 (mem s) this + 0x50) 0 (dev t)\<rparr>"
  have dt: "dev t = dev s" using k(3) by (cases s, cases t) (simp add: heap_only_def)
  have run: "basic_op V this sector len buf 0 s =
      do { s' \<leftarrow> device_turn V q r buf ?u; if mem s' (status_addr r) = 0x12 then None else Some (0, s') }"
    using k(1) len q1 f1(1) m3(1) rg
    by (simp add: basic_op_def operator_new_def sizeof_VirtIOBlkRequest_def VirtIOBlkRequest_def put32_def put64_def
        put8_def wreg_def Let_def m1_def [unfolded request_mem_def, symmetric])
  have svu: "sv48 ?u = sv48 t" "pa ?u = pa t"
    using g3(3) by (simp_all add: vio_dev_cong(2) pa_def fun_eq_iff)
  have fields: "ld64 m3 (q + 16) = pa t buf" "ld32 m3 (q + 24) = ucast len" "ld16 m3 (q + 28) = 3"
    "ld64 m3 (q + 32) = pa t (status_addr r)" "ld32 m3 r = 0" "ld64 m3 (r + 8) = ucast (ucast sector :: u32)"
    using desc_mem_loads [of m1 q "pa t r" "pa t buf" "pa t (status_addr r)" len 0] request_mem_facts(2,3) [of "mem t" r 0 "ucast sector"]
      ld [of 16 8] ld [of 24 4] ld [of 28 2] ld [of 32 8] rl [of 0 4] rl [of 8 8]
    by (simp_all add: m2_def [symmetric] m1_def [symmetric] ld16_def ld32_def ld64_def)
  have svs: "sv48 t x = sv48 s x" if "in_heap s x" for x by (rule kalloc_sv48_heap [OF wf room k(1) that])
  show ?thesis
  proof (rule that [OF run])
    show "heap_wf ?u" "phys_ok ?u" "heap_block ?u r 536" "\<forall>a n. heap_block s a n \<longrightarrow> heap_block ?u a n"
      "frames_left s \<le> frames_left ?u + kalloc_cost 536"
      using g3 r k(7,8) by (simp_all add: vio_dev_cong, simp_all add: heap_block_def)
    show "unat r = unat (free_list s) + 16" by (rule k(5))
    show "\<forall>x. in_heap s x \<longrightarrow> 6672 \<le> unat (x - q) \<longrightarrow> mem ?u x = mem s x" using keep m1 by simp
    show "\<forall>x. in_heap s x \<longrightarrow> sv48 ?u x = sv48 s x" using svs by (simp add: svu)
    have "pa t buf = pa s buf" using svs [OF buf] by (simp add: pa_def)
    with fields show "ld64 (mem ?u) (q + 16) = pa s buf" "ld32 (mem ?u) (q + 24) = ucast len" "ld16 (mem ?u) (q + 28) = 3"
      "ld64 (mem ?u) (q + 32) = pa ?u (status_addr r)" "ld32 (mem ?u) r = 0"
      "ld64 (mem ?u) (r + 8) = ucast (ucast sector :: u32)" by (simp_all add: svu)
    show "dev ?u = vwr V (ld64 (mem s) this + 0x50) 0 (dev s)" by (simp add: dt)
    show "heap_only s (?u\<lparr>dev := dev s\<rparr>)" using k(3) dt by (cases s, cases t) (simp add: heap_only_def)
    have "ld64 m3 (free_list s) = ld64 (mem t) (free_list s)"
    proof (rule ld64_cong)
      fix x assume "unat (x - free_list s) < 8"
      note x = header_out [OF wf this]
      have "536 \<le> unat (x - r)" using x(3) [of 536] by (simp add: k(4))
      then show "m3 x = mem t x" using keep x(2) [OF q] request_mem_facts(1) by (simp add: m1_def)
    qed
    then show "ld64 (mem ?u) (free_list s) = 536" using kalloc_facts [OF wf room] k(1) by auto
    show "unat (free_list ?u) = unat (free_list s) + 552" using kalloc_facts [OF wf room] k(1) by auto
    show "linear_heap s \<longrightarrow> unat (free_list s) + 568 \<le> heap_limit \<longrightarrow> linear_heap ?u"
      using kalloc_linear(1) [OF _ _ k(1)] linear_region [of t m3] a3 by (simp add: vio_dev_cong heap_agree_def)
    show "\<forall>R. kernel_image R s \<longrightarrow> kernel_image R ?u"
      using image_kalloc [OF wf room k(1)] image_region [OF k(2), of _ m3] a3 by (simp add: heap_agree_def)
  qed
qed

section \<open>Reading sectors\<close>

lemma basic_op_read:
  fixes s :: "('d, 'a) vio_scheme"
  assumes dr: "driver_ok this q s" and room: "kalloc_cost 536 \<le> frames_left s"
    and buf: "heap_block s buf (unat len)" "apart buf (unat len) q 6672" "apart buf (unat len) this 24"
    and len: "len mod 512 = 0" "0 < unat len" "unat len < 2 ^ 32"
    and cont: "contiguous s buf (unat len) p"
    and serve: "vserve V \<lparr>rq_type = 0, rq_sector = ucast (ucast sector :: u32), rq_len = unat len,
        rq_data = load_bytes (mem s) buf (unat len)\<rparr> (vwr V (ld64 (mem s) this + 0x50) 0 (dev s)) = Some (data, st, d')"
      "length data = unat len" "st \<noteq> 0x12"
  obtains s' where "basic_op V this sector len buf 0 s = Some (0, s')" "driver_ok this q s'"
    "load_bytes (mem s') buf (unat len) = data" "dev s' = d'"
    "\<forall>x. in_heap s x \<longrightarrow> unat len \<le> unat (x - buf) \<longrightarrow> 6672 \<le> unat (x - q) \<longrightarrow> mem s' x = mem s x"
    "\<forall>a n. heap_block s a n \<longrightarrow> heap_block s' a n" "frames_left s \<le> frames_left s' + kalloc_cost 536"
    "heap_only s (s'\<lparr>dev := dev s\<rparr>)" "ld64 (mem s') (free_list s) = 536"
    "unat (free_list s') = unat (free_list s) + 552"
    "linear_heap s \<longrightarrow> unat (free_list s) + 568 \<le> heap_limit \<longrightarrow> linear_heap s'" "\<forall>R. kernel_image R s \<longrightarrow> kernel_image R s'"
proof -
  have bh: "in_heap s x" "unat x = unat buf + unat (x - buf)" if "unat (x - buf) < unat len" for x
    using heap_block_in_heap [OF buf(1) that] by blast+
  have bi: "in_heap s buf" using bh(1) [of buf] len(2) by simp
  obtain r u where u: "basic_op V this sector len buf 0 s =
      do { s' \<leftarrow> device_turn V q r buf u; if mem s' (status_addr r) = 0x12 then None else Some (0, s') }"
    "heap_wf u" "phys_ok u" "heap_block u r 536" "unat r = unat (free_list s) + 16"
    "\<forall>a n. heap_block s a n \<longrightarrow> heap_block u a n"
    "\<forall>x. in_heap s x \<longrightarrow> 6672 \<le> unat (x - q) \<longrightarrow> mem u x = mem s x"
    "\<forall>x. in_heap s x \<longrightarrow> sv48 u x = sv48 s x"
    "ld64 (mem u) (q + 16) = pa s buf" "ld32 (mem u) (q + 24) = ucast len" "ld16 (mem u) (q + 28) = 3"
    "ld64 (mem u) (q + 32) = pa u (status_addr r)" "ld32 (mem u) r = 0" "ld64 (mem u) (r + 8) = ucast (ucast sector :: u32)"
    "dev u = vwr V (ld64 (mem s) this + 0x50) 0 (dev s)" "frames_left s \<le> frames_left u + kalloc_cost 536"
    "heap_only s (u\<lparr>dev := dev s\<rparr>)" "ld64 (mem u) (free_list s) = 536"
    "unat (free_list u) = unat (free_list s) + 552"
    "linear_heap s \<longrightarrow> unat (free_list s) + 568 \<le> heap_limit \<longrightarrow> linear_heap u" "\<forall>R. kernel_image R s \<longrightarrow> kernel_image R u"
    by (rule basic_op_prepared [OF dr room bi len(1)])
  have q: "heap_block s q 6672" "heap_block s this 24" "apart this 24 q 6672" "ld64 (mem s) (this + 16) = q"
    using dr by (simp_all add: driver_ok_def)
  have blk: "heap_block u buf (length data)" "apart buf (length data) r 536"
    using buf(1) u(5,6) serve(2) by (simp_all add: apart_def heap_block_def)
  have d: "desc_addr q 1 = q + 16" "desc_addr q 1 + 8 = q + 24" "desc_addr q 1 + 12 = q + 28" "desc_addr q 2 = q + 32"
    by (simp_all add: desc_addr_def)
  have "pa s buf = p"
    using cont len(2) by (auto simp: contiguous_def pa_def dest!: spec [of _ 0])
  have ct: "contiguous u buf (length data) (ld64 (mem u) (desc_addr q 1))"
    unfolding d(1) u(9) \<open>pa s buf = p\<close> serve(2) contiguous_def
  proof (intro allI impI)
    fix i assume i: "i < unat len"
    then have "unat (of_nat i :: u64) = i" using unat_bound [of len] by (intro unat_of_nat_small [OF i]) simp
    then have "in_heap s (buf + of_nat i)" using i by (intro bh(1)) simp
    then show "\<exists>fl. sv48 u (buf + of_nat i) = Some (p + of_nat i, fl)"
      using cont i u(8) by (simp add: contiguous_def)
  qed
  have bq: "mem u x = mem s x" if "unat (x - buf) < unat len" for x
    using u(7) bh(1) [OF that] apart_out [OF buf(1) q(1) buf(2) that] by blast
  have "unat (ucast len :: u32) = unat len"
    using len(3) by (simp add: unsigned_ucast_eq take_bit_nat_eq_self)
  moreover have "load_bytes (mem u) buf (unat len) = load_bytes (mem s) buf (unat len)"
    using unat_bound [of len] bq by (intro load_bytes_cong) simp_all
  ultimately have rq: "requested q r buf (mem u) = \<lparr>rq_type = 0, rq_sector = ucast (ucast sector :: u32),
      rq_len = unat len, rq_data = load_bytes (mem s) buf (unat len)\<rparr>"
    unfolding requested_def d(2) u(10,13,14) by simp
  have fl: "ld16 (mem u) (desc_addr q 1 + 12) AND VIRTQ_DESC_F_WRITE \<noteq> 0"
    unfolding d(3) u(11) by (simp add: VIRTQ_DESC_F_WRITE_def)
  obtain s' where s': "device_turn V q r buf u = Some s'" "mem s' (status_addr r) = st"
    "load_bytes (mem s') buf (length data) = data" "heap_wf s'" "phys_ok s'" "frames_left s' = frames_left u"
    "\<forall>x. \<not> direct x \<longrightarrow> length data \<le> unat (x - buf) \<longrightarrow> x \<noteq> status_addr r \<longrightarrow> mem s' x = mem u x"
    "s' = u\<lparr>mem := mem s', dev := d'\<rparr>" "linear_heap u \<longrightarrow> linear_heap s'" "\<forall>R. kernel_image R u \<longrightarrow> kernel_image R s'"
    by (rule device_turn_read [OF u(2,3) blk(1) u(4) blk(2) ct u(12) [folded d(4)] fl serve(1) [folded rq u(15)]])
  have hb: "heap_block s' a n = heap_block u a n" for a n by (subst s'(8)) (simp add: heap_block_def)
  have wf: "heap_wf s" using dr by (simp add: driver_ok_def)
  have keep: "mem s' x = mem s x" if x: "in_heap s x" "unat len \<le> unat (x - buf)" "6672 \<le> unat (x - q)" for x
  proof -
    have "x \<noteq> status_addr r"
      using x(1) u(5) heap_block_at(2) [OF u(4), of 528 1] by (auto simp: in_heap_def status_addr_def)
    moreover have "\<not> direct x" using heap_not_direct(2) [OF wf] x(1) by (simp add: in_heap_def)
    ultimately show ?thesis using s'(7) u(7) x serve(2) by simp
  qed
  show ?thesis
  proof (rule that)
    show "basic_op V this sector len buf 0 s = Some (0, s')" using u(1) s'(1,2) serve(3) by simp
    show "load_bytes (mem s') buf (unat len) = data" using s'(3) serve(2) by simp
    show "dev s' = d'" by (subst s'(8)) simp
    show "\<forall>x. in_heap s x \<longrightarrow> unat len \<le> unat (x - buf) \<longrightarrow> 6672 \<le> unat (x - q) \<longrightarrow> mem s' x = mem s x"
      using keep by blast
    show "\<forall>a n. heap_block s a n \<longrightarrow> heap_block s' a n" using u(6) hb by blast
    show "frames_left s \<le> frames_left s' + kalloc_cost 536" using u(16) s'(6) by simp
    show "unat (free_list s') = unat (free_list s) + 552" by (subst s'(8)) (simp add: u(19))
    show "linear_heap s \<longrightarrow> unat (free_list s) + 568 \<le> heap_limit \<longrightarrow> linear_heap s'" using u(20) s'(9) by blast
    show "\<forall>R. kernel_image R s \<longrightarrow> kernel_image R s'" using u(21) s'(10) by blast
    show "heap_only s (s'\<lparr>dev := dev s\<rparr>)"
      using u(17) by (subst s'(8)) (cases s, cases u, simp add: heap_only_def)
    have "ld64 (mem s') (free_list s) = ld64 (mem u) (free_list s)"
    proof (rule ld64_cong)
      fix x assume "unat (x - free_list s) < 8"
      note x = header_out [OF wf this]
      have "x \<noteq> status_addr r"
        using x(4) u(5) heap_block_at(2) [OF u(4), of 528 1] by (auto simp: status_addr_def)
      then show "mem s' x = mem u x" using s'(7) x(1) x(2) [OF buf(1)] serve(2) by simp
    qed
    then show "ld64 (mem s') (free_list s) = 536" using u(18) by simp
    have "ld64 (mem s') (this + 16) = ld64 (mem s) (this + 16)"
    proof (rule ld64_cong)
      fix x assume "unat (x - (this + 16)) < 8"
      then have x: "unat (x - this) < 24" by (rule near_offset) simp_all
      show "mem s' x = mem s x"
      proof (rule keep)
        show "in_heap s x" by (rule heap_block_in_heap(1) [OF q(2) x])
        show "6672 \<le> unat (x - q)" by (rule apart_out [OF q(2,1,3) x])
        show "unat len \<le> unat (x - buf)"
          using buf(3) by (intro apart_out [OF q(2) buf(1) _ x]) (auto simp: apart_def)
      qed
    qed
    then show "driver_ok this q s'" using s'(4,5) u(6) q by (simp add: driver_ok_def hb)
  qed
qed

section \<open>Reading bytes\<close>

text \<open>
  The device as the virtio specification describes a disk with contents \<open>D\<close>: in a live state,
  which a write to the notification register keeps, it answers a read request with the bytes from
  the sector on and status 0, and stays live.
\<close>

definition serves :: "'d vio_ops \<Rightarrow> (nat \<Rightarrow> u8) \<Rightarrow> ('d \<Rightarrow> bool) \<Rightarrow> u64 \<Rightarrow> bool" where
  "serves V D live registers \<longleftrightarrow> (\<forall>d. live d \<longrightarrow> live (vwr V (registers + 0x50) 0 d)) \<and>
     (\<forall>d rq. live d \<and> rq_type rq = 0 \<longrightarrow> (\<exists>d'. live d' \<and> vserve V rq d =
        Some (map D [512 * unat (rq_sector rq) ..< 512 * unat (rq_sector rq) + rq_len rq], 0, d')))"

lemma serves_read:
  assumes "serves V D live registers" and "live d" and "rq_type rq = 0" and "rq_sector rq = sector" and "rq_len rq = n"
  obtains d' where "live d'" "vserve V rq (vwr V (registers + 0x50) 0 d) =
    Some (map D [512 * unat sector ..< 512 * unat sector + n], 0, d')"
  using assms unfolding serves_def by blast

text \<open>The driver object, its queue and the device behind them, ready for requests.\<close>

definition disk_ready :: "'d vio_ops \<Rightarrow> (nat \<Rightarrow> u8) \<Rightarrow> ('d \<Rightarrow> bool) \<Rightarrow> u64 \<Rightarrow> u64 \<Rightarrow> ('d, 'a) vio_scheme \<Rightarrow> bool" where
  "disk_ready V D live this q s \<longleftrightarrow> driver_ok this q s \<and> serves V D live (ld64 (mem s) this) \<and> live (dev s)"

definition vio_only :: "('d, 'a) vio_scheme \<Rightarrow> ('d, 'a) vio_scheme \<Rightarrow> bool" where
  "vio_only s s' \<longleftrightarrow> s' = s\<lparr>mem := mem s', out := out s', free_list := free_list s',
     virtual_alloc_end := virtual_alloc_end s', dev := dev s'\<rparr>"

lemma vio_only_trans [trans]: "vio_only s t \<Longrightarrow> vio_only t u \<Longrightarrow> vio_only s u"
  unfolding vio_only_def by (cases s, cases t, cases u) simp

lemma vio_only_intros:
  fixes s :: "('d, 'a) vio_scheme"
  shows "heap_only s (s'\<lparr>dev := dev s\<rparr>) \<Longrightarrow> vio_only s s'" "heap_only s s' \<Longrightarrow> vio_only s s'"
    "vio_only s (s\<lparr>mem := m\<rparr>)" "vio_only s (s\<lparr>out := tx\<rparr>)" "vio_only s s"
  unfolding vio_only_def heap_only_def by (cases s, cases s', simp)+

lemma driver_ok_out [simp]: "driver_ok this q (s\<lparr>out := tx\<rparr>) = driver_ok this q s"
  by (simp add: driver_ok_def heap_wf_out heap_block_def)

lemma ld64_low_byte: "ucast (ld64 m a) = m a"
  by (rule bit_word_eqI) (auto simp: ld64_def bit_le_word bit_ucast_iff load_bytes_def)

lemma load_bytes_sub:
  assumes "k + j \<le> n"
  shows "load_bytes m (a + of_nat k) j = take j (drop k (load_bytes m a n))"
  using assms by (auto intro!: nth_equalityI simp: add.assoc)

text \<open>The numbers \<^verbatim>\<open>read\<close> computes from offset and length.\<close>

lemma read_sizes:
  fixes offset len :: u64
  assumes "unat offset + 2 ^ 20 < 2 ^ 41" and "unat len < 2 ^ 31"
  defines "o' \<equiv> offset + 512 * 2048" and "n \<equiv> 512 * (len div 512 + 1)"
  shows "unat o' = unat offset + 2 ^ 20" "unat (o' div 512) = unat o' div 512" "unat (o' mod 512) = unat o' mod 512"
    "ucast (ucast (o' div 512) :: u32) = o' div 512" "unat n = 512 * (unat len div 512 + 1)"
    "(len div 512 + 1) * 512 = n" "n mod 512 = 0" "unat n < 2 ^ 32" "0 < unat n"
proof -
  show o: "unat o' = unat offset + 2 ^ 20" unfolding o'_def using assms(1) by (simp add: unat_word_ariths)
  show d: "unat (o' div 512) = unat o' div 512" "unat (o' mod 512) = unat o' mod 512"
    by (simp_all add: unat_div unat_mod)
  then have "unat (o' div 512) < 2 ^ 32" using o assms(1) by simp
  then show "ucast (ucast (o' div 512) :: u32) = o' div 512"
    by (simp add: word_unat_eq_iff unsigned_ucast_eq unat_take_bit)
  have a: "unat (len div 512 + 1) = unat len div 512 + 1"
    using assms(2) by (simp add: unat_word_ariths unat_div)
  then show n: "unat n = 512 * (unat len div 512 + 1)"
    unfolding n_def using assms(2) by (simp add: unat_word_ariths)
  show "(len div 512 + 1) * 512 = n" unfolding n_def by (rule mult.commute)
  show "n mod 512 = 0" using n by (simp add: word_unat_eq_iff unat_mod)
  show "unat n < 2 ^ 32" "0 < unat n" using n assms(2) by simp_all
qed

lemma blk_read_steps:
  fixes s :: "('d, 'a) vio_scheme" and offset len :: u64
  assumes dr: "disk_ready V D live this q s" and b: "unat offset + 2 ^ 20 < 2 ^ 41" "unat len < 2 ^ 31"
    and room: "kalloc_cost (512 * (len div 512 + 1)) + kalloc_cost 536 \<le> frames_left s"
    and cont: "\<forall>p t. kalloc (512 * (len div 512 + 1)) (log VIRTIO ''Reading %i bytes from offset 0x%x'' [VInt len, VInt offset] s)
      = Some (p, t) \<longrightarrow> (\<exists>f. contiguous t p (unat (512 * (len div 512 + 1))) f)"
  defines "o' \<equiv> offset + 512 * 2048" and "n \<equiv> 512 * (len div 512 + 1)"
  obtains tb t where "blk_read V this offset len buf s = Some (0, snd (memcpy buf (tb + o' mod 512) len t))"
    "disk_ready V D live this q t" "load_bytes (mem t) tb (unat n) =
      map D [unat o' - unat o' mod 512 ..< unat o' - unat o' mod 512 + unat n]"
    "mem t (tb + n) = 0x18" "heap_block t tb (unat n)" "unat tb = unat (free_list s) + 16"
    "\<forall>x. in_heap s x \<longrightarrow> 6672 \<le> unat (x - q) \<longrightarrow> mem t x = mem s x"
    "\<forall>a k. heap_block s a k \<longrightarrow> heap_block t a k"
    "frames_left s \<le> frames_left t + kalloc_cost n + kalloc_cost 536" "vio_only s t"
    "unat (free_list t) = unat (free_list s) + unat n + 568"
    "linear_heap s \<longrightarrow> unat (free_list s) + unat n + 584 \<le> heap_limit \<longrightarrow> linear_heap t"
    "ld64 (mem t) (free_list s) = n" "\<forall>R. kernel_image R s \<longrightarrow> kernel_image R t"
proof -
  note z = read_sizes [OF b, folded o'_def n_def]
  let ?s0 = "log VIRTIO ''Reading %i bytes from offset 0x%x'' [VInt len, VInt offset] s"
  have s0: "driver_ok this q ?s0" "heap_wf ?s0" "phys_ok ?s0" "mem ?s0 = mem s" "free_list ?s0 = free_list s"
    "frames_left ?s0 = frames_left s" "dev ?s0 = dev s" "vio_only s ?s0"
    using dr by (simp_all add: log_eq disk_ready_def frames_left_def state_simps vio_only_intros, simp_all add: driver_ok_def heap_wf_out)
  have rn: "kalloc_cost n \<le> frames_left ?s0" using room s0(6) by (simp add: n_def)
  obtain tb t where k: "kalloc n ?s0 = Some (tb, t)" "heap_wf t" "heap_only ?s0 t" "tb = free_list ?s0 + 16"
    "unat tb = unat (free_list ?s0) + 16" "heap_block t tb (unat n)" "frames_left ?s0 \<le> frames_left t + kalloc_cost n"
    "\<forall>a n. heap_block ?s0 a n \<longrightarrow> heap_block t a n"
    "\<forall>x. unat VIRTUAL_HEAP_START \<le> unat x \<longrightarrow> unat x < unat (free_list ?s0) \<longrightarrow> mem t x = mem ?s0 x"
    by (rule kalloc_block [OF s0(2) rn])
  let ?t1 = "log WARNING ''Temp buffer in VirtIOBlockDevice::read should be freed!'' [] t"
  have st: "heap_block s this 24" "heap_block s q 6672" "apart this 24 q 6672" "ld64 (mem s) (this + 16) = q"
    "serves V D live (ld64 (mem s) this)" "live (dev s)" "heap_wf s"
    using dr by (simp_all add: disk_ready_def driver_ok_def)
  have hb: "heap_block t a m" if "heap_block s a m" for a m
    using k(8) that by (simp add: heap_block_def log_eq)
  have mt: "mem t x = mem s x" if "in_heap s x" for x using k(9) that s0(4,5) by (simp add: in_heap_def)
  have ldt: "ld64 (mem t) a = ld64 (mem s) a" if "heap_block s a 8" for a
    using ld64_block_cong [OF that, of "mem t"] mt by (simp add: in_heap_def)
  note th = heap_fields [OF st(1)]
  have "phys_ok t" by (rule kalloc_phys [OF s0(2) rn s0(3) k(1)])
  then have "driver_ok this q t"
    using k(2) hb [OF st(1)] hb [OF st(2)] st(3,4) ldt [OF th(3)] by (simp add: driver_ok_def)
  then have t1: "driver_ok this q ?t1" by (simp add: log_eq)
  have dt: "dev t = dev s" using k(3) s0(7) by (cases t, cases ?s0) (simp add: heap_only_def)
  have v1: "vio_only s ?t1"
    using vio_only_trans [OF s0(8) vio_only_intros(2) [OF k(3)]] vio_only_trans vio_only_intros(4) unfolding log_eq by blast
  obtain f where "contiguous t tb (unat n) f" using cont k(1) unfolding n_def by blast
  then have ct: "contiguous ?t1 tb (unat n) f" by (simp add: contiguous_def log_eq state_simps)
  have tbb: "heap_block ?t1 tb (unat n)" "apart tb (unat n) q 6672" "apart tb (unat n) this 24"
    using k(5,6) st(1,2) s0(5) by (simp_all add: heap_block_def apart_def log_eq)
  have reg: "ld64 (mem ?t1) this = ld64 (mem s) this" "dev ?t1 = dev s" using ldt [OF th(1)] dt by (simp_all add: log_eq)
  obtain d' where d': "live d'" "vserve V \<lparr>rq_type = 0, rq_sector = ucast (ucast (o' div 512) :: u32), rq_len = unat n,
        rq_data = load_bytes (mem ?t1) tb (unat n)\<rparr> (vwr V (ld64 (mem ?t1) this + 0x50) 0 (dev ?t1)) =
      Some (map D [512 * unat (o' div 512) ..< 512 * unat (o' div 512) + unat n], 0, d')"
    using serves_read [OF st(5,6), of "\<lparr>rq_type = 0, rq_sector = o' div 512, rq_len = unat n,
        rq_data = load_bytes (mem ?t1) tb (unat n)\<rparr>" "o' div 512" "unat n"]
    unfolding reg z(4) blk_request.simps by blast
  have rm: "kalloc_cost 536 \<le> frames_left ?t1" using room k(7) s0(6) by (simp add: n_def log_eq frames_left_def state_simps)
  have ln: "length (map D [512 * unat (o' div 512) ..< 512 * unat (o' div 512) + unat n]) = unat n" by simp
  have ne: "(0 :: u8) \<noteq> 0x12" by simp
  obtain u where u: "basic_op V this (o' div 512) n tb 0 ?t1 = Some (0, u)" "driver_ok this q u"
    "load_bytes (mem u) tb (unat n) = map D [512 * unat (o' div 512) ..< 512 * unat (o' div 512) + unat n]" "dev u = d'"
    "\<forall>x. in_heap ?t1 x \<longrightarrow> unat n \<le> unat (x - tb) \<longrightarrow> 6672 \<le> unat (x - q) \<longrightarrow> mem u x = mem ?t1 x"
    "\<forall>a n. heap_block ?t1 a n \<longrightarrow> heap_block u a n" "frames_left ?t1 \<le> frames_left u + kalloc_cost 536"
    "heap_only ?t1 (u\<lparr>dev := dev ?t1\<rparr>)" "ld64 (mem u) (free_list ?t1) = 536"
    "unat (free_list u) = unat (free_list ?t1) + 552"
    "linear_heap ?t1 \<longrightarrow> unat (free_list ?t1) + 568 \<le> heap_limit \<longrightarrow> linear_heap u" "\<forall>R. kernel_image R ?t1 \<longrightarrow> kernel_image R u"
    by (rule basic_op_read [OF t1 rm tbb z(7,9,8) ct d'(2) ln ne])
  have keep: "mem u x = mem s x" if x: "in_heap s x" "6672 \<le> unat (x - q)" for x
  proof -
    have "in_heap ?t1 x" using x(1) k(5,6) s0(5) by (simp add: in_heap_def heap_block_def log_eq)
    moreover have "unat n \<le> unat (x - tb)"
    proof (rule ccontr)
      assume "\<not> unat n \<le> unat (x - tb)"
      then have "unat x = unat tb + unat (x - tb)" by (intro heap_block_in_heap(2) [OF k(6)]) simp
      moreover have "unat x < unat (free_list s)" using x(1) by (simp add: in_heap_def)
      ultimately show False using k(5) s0(5) by simp
    qed
    ultimately show ?thesis using u(5) x mt by (simp add: log_eq)
  qed
  have ldu: "ld64 (mem u) this = ld64 (mem s) this"
  proof (rule ld64_cong)
    fix x assume "unat (x - this) < 8"
    then have x: "unat (x - this) < 24" by simp
    show "mem u x = mem s x" by (rule keep [OF heap_block_in_heap(1) [OF st(1) x] apart_out [OF st(1,2,3) x]])
  qed
  have "free_list t = tb + n" using kalloc_facts [OF s0(2) rn] k(1,4) by auto
  note flt = this
  have unt: "unat (free_list t) = unat (free_list s) + 16 + unat n" using kalloc_facts [OF s0(2) rn] k(1) s0(5) by auto
  from flt have byte: "mem u (tb + n) = 0x18"
    using u(9) ld64_low_byte [of "mem u" "tb + n"] by (simp add: log_eq)
  have sec: "512 * unat (o' div 512) = unat o' - unat o' mod 512"
    using z(2) by (simp add: minus_mod_eq_mult_div)
  show ?thesis
  proof (rule that)
    show "blk_read V this offset len buf s = Some (0, snd (memcpy buf (tb + o' mod 512) len u))"
      unfolding blk_read_def read_blocks_def Let_def o'_def [symmetric] z(6) n_def [symmetric] using k(1) u(1) by simp
    show "disk_ready V D live this q u" using u(2,4) d'(1) ldu st(5) by (simp add: disk_ready_def)
    show "load_bytes (mem u) tb (unat n) = map D [unat o' - unat o' mod 512 ..< unat o' - unat o' mod 512 + unat n]"
      using u(3) unfolding sec .
    show "mem u (tb + n) = 0x18" by (rule byte)
    show "heap_block u tb (unat n)" using u(6) tbb(1) by blast
    show "unat tb = unat (free_list s) + 16" using k(5) unfolding s0(5) .
    show "\<forall>x. in_heap s x \<longrightarrow> 6672 \<le> unat (x - q) \<longrightarrow> mem u x = mem s x" using keep by blast
    have "heap_block ?t1 a m" if "heap_block s a m" for a m
      using hb [OF that] by (simp add: heap_block_def log_eq)
    then show "\<forall>a m. heap_block s a m \<longrightarrow> heap_block u a m" using u(6) by blast
    have "frames_left ?t1 = frames_left t" by (simp add: log_eq frames_left_def state_simps)
    then show "frames_left s \<le> frames_left u + kalloc_cost n + kalloc_cost 536" using u(7) k(7) unfolding s0(6) by linarith
    show "vio_only s u" by (rule vio_only_trans [OF v1 vio_only_intros(1) [OF u(8)]])
    show "unat (free_list u) = unat (free_list s) + unat n + 568" using u(10) unt by (simp add: log_eq)
    have "ld64 (mem u) (free_list s) = ld64 (mem t) (free_list s)"
    proof (rule ld64_cong)
      fix x assume x: "unat (x - free_list s) < 8"
      note h = header_out [OF st(7) x]
      have "\<not> unat x < unat (free_list s)"
        using x heap_top [OF st(7)] unat_in_range [of x "free_list s" 8] by (simp add: VIRTUAL_HEAP_START_def)
      then have "in_heap ?t1 x" using h(4) unt heap_base [OF st(7)] by (simp add: in_heap_def log_eq)
      moreover have "unat n \<le> unat (x - tb)" using h(3) [of "unat n"] z(8) k(4) s0(5) by simp
      ultimately show "mem u x = mem t x" using u(5) h(2) [OF st(2)] by (simp add: log_eq)
    qed
    then show "ld64 (mem u) (free_list s) = n" using kalloc_facts [OF s0(2) rn] k(1) s0(5) by auto
    show "linear_heap s \<longrightarrow> unat (free_list s) + unat n + 584 \<le> heap_limit \<longrightarrow> linear_heap u"
    proof (intro impI)
      assume l: "linear_heap s" "unat (free_list s) + unat n + 584 \<le> heap_limit"
      then have "linear_heap t" using s0(5) by (intro kalloc_linear(1) [OF _ _ k(1)]) (simp_all add: log_eq)
      then show "linear_heap u" using u(11) l(2) unt by (simp add: log_eq)
    qed
    show "\<forall>R. kernel_image R s \<longrightarrow> kernel_image R u"
      using image_kalloc [OF s0(2) rn k(1)] u(12) by (simp add: log_eq)
  qed
qed

text \<open>Storing into a heap object other than the driver's keeps the driver ready.\<close>

lemma disk_ready_store:
  assumes dr: "disk_ready V D live this q s" and a: "heap_block s a (length bs)" "apart a (length bs) this 24"
  shows "disk_ready V D live this q (s\<lparr>mem := store_bytes (mem s) a bs\<rparr>)"
proof -
  let ?s = "s\<lparr>mem := store_bytes (mem s) a bs\<rparr>"
  have d: "heap_wf s" "phys_ok s" "heap_block s this 24" using dr by (simp_all add: disk_ready_def driver_ok_def)
  have "heap_agree s (store_bytes (mem s) a bs)" by (rule heap_agree_store [OF heap_agree_refl a(1)])
  then have r: "heap_wf ?s" "phys_ok ?s"
    using heap_region [OF d(1,2), of "store_bytes (mem s) a bs"] by (simp_all add: heap_agree_def)
  have ap: "apart this 24 a (length bs)" using a(2) by (auto simp: apart_def)
  have m: "store_bytes (mem s) a bs x = mem s x" if "unat (x - this) < 24" for x
    by (rule store_bytes_out) (rule apart_out [OF d(3) a(1) ap that])
  have "ld64 (store_bytes (mem s) a bs) (this + 16) = ld64 (mem s) (this + 16)"
    by (rule ld64_cong, rule m, erule near_offset) simp_all
  moreover have "ld64 (store_bytes (mem s) a bs) this = ld64 (mem s) this"
    by (rule ld64_cong, rule m) simp
  ultimately show ?thesis
    using dr r by (simp add: disk_ready_def driver_ok_def heap_block_def)
qed

lemma blk_read_result:
  fixes s :: "('d, 'a) vio_scheme" and offset len :: u64
  assumes dr: "disk_ready V D live this q s" and b: "unat offset + 2 ^ 20 < 2 ^ 41" "unat len < 2 ^ 31"
    and room: "kalloc_cost (512 * (len div 512 + 1)) + kalloc_cost 536 \<le> frames_left s"
    and cont: "\<forall>p t. kalloc (512 * (len div 512 + 1)) (log VIRTIO ''Reading %i bytes from offset 0x%x'' [VInt len, VInt offset] s)
      = Some (p, t) \<longrightarrow> (\<exists>f. contiguous t p (unat (512 * (len div 512 + 1))) f)"
    and buf: "heap_block s buf (unat len)" "apart buf (unat len) this 24"
  obtains t s' bs where "blk_read V this offset len buf s = Some (0, s')" "disk_ready V D live this q s'"
    "length bs = unat len" "load_bytes (mem s') buf (unat len) = bs"
    "\<forall>i < unat len. unat offset mod 512 + i < 512 * (unat len div 512 + 1) \<longrightarrow> bs ! i = D (unat offset + 2 ^ 20 + i)"
    "\<forall>i < unat len. unat offset mod 512 + i = 512 * (unat len div 512 + 1) \<longrightarrow> bs ! i = 0x18"
    "\<forall>x. in_heap s x \<longrightarrow> unat len \<le> unat (x - buf) \<longrightarrow> 6672 \<le> unat (x - q) \<longrightarrow> mem s' x = mem s x"
    "\<forall>a k. heap_block s a k \<longrightarrow> heap_block s' a k"
    "frames_left s \<le> frames_left s' + kalloc_cost (512 * (len div 512 + 1)) + kalloc_cost 536" "vio_only s s'"
    "unat (free_list s') = unat (free_list s) + 512 * (unat len div 512 + 1) + 568"
    "linear_heap s \<longrightarrow> unat (free_list s) + 512 * (unat len div 512 + 1) + 584 \<le> heap_limit \<longrightarrow> linear_heap s'"
    "ld64 (mem s') (free_list s) = 512 * (len div 512 + 1)" "\<forall>R. kernel_image R s \<longrightarrow> kernel_image R s'"
proof -
  let ?o = "offset + 512 * 2048" and ?n = "512 * (len div 512 + 1)"
  note z = read_sizes [OF b]
  have om: "unat (?o mod 512) = unat offset mod 512"
  proof -
    have "(unat offset + 1048576) mod 512 = unat offset mod 512"
      using mod_mult_self1 [of "unat offset" 2048 512] by simp
    then show ?thesis using z(1,3) by simp
  qed
  obtain tb t where t: "blk_read V this offset len buf s = Some (0, snd (memcpy buf (tb + ?o mod 512) len t))"
    "disk_ready V D live this q t" "load_bytes (mem t) tb (unat ?n) =
      map D [unat ?o - unat ?o mod 512 ..< unat ?o - unat ?o mod 512 + unat ?n]"
    "mem t (tb + ?n) = 0x18" "heap_block t tb (unat ?n)" "unat tb = unat (free_list s) + 16"
    "\<forall>x. in_heap s x \<longrightarrow> 6672 \<le> unat (x - q) \<longrightarrow> mem t x = mem s x"
    "\<forall>a k. heap_block s a k \<longrightarrow> heap_block t a k"
    "frames_left s \<le> frames_left t + kalloc_cost ?n + kalloc_cost 536" "vio_only s t"
    "unat (free_list t) = unat (free_list s) + unat ?n + 568"
    "linear_heap s \<longrightarrow> unat (free_list s) + unat ?n + 584 \<le> heap_limit \<longrightarrow> linear_heap t"
    "ld64 (mem t) (free_list s) = ?n" "\<forall>R. kernel_image R s \<longrightarrow> kernel_image R t"
    by (rule blk_read_steps [OF dr b room cont])
  let ?src = "tb + ?o mod 512"
  define bs where "bs = load_bytes (mem t) ?src (unat len)"
  let ?s' = "t\<lparr>mem := store_bytes (mem t) buf bs\<rparr>"
  have wf: "heap_wf t" using t(2) by (simp add: disk_ready_def driver_ok_def)
  have tb: "unat tb + unat ?n < 2 ^ 64 - 2 ^ 40" by (rule heap_block_bound [OF wf t(5)])
  have src: "unat ?src = unat tb + unat offset mod 512" using tb om by (simp add: unat_word_ariths)
  have "disj buf (unat len) ?src (unat len)"
  proof (cases "len = 0")
    case True
    then show ?thesis by (simp add: disj_def)
  next
    case False
    then show ?thesis
      using src t(6) buf(1) tb b(2) by (intro disj_nat) (auto simp: heap_block_def unat_gt_0)
  qed
  from memcpy_store [OF this] have run: "blk_read V this offset len buf s = Some (0, ?s')"
    using t(1) by (simp add: bs_def)
  have lb: "length bs = unat len" by (simp add: bs_def)
  have bl: "heap_block t buf (length bs)" using t(8) buf(1) lb by simp
  have bi: "bs ! i = mem t (tb + of_nat (unat offset mod 512 + i))" if "i < unat len" for i
  proof -
    have "?src = tb + of_nat (unat offset mod 512)" using om by (metis of_nat_unat ucast_id)
    with that show ?thesis by (simp add: bs_def add.assoc)
  qed
  have g: "heap_agree t (store_bytes (mem t) buf bs)" by (rule heap_agree_store [OF heap_agree_refl bl])
  show ?thesis
  proof (rule that [OF run _ lb])
    show "disk_ready V D live this q ?s'" using buf(2) lb by (intro disk_ready_store [OF t(2) bl]) simp
    show "load_bytes (mem ?s') buf (unat len) = bs" using lb unat_bound [of len] by (simp add: load_store_same)
    show "\<forall>i < unat len. unat offset mod 512 + i < 512 * (unat len div 512 + 1) \<longrightarrow> bs ! i = D (unat offset + 2 ^ 20 + i)"
    proof (intro allI impI)
      fix i assume i: "i < unat len" "unat offset mod 512 + i < 512 * (unat len div 512 + 1)"
      let ?j = "unat offset mod 512 + i"
      have "bs ! i = load_bytes (mem t) tb (unat ?n) ! ?j" using bi [OF i(1)] i(2) z(5) by simp
      also have "\<dots> = D (unat ?o - unat ?o mod 512 + ?j)" unfolding t(3) using i(2) z(5) by simp
      also have "unat ?o - unat ?o mod 512 + ?j = unat offset + 2 ^ 20 + i"
        using z(1,3) om by simp
      finally show "bs ! i = D (unat offset + 2 ^ 20 + i)" .
    qed
    show "\<forall>i < unat len. unat offset mod 512 + i = 512 * (unat len div 512 + 1) \<longrightarrow> bs ! i = 0x18"
    proof (intro allI impI)
      fix i assume i: "i < unat len" "unat offset mod 512 + i = 512 * (unat len div 512 + 1)"
      have "bs ! i = mem t (tb + of_nat (unat ?n))" unfolding bi [OF i(1)] i(2) z(5) ..
      then show "bs ! i = 0x18" using t(4) by simp
    qed
    show "\<forall>x. in_heap s x \<longrightarrow> unat len \<le> unat (x - buf) \<longrightarrow> 6672 \<le> unat (x - q) \<longrightarrow> mem ?s' x = mem s x"
      using t(7) lb by (simp add: store_bytes_out)
    show "\<forall>a k. heap_block s a k \<longrightarrow> heap_block ?s' a k" using t(8) by (simp add: heap_block_def)
    have "frames_left ?s' = frames_left t"
      using heap_region(4) [OF wf, of "store_bytes (mem t) buf bs"] t(2) g
      by (simp add: heap_agree_def disk_ready_def driver_ok_def)
    then show "frames_left s \<le> frames_left ?s' + kalloc_cost ?n + kalloc_cost 536" using t(9) by simp
    show "vio_only s ?s'" by (rule vio_only_trans [OF t(10) vio_only_intros(3)])
    have "ld64 (mem ?s') (free_list s) = ld64 (mem t) (free_list s)"
    proof (rule ld64_cong)
      fix x assume x: "unat (x - free_list s) < 8"
      have "heap_wf s" using dr by (simp add: disk_ready_def driver_ok_def)
      from header_out(2) [OF this x buf(1)] lb show "mem ?s' x = mem t x" by (simp add: store_bytes_out)
    qed
    then show "ld64 (mem ?s') (free_list s) = ?n" using t(13) by simp
    show "unat (free_list ?s') = unat (free_list s) + 512 * (unat len div 512 + 1) + 568" using t(11) z(5) by simp
    show "linear_heap s \<longrightarrow> unat (free_list s) + 512 * (unat len div 512 + 1) + 584 \<le> heap_limit \<longrightarrow> linear_heap ?s'"
      using t(12) linear_region [of t "store_bytes (mem t) buf bs"] g unfolding z(5) by (simp add: heap_agree_def)
    show "\<forall>R. kernel_image R s \<longrightarrow> kernel_image R ?s'"
      using t(14) image_region [OF wf, of _ "store_bytes (mem t) buf bs"] g by (simp add: heap_agree_def)
  qed
qed

lemma kalloc_contiguous_page:
  assumes "heap_wf s" and "phys_ok s" and "kalloc_cost sz \<le> frames_left s" and "kalloc sz s = Some (p, t)"
    and "0 < unat sz" and "unat p mod 4096 + unat sz \<le> 4096"
  shows "\<exists>f. contiguous t p (unat sz) f"
proof -
  obtain p' t' where k: "kalloc sz s = Some (p', t')" "heap_wf t'" "heap_block t' p' (unat sz)"
    by (rule kalloc_block [OF assms(1,3)])
  then have k': "heap_wf t" "heap_block t p (unat sz)" using assms(4) by simp_all
  have ok: "phys_ok t" by (rule kalloc_phys [OF assms(1,3,2,4)])
  have ph: "in_heap t p" using heap_block_in_heap(1) [OF k'(2), of p] assms(5) by simp
  then have "\<not> direct p" using heap_not_direct(2) [OF k'(1)] by (simp add: in_heap_def)
  moreover have "phys_layout t" using k'(1) by (simp add: heap_wf_def pt_wf_def)
  ultimately show ?thesis using contiguous_page [OF _ ok _ heap_pa(1) [OF k'(1) ph] assms(6)] by blast
qed

text \<open>
  While the heap is linear the temporary buffer is contiguous wherever it lies behind the first page,
  and the frames suffice: what a read needs is room below the limit.
\<close>

lemma blk_read_linear:
  fixes s :: "('d, 'a) vio_scheme" and offset len :: u64
  assumes dr: "disk_ready V D live this q s" and lin: "linear_heap s" and b: "unat offset + 2 ^ 20 < 2 ^ 41" "unat len < 2 ^ 31"
    and fl: "unat VIRTUAL_HEAP_START + 4096 \<le> unat (free_list s)"
      "unat (free_list s) + 512 * (unat len div 512 + 1) + 584 \<le> heap_limit"
    and buf: "heap_block s buf (unat len)" "apart buf (unat len) this 24"
    and fit: "unat offset mod 512 + unat len \<le> 512 * (unat len div 512 + 1)"
  obtains s' where "blk_read V this offset len buf s = Some (0, s')" "disk_ready V D live this q s'"
    "load_bytes (mem s') buf (unat len) = map D [unat offset + 2 ^ 20 ..< unat offset + 2 ^ 20 + unat len]"
    "\<forall>x. in_heap s x \<longrightarrow> unat len \<le> unat (x - buf) \<longrightarrow> 6672 \<le> unat (x - q) \<longrightarrow> mem s' x = mem s x"
    "\<forall>a k. heap_block s a k \<longrightarrow> heap_block s' a k" "vio_only s s'" "linear_heap s'"
    "unat (free_list s') = unat (free_list s) + 512 * (unat len div 512 + 1) + 568"
    "ld64 (mem s') (free_list s) = 512 * (len div 512 + 1)" "\<forall>R. kernel_image R s \<longrightarrow> kernel_image R s'"
proof -
  let ?n = "512 * (len div 512 + 1) :: u64"
  note z = read_sizes [OF b]
  let ?s0 = "log VIRTIO ''Reading %i bytes from offset 0x%x'' [VInt len, VInt offset] s"
  have s0: "linear_heap ?s0" "free_list ?s0 = free_list s" using lin by (simp_all add: log_eq)
  have fit': "unat (free_list s) + unat ?n + 32 \<le> heap_limit" using fl(2) z(5) by simp
  have "kalloc_cost 536 \<le> 1024" by (simp add: kalloc_cost_def)
  then have room: "kalloc_cost ?n + kalloc_cost 536 \<le> frames_left s" using linear_room(2) [OF lin fit'] by linarith
  have cont: "\<forall>p t. kalloc ?n ?s0 = Some (p, t) \<longrightarrow> (\<exists>f. contiguous t p (unat ?n) f)"
  proof (intro allI impI)
    fix p t assume k: "kalloc ?n ?s0 = Some (p, t)"
    have f0: "unat (free_list ?s0) + unat ?n + 32 \<le> heap_limit" using fit' s0(2) by simp
    note l = kalloc_linear [OF s0(1) f0 k]
    have w: "heap_wf ?s0" using s0(1) by (simp add: linear_heap_def)
    obtain p' t' where "kalloc ?n ?s0 = Some (p', t')" "unat p' = unat (free_list ?s0) + 16"
      by (rule kalloc_block [OF w linear_room(1) [OF s0(1) f0]])
    with k l s0(2) fl(1) show "\<exists>f. contiguous t p (unat ?n) f" by (intro linear_contiguous) simp_all
  qed
  obtain s' bs where r: "blk_read V this offset len buf s = Some (0, s')" "disk_ready V D live this q s'"
    "length bs = unat len" "load_bytes (mem s') buf (unat len) = bs"
    "\<forall>i < unat len. unat offset mod 512 + i < 512 * (unat len div 512 + 1) \<longrightarrow> bs ! i = D (unat offset + 2 ^ 20 + i)"
    "\<forall>x. in_heap s x \<longrightarrow> unat len \<le> unat (x - buf) \<longrightarrow> 6672 \<le> unat (x - q) \<longrightarrow> mem s' x = mem s x"
    "\<forall>a k. heap_block s a k \<longrightarrow> heap_block s' a k" "vio_only s s'"
    "unat (free_list s') = unat (free_list s) + 512 * (unat len div 512 + 1) + 568"
    "linear_heap s \<longrightarrow> unat (free_list s) + 512 * (unat len div 512 + 1) + 584 \<le> heap_limit \<longrightarrow> linear_heap s'"
    "ld64 (mem s') (free_list s) = 512 * (len div 512 + 1)" "\<forall>R. kernel_image R s \<longrightarrow> kernel_image R s'"
    by (rule blk_read_result [OF dr b room cont buf])
  have "bs = map D [unat offset + 2 ^ 20 ..< unat offset + 2 ^ 20 + unat len]"
    using r(3,5) fit by (intro nth_equalityI) simp_all
  then show ?thesis using that [OF r(1,2) _ r(6-8) _ r(9,11,12)] r(4,10) lin fl(2) by simp
qed

section \<open>Initialisation\<close>

text \<open>The writes a driver performs on the registers of its device, as a trace.\<close>

datatype reg_write = W32 VirtIODeviceRegisters u32 | W64 VirtIODeviceRegisters u64 | Config8 u64 u8

fun perform :: "'d vio_ops \<Rightarrow> u64 \<Rightarrow> reg_write \<Rightarrow> 'd \<Rightarrow> 'd" where
  "perform V registers (W32 r v) d = vwr V (registers + reg_offset r) v d"
| "perform V registers (W64 r v) d = vwr64 V (registers + reg_offset r) v d"
| "perform V registers (Config8 a v) d = vwr8 V a v d"

text \<open>
  A device that accepts its driver: the status register holds what was last written to it and nothing
  else changes it, queue 0 is free and has at least 256 entries.
\<close>

definition accepting :: "'d vio_ops \<Rightarrow> u64 \<Rightarrow> ('d \<Rightarrow> u32) \<Rightarrow> bool" where
  "accepting V registers stat \<longleftrightarrow>
     (\<forall>d. vrd V (registers + reg_offset status) d = stat d) \<and>
     (\<forall>r v d. stat (vwr V (registers + reg_offset r) v d) = (if r = status then v else stat d)) \<and>
     (\<forall>r v d. stat (vwr64 V (registers + reg_offset r) v d) = stat d) \<and> (\<forall>a v d. stat (vwr8 V a v d) = stat d) \<and>
     (\<forall>d. vrd V (registers + reg_offset queue_ready) (vwr V (registers + reg_offset queue_sel) 0 d) = 0) \<and>
     (\<forall>d. VIRTIO_QUEUE_SIZE \<le> vrd V (registers + reg_offset queue_num_max) (vwr V (registers + reg_offset queue_sel) 0 d))"

definition init_trace :: "u32 \<Rightarrow> u64 \<Rightarrow> u64 \<Rightarrow> u64 \<Rightarrow> u64 \<Rightarrow> reg_write list" where
  "init_trace features desc driver device config =
     [W32 status 0, W32 status 1, W32 status 3,
      W32 device_features_sel 0, W32 device_features_sel 1, W32 driver_features_sel 0, W32 driver_features features,
      W32 status 11, W32 queue_sel 0, W32 queue_num 256,
      W64 queue_desc desc, W64 queue_driver driver, W64 queue_device device, W32 queue_ready 1,
      Config8 (config + 32) 0, W32 status 15]"

lemma negotiate_accepting:
  assumes "accepting V registers stat"
  obtains features where "negotiate V registers s = (True, s\<lparr>dev := fold (perform V registers)
    [W32 status 0, W32 status 1, W32 status 3, W32 device_features_sel 0, W32 device_features_sel 1,
     W32 driver_features_sel 0, W32 driver_features features, W32 status 11] (dev s)\<rparr>)"
  using assms by (simp add: accepting_def negotiate_def wreg_def rreg_def Let_def del: reg_offset.simps)

lemma check_queue_accepting:
  assumes "accepting V registers stat"
  shows "check_queue V registers name 0 s = (None, s\<lparr>dev := perform V registers (W32 queue_sel 0) (dev s)\<rparr>)"
proof -
  have "VIRTIO_QUEUE_SIZE \<le> vrd V (registers + reg_offset queue_num_max) (vwr V (registers + reg_offset queue_sel) 0 (dev s))"
    using assms unfolding accepting_def by blast
  then have "vrd V (registers + reg_offset queue_num_max) (vwr V (registers + reg_offset queue_sel) 0 (dev s)) \<noteq> 0"
    "\<not> vrd V (registers + reg_offset queue_num_max) (vwr V (registers + reg_offset queue_sel) 0 (dev s)) < VIRTIO_QUEUE_SIZE"
    by (auto simp: VIRTIO_QUEUE_SIZE_def)
  then show ?thesis
    using assms by (simp add: accepting_def check_queue_def wreg_def rreg_def Let_def del: reg_offset.simps)
qed

lemma publish_queue_eq:
  assumes "heap_wf s" and "heap_block s q 6672"
  shows "publish_queue V registers q s = s\<lparr>dev := fold (perform V registers)
    [W32 queue_num 256, W64 queue_desc (pa s q), W64 queue_driver (pa s (avail_addr q)),
     W64 queue_device (pa s (used_addr q)), W32 queue_ready 1] (dev s)\<rparr>"
proof -
  have h: "in_heap s q" "in_heap s (avail_addr q)" "in_heap s (used_addr q)"
    using heap_block_in_heap(1) [OF assms(2)] by (simp_all add: avail_addr_def used_addr_def)
  have wp: "with_physical va (wreg64 V registers r) (s\<lparr>dev := d\<rparr>) = s\<lparr>dev := perform V registers (W64 r (pa s va)) d\<rparr>"
    if "in_heap s va" for va r d
    using heap_pa(2) [of "s\<lparr>dev := d\<rparr>" va] that assms(1)
    by (simp add: with_physical_def wreg64_def vio_dev_cong pa_def)
  show ?thesis
    using wp [OF h(1)] wp [OF h(2)] wp [OF h(3)]
    by (simp add: publish_queue_def wreg_def Let_def VIRTIO_QUEUE_SIZE_def del: reg_offset.simps)
qed

lemma new_zeroed_phys:
  assumes wf: "heap_wf s" and room: "kalloc_cost sz \<le> frames_left s" and ok: "phys_ok s"
    and run: "new_zeroed sz s = Some (p, s')"
  shows "phys_ok s'"
proof -
  obtain p' t where k: "kalloc sz s = Some (p', t)" "heap_wf t" "heap_block t p' (unat sz)"
    by (rule kalloc_block [OF wf room])
  then have s': "s' = t\<lparr>mem := store_bytes (mem t) p' (replicate (unat sz) 0)\<rparr>"
    using run by (auto simp: new_zeroed_def operator_new_def)
  have "phys_ok t" by (rule kalloc_phys [OF wf room ok k(1)])
  then show ?thesis
    unfolding s' using k(2,3) by (intro phys_ok_heap_store) (simp_all add: heap_block_def)
qed

lemma new_zeroed_image:
  assumes "heap_wf s" and "kalloc_cost sz \<le> frames_left s" and "new_zeroed sz s = Some (p, s')" and "kernel_image R s"
  shows "kernel_image R s'"
proof -
  obtain p' t where k: "kalloc sz s = Some (p', t)" "heap_wf t" "heap_block t p' (unat sz)"
    by (rule kalloc_block [OF assms(1,2)])
  then have s': "s' = t\<lparr>mem := store_bytes (mem t) p' (replicate (unat sz) 0)\<rparr>"
    using assms(3) by (auto simp: new_zeroed_def operator_new_def)
  have "heap_agree t (store_bytes (mem t) p' (replicate (unat sz) 0))"
    by (rule heap_agree_store [OF heap_agree_refl]) (simp add: k(3))
  then show ?thesis
    unfolding s' using image_kalloc [OF assms(1,2) k(1) assms(4)] by (intro image_region [OF k(2)]) (simp_all add: heap_agree_def)
qed

lemma new_zeroed_linear:
  assumes "linear_heap s" and "unat (free_list s) + unat sz + 32 \<le> heap_limit" and "new_zeroed sz s = Some (p, s')"
  shows "linear_heap s'" "free_list s' = free_list s + 16 + sz" "unat (free_list s') = unat (free_list s) + 16 + unat sz"
proof -
  have wf: "heap_wf s" using assms(1) by (simp add: linear_heap_def)
  obtain p' t where k: "kalloc sz s = Some (p', t)" "heap_block t p' (unat sz)"
    by (rule kalloc_block [OF wf linear_room(1) [OF assms(1,2)]])
  then have s': "s' = t\<lparr>mem := store_bytes (mem t) p' (replicate (unat sz) 0)\<rparr>"
    using assms(3) by (auto simp: new_zeroed_def operator_new_def)
  note l = kalloc_linear [OF assms(1,2) k(1)]
  have "heap_agree t (store_bytes (mem t) p' (replicate (unat sz) 0))"
    by (rule heap_agree_store [OF heap_agree_refl]) (simp add: k(2))
  with l show "linear_heap s'" "free_list s' = free_list s + 16 + sz" "unat (free_list s') = unat (free_list s) + 16 + unat sz"
    unfolding s' by (simp_all add: linear_region heap_agree_def)
qed

lemma blk_init_ok:
  fixes s :: "('d, 'a) vio_scheme"
  assumes wf: "heap_wf s" and ok: "phys_ok s" and th: "heap_block s this 24" and room: "kalloc_cost 6672 \<le> frames_left s"
    and acc: "accepting V (ld64 (mem s) this) stat"
  obtains q features s' where "blk_init V this s = Some (0, s')" "driver_ok this q s'"
    "load_bytes (mem s') q 6672 = replicate 6672 0"
    "dev s' = fold (perform V (ld64 (mem s) this))
      (init_trace features (pa s' q) (pa s' (avail_addr q)) (pa s' (used_addr q)) (ld64 (mem s) (this + 8))) (dev s)"
    "ld64 (mem s') this = ld64 (mem s) this" "heap_only s (s'\<lparr>dev := dev s\<rparr>)" "q = free_list s + 16"
    "unat (free_list s') = unat (free_list s) + 16 + 6672" "frames_left s \<le> frames_left s' + kalloc_cost 6672"
    "linear_heap s \<longrightarrow> unat (free_list s) + 6704 \<le> heap_limit \<longrightarrow> linear_heap s'" "\<forall>R. kernel_image R s \<longrightarrow> kernel_image R s'"
proof -
  let ?r = "ld64 (mem s) this"
  obtain features where n: "negotiate V ?r s = (True, s\<lparr>dev := fold (perform V ?r)
    [W32 status 0, W32 status 1, W32 status 3, W32 device_features_sel 0, W32 device_features_sel 1,
     W32 driver_features_sel 0, W32 driver_features features, W32 status 11] (dev s)\<rparr>)" (is "_ = (True, s\<lparr>dev := ?d1\<rparr>)")
    by (rule negotiate_accepting [OF acc])
  let ?d2 = "perform V ?r (W32 queue_sel 0) ?d1"
  let ?s2 = "s\<lparr>dev := ?d2\<rparr>"
  have c: "check_queue V ?r ''block'' 0 (s\<lparr>dev := ?d1\<rparr>) = (None, ?s2)"
    using check_queue_accepting [OF acc, of "''block''" "s\<lparr>dev := ?d1\<rparr>"] by simp
  have s2: "heap_wf ?s2" "phys_ok ?s2" "kalloc_cost 6672 \<le> frames_left ?s2" using wf ok room by (simp_all add: vio_dev_cong)
  obtain q t where t: "new_zeroed 6672 ?s2 = Some (q, t)" "heap_wf t" "heap_only ?s2 t" "q = free_list ?s2 + 16"
    "unat q = unat (free_list ?s2) + 16" "heap_block t q (unat (6672 :: u64))" "frames_left ?s2 \<le> frames_left t + kalloc_cost 6672"
    "\<forall>a n. heap_block ?s2 a n \<longrightarrow> heap_block t a n"
    "\<forall>x. unat VIRTUAL_HEAP_START \<le> unat x \<longrightarrow> unat x < unat (free_list ?s2) \<longrightarrow> mem t x = mem ?s2 x"
    "load_bytes (mem t) q (unat (6672 :: u64)) = replicate (unat (6672 :: u64)) 0"
    by (rule new_zeroed_ok [OF s2(1,3)])
  have okt: "phys_ok t" by (rule new_zeroed_phys [OF s2(1,3,2) t(1)])
  have tb: "heap_block t this 24" "heap_block t q 6672" "apart this 24 q 6672"
    using t(5,6,8) th by (simp_all add: vio_dev_cong apart_def heap_block_def)
  let ?u = "put64 (this + 16) q t"
  have ag: "heap_agree t (st64 (mem t) (this + 16) q)"
    by (intro heap_agree_puts(3) heap_agree_refl heap_fields(3) tb(1))
  have u: "heap_wf ?u" "phys_ok ?u" "sv48 ?u = sv48 t" "frames_left ?u = frames_left t"
    using heap_region [OF t(2) okt, of "st64 (mem t) (this + 16) q"] ag by (simp_all add: heap_agree_def put64_def)
  have qu: "heap_block ?u q 6672" using tb(2) by simp
  note f = heap_fields [OF tb(1)]
  have ld: "ld64 (mem ?u) a = ld64 (mem s) a" if "heap_block s a 8" "disj (this + 16) 8 a 8" for a
  proof -
    have "ld64 (mem t) a = ld64 (mem s) a" using ld64_block_cong [OF that(1), of "mem t"] t(9) by simp
    then show ?thesis using that(2) by (simp add: ld64_st64_disj)
  qed
  note fs = heap_fields [OF th]
  have dj: "disj (this + 16) 8 this 8" "disj (this + 16) 8 (this + 8) 8" by (simp_all add: disj_def)
  have dt: "dev t = ?d2" using t(3) by (cases t, cases s) (simp add: heap_only_def)
  let ?tr = "init_trace features (pa ?u q) (pa ?u (avail_addr q)) (pa ?u (used_addr q)) (ld64 (mem s) (this + 8))"
  let ?d = "fold (perform V ?r) ?tr (dev s)"
  let ?s' = "?u\<lparr>dev := ?d\<rparr>"
  let ?d3 = "fold (perform V ?r) (butlast ?tr) (dev s)"
  have st: "vrd V (?r + reg_offset status) ?d3 = 11"
    using acc by (simp add: accepting_def init_trace_def del: reg_offset.simps)
  have run: "blk_init V this s = Some (0, ?s')"
    using n c t(1) publish_queue_eq [OF u(1) qu, of V ?r] ld [OF fs(2) dj(2)] st dt
    by (simp add: blk_init_def Let_def sizeof_VirtQueue_def wreg_def rreg_def init_trace_def put64_def del: reg_offset.simps)
  have paeq: "pa ?s' = pa ?u" by (simp add: pa_def vio_dev_cong fun_eq_iff)
  show ?thesis
  proof (rule that [OF run])
    have "ld64 (mem ?u) (this + 16) = q" by (simp add: ld64_st64)
    then show "driver_ok this q ?s'"
      using u tb by (simp add: driver_ok_def vio_dev_cong)
    have "load_bytes (mem ?u) q 6672 = load_bytes (mem t) q 6672"
    proof (rule load_bytes_cong)
      fix x assume x: "unat (x - q) < 6672"
      have "24 \<le> unat (x - this)" using tb(3) by (intro apart_out [OF tb(2,1) _ x]) (auto simp: apart_def)
      then have "8 \<le> unat (x - (this + 16))" by (intro sub_offset) simp
      then show "mem ?u x = mem t x" by (simp add: st64_out)
    qed simp
    then show "load_bytes (mem ?s') q 6672 = replicate 6672 0" using t(10) by simp
    show "dev ?s' = fold (perform V ?r) (init_trace features (pa ?s' q) (pa ?s' (avail_addr q)) (pa ?s' (used_addr q))
        (ld64 (mem s) (this + 8))) (dev s)" unfolding paeq by simp
    show "ld64 (mem ?s') this = ?r" using ld [OF fs(1) dj(1)] by simp
    show "heap_only s (?s'\<lparr>dev := dev s\<rparr>)"
      using t(3) by (cases s, cases t) (simp add: heap_only_def put64_def quiet_def)
    show "q = free_list s + 16" using t(4) by simp
    have "kalloc 6672 ?s2 \<noteq> None" using t(1) by (auto simp: new_zeroed_def operator_new_def split: bind_splits)
    then have "unat (free_list t) = unat (free_list ?s2) + 16 + unat (6672 :: u64)"
      using t(1) kalloc_facts [OF s2(1,3)] by (auto simp: new_zeroed_def operator_new_def)
    then show "unat (free_list ?s') = unat (free_list s) + 16 + 6672" by simp
    show "frames_left s \<le> frames_left ?s' + kalloc_cost 6672" using t(7) u(4) by (simp add: vio_dev_cong)
    show "linear_heap s \<longrightarrow> unat (free_list s) + 6704 \<le> heap_limit \<longrightarrow> linear_heap ?s'"
      using new_zeroed_linear(1) [OF _ _ t(1)] linear_region [of t "st64 (mem t) (this + 16) q"] ag
      by (simp add: vio_dev_cong heap_agree_def put64_def)
    show "\<forall>R. kernel_image R s \<longrightarrow> kernel_image R ?s'"
      using new_zeroed_image [OF s2(1,3) t(1)] image_region [OF t(2), of _ "st64 (mem t) (this + 16) q"] ag
      by (simp add: heap_agree_def put64_def)
  qed
qed

text \<open>An allocation keeps the driver ready.\<close>

lemma disk_ready_kalloc:
  assumes dr: "disk_ready V D live this q s" and room: "kalloc_cost sz \<le> frames_left s" and run: "kalloc sz s = Some (p, t)"
  shows "disk_ready V D live this q t"
proof -
  have d: "heap_wf s" "phys_ok s" "heap_block s this 24" "heap_block s q 6672" using dr by (simp_all add: disk_ready_def driver_ok_def)
  obtain p' t' where k: "kalloc sz s = Some (p', t')" "heap_wf t'" "heap_only s t'" "\<forall>a n. heap_block s a n \<longrightarrow> heap_block t' a n"
    "\<forall>x. unat VIRTUAL_HEAP_START \<le> unat x \<longrightarrow> unat x < unat (free_list s) \<longrightarrow> mem t' x = mem s x"
    by (rule kalloc_block [OF d(1) room])
  with run have t: "heap_wf t" "heap_only s t" "\<forall>a n. heap_block s a n \<longrightarrow> heap_block t a n"
    "\<forall>x. unat VIRTUAL_HEAP_START \<le> unat x \<longrightarrow> unat x < unat (free_list s) \<longrightarrow> mem t x = mem s x" by simp_all
  have "dev t = dev s" using t(2) by (cases s, cases t) (simp add: heap_only_def)
  moreover have "ld64 (mem t) a = ld64 (mem s) a" if "heap_block s a 8" for a
    using ld64_block_cong [OF that, of "mem t"] t(4) by simp
  ultimately show ?thesis
    using dr t(1,3) kalloc_phys [OF d(1) room d(2) run] heap_fields [OF d(3)] by (simp add: disk_ready_def driver_ok_def)
qed

section \<open>Properties\<close>



text \<open>
  C33: \<^verbatim>\<open>VirtIOBlockDevice::read\<close> of a range that reaches into one sector more than it fetches. The
  call still returns 0, but only the bytes up to the last fetched sector come from the disk: the first
  one beyond is, whatever the disk holds, the low byte of the size field of the allocator's next block.
\<close>

theorem blk_read_short:
  fixes s :: "('d, 'a) vio_scheme" and offset len :: u64
  assumes "disk_ready V D live this q s" and "unat offset + 2 ^ 20 < 2 ^ 41" and "unat len < 2 ^ 31"
    and "kalloc_cost (512 * (len div 512 + 1)) + kalloc_cost 536 \<le> frames_left s"
    and "\<forall>p t. kalloc (512 * (len div 512 + 1)) (log VIRTIO ''Reading %i bytes from offset 0x%x'' [VInt len, VInt offset] s)
      = Some (p, t) \<longrightarrow> (\<exists>f. contiguous t p (unat (512 * (len div 512 + 1))) f)"
    and "heap_block s buf (unat len)" and "apart buf (unat len) this 24"
    and short: "512 * (unat len div 512 + 1) < unat offset mod 512 + unat len"
  shows "\<exists>(s' :: ('d, 'a) vio_scheme) k. blk_read V this offset len buf s = Some (0, s') \<and>
    k < unat len \<and> unat offset mod 512 + k = 512 * (unat len div 512 + 1) \<and>
    load_bytes (mem s') buf k = map D [unat offset + 2 ^ 20 ..< unat offset + 2 ^ 20 + k] \<and>
    mem s' (buf + of_nat k) = 0x18"
proof -
  obtain s' :: "('d, 'a) vio_scheme" and bs where r: "blk_read V this offset len buf s = Some (0, s')"
    "length bs = unat len" "load_bytes (mem s') buf (unat len) = bs"
    "\<forall>i < unat len. unat offset mod 512 + i < 512 * (unat len div 512 + 1) \<longrightarrow> bs ! i = D (unat offset + 2 ^ 20 + i)"
    "\<forall>i < unat len. unat offset mod 512 + i = 512 * (unat len div 512 + 1) \<longrightarrow> bs ! i = 0x18"
    by (rule blk_read_result [OF assms(1-7)])
  define k where "k = 512 * (unat len div 512 + 1) - unat offset mod 512"
  have "unat offset mod 512 < 512" by simp
  then have k: "unat offset mod 512 + k = 512 * (unat len div 512 + 1)" by (simp add: k_def)
  with short have kl: "k < unat len" by linarith
  have byte: "mem s' (buf + of_nat i) = bs ! i" if "i < unat len" for i
    using that r(3) nth_load_bytes [OF that, of "mem s'" buf] by simp
  have "load_bytes (mem s') buf k = map D [unat offset + 2 ^ 20 ..< unat offset + 2 ^ 20 + k]"
    using byte r(4) k kl by (intro nth_equalityI) simp_all
  moreover have "mem s' (buf + of_nat k) = 0x18" using byte [OF kl] r(5) k kl by simp
  ultimately show ?thesis using r(1) k kl by blast
qed

section \<open>A concrete disk\<close>

text \<open>
  A block device in the first slot: its registers are those of a version 2 block device with a status
  register, and its disk holds \<open>D\<close>. The byte \<open>i\<close> of \<open>ram_disk\<close> is \<open>i mod 256\<close>.
\<close>

definition image_disk :: "(nat \<Rightarrow> u8) \<Rightarrow> u32 vio_ops" where
  "image_disk D = \<lparr>vrd = \<lambda>a d. if a = slot 0 + 0x70 then d else if a = slot 0 + 0x34 then 256
       else if a = slot 0 then 0x74726976 else if a = slot 0 + 4 \<or> a = slot 0 + 8 then 2 else 0,
     vwr = \<lambda>a v d. if a = slot 0 + 0x70 then v else d, vwr64 = \<lambda>_ _ d. d, vwr8 = \<lambda>_ _ d. d,
     vserve = \<lambda>rq d. Some (map D [512 * unat (rq_sector rq) ..< 512 * unat (rq_sector rq) + rq_len rq], 0, d)\<rparr>"

abbreviation ram_disk :: "u32 vio_ops" where
  "ram_disk \<equiv> image_disk of_nat"

definition disk_vio :: "u32 vio" where
  "disk_vio = vheap.extend sample_heap \<lparr>dev = 0, block_device = 0, console_device = 0\<rparr>"

lemma accepting_image_disk: "accepting (image_disk D) (slot 0) (\<lambda>d. d)"
proof -
  have "reg_offset r = 0x70 \<longleftrightarrow> r = status" for r by (cases r) simp_all
  then show ?thesis by (simp add: accepting_def image_disk_def VIRTIO_QUEUE_SIZE_def)
qed

lemma serves_image_disk: "serves (image_disk D) D (\<lambda>_. True) (slot 0)"
  by (simp add: serves_def image_disk_def)

lemma sample_driver:
  obtains s :: "u32 vio" and this where "heap_wf s" "phys_ok s" "heap_block s this 24" "ld64 (mem s) this = slot 0"
    "NFRAMES - 10 \<le> frames_left s" "unat (free_list s) = unat VIRTUAL_HEAP_START + 40"
proof -
  have b: "phys_layout disk_vio" "frames_zero disk_vio" "used disk_vio = {}"
    by (simp_all add: disk_vio_def vheap.defs sample_heap_def paging.defs sample_paging_def phys_layout_def phys_base_def
      VIRTUAL_OFFSET_def NFRAMES_def frames_zero_def used_def)
  obtain r s :: "u32 vio" where s: "paging_init disk_vio = Some r" "virtual_allocator_init r = Some s" "heap_wf s"
    "frames_left s \<ge> NFRAMES - 6" "free_list s = VIRTUAL_HEAP_START"
    by (rule boot_heap [OF b])
  have ok: "phys_ok s" by (rule boot_phys [OF b s(1,2)])
  have c: "kalloc_cost 24 = 4" by (simp add: kalloc_cost_def)
  then have room: "kalloc_cost 24 \<le> frames_left s" using s(4) by (simp add: NFRAMES_def)
  obtain p t where k: "kalloc 24 s = Some (p, t)" "heap_wf t" "heap_block t p (unat (24 :: u64))"
    "frames_left s \<le> frames_left t + kalloc_cost 24" by (rule kalloc_block [OF s(3) room])
  have okt: "phys_ok t" by (rule kalloc_phys [OF s(3) room ok k(1)])
  have fl: "unat (free_list t) = unat VIRTUAL_HEAP_START + 40"
    using kalloc_facts [OF s(3) room] k(1) s(5) by auto
  have p: "heap_block t p 24" using k(3) by simp
  have "heap_agree t (st64 (mem t) p (slot 0))"
    by (intro heap_agree_puts(3) heap_agree_refl heap_fields(1) p)
  then have u: "heap_wf (put64 p (slot 0) t)" "phys_ok (put64 p (slot 0) t)" "frames_left (put64 p (slot 0) t) = frames_left t"
    using heap_region [OF k(2) okt, of "st64 (mem t) p (slot 0)"] by (simp_all add: heap_agree_def put64_def)
  have l: "ld64 (mem (put64 p (slot 0) t)) p = slot 0" by (simp add: put64_def) (rule ld64_st64)
  show ?thesis
    by (rule that [OF u(1,2) _ l]) (use p fl k(4) s(4) c u(3) in simp_all)
qed


text \<open>The same after initialisation, with a block of 600 bytes for the caller.\<close>

lemma sample_disk:
  obtains s :: "u32 vio" and this q buf where "disk_ready ram_disk of_nat (\<lambda>_. True) this q s" "heap_block s buf 600"
    "apart buf 600 this 24" "NFRAMES - 22 \<le> frames_left s" "unat (free_list s) = unat VIRTUAL_HEAP_START + 7344"
proof -
  obtain s :: "u32 vio" and this where s: "heap_wf s" "phys_ok s" "heap_block s this 24" "ld64 (mem s) this = slot 0"
    "NFRAMES - 10 \<le> frames_left s" "unat (free_list s) = unat VIRTUAL_HEAP_START + 40" by (rule sample_driver)
  have c: "kalloc_cost 6672 = 8" "kalloc_cost 600 = 4" by (simp_all add: kalloc_cost_def)
  have room: "kalloc_cost 6672 \<le> frames_left s" using s(5) c by (simp add: NFRAMES_def)
  have "accepting ram_disk (ld64 (mem s) this) (\<lambda>d. d)" unfolding s(4) by (rule accepting_image_disk)
  then obtain q features and t :: "u32 vio" where t: "driver_ok this q t" "ld64 (mem t) this = ld64 (mem s) this"
    "unat (free_list t) = unat (free_list s) + 16 + 6672" "frames_left s \<le> frames_left t + kalloc_cost 6672"
    by (rule blk_init_ok [OF s(1-3) room])
  have dt: "disk_ready ram_disk of_nat (\<lambda>_. True) this q t"
    using t(1,2) s(4) serves_image_disk by (simp add: disk_ready_def)
  have r6: "kalloc_cost 600 \<le> frames_left t" using t(4) c s(5) by (simp add: NFRAMES_def)
  have wt: "heap_wf t" "heap_block t this 24" using t(1) by (simp_all add: driver_ok_def)
  obtain buf u where u: "kalloc 600 t = Some (buf, u)" "unat buf = unat (free_list t) + 16" "heap_block u buf (unat (600 :: u64))"
    "frames_left t \<le> frames_left u + kalloc_cost 600" by (rule kalloc_block [OF wt(1) r6])
  have "unat (free_list u) = unat (free_list t) + 16 + unat (600 :: u64)" using kalloc_facts [OF wt(1) r6] u(1) by auto
  moreover have "apart buf 600 this 24" using u(2) wt(2) by (simp add: apart_def heap_block_def)
  ultimately show ?thesis
    using u(3,4) t(3,4) s(5,6) c by (intro that [OF disk_ready_kalloc [OF dt r6 u(1)]]) simp_all
qed

lemma sample_contiguous:
  fixes s :: "u32 vio"
  assumes "disk_ready V D live this q s" and "NFRAMES - 22 \<le> frames_left s"
    and "unat (free_list s) = unat VIRTUAL_HEAP_START + 7344"
  shows "\<forall>p t. kalloc (512 * (100 div 512 + 1)) (log VIRTIO ''Reading %i bytes from offset 0x%x'' [VInt 100, VInt offset] s)
      = Some (p, t) \<longrightarrow> (\<exists>f. contiguous t p (unat (512 * (100 div 512 + 1) :: u64)) f)"
proof (intro allI impI)
  let ?s = "log VIRTIO ''Reading %i bytes from offset 0x%x'' [VInt 100, VInt offset] s"
  fix p t assume k: "kalloc (512 * (100 div 512 + 1)) ?s = Some (p, t)"
  have n: "512 * (100 div 512 + 1) = (512 :: u64)" by simp
  have s: "heap_wf ?s" "phys_ok ?s" "frames_left ?s = frames_left s" "free_list ?s = free_list s"
    using assms(1) by (simp_all add: disk_ready_def driver_ok_def log_eq heap_wf_out frames_left_def state_simps)
  have room: "kalloc_cost 512 \<le> frames_left ?s" using assms(2) s(3) by (simp add: kalloc_cost_def NFRAMES_def)
  obtain p' t' where "kalloc 512 ?s = Some (p', t')" "unat p' = unat (free_list ?s) + 16"
    by (rule kalloc_block [OF s(1) room])
  then have "unat p = unat VIRTUAL_HEAP_START + 7360" using k s(4) assms(3) unfolding n by simp
  then have "unat p mod 4096 + unat (512 :: u64) \<le> 4096" by (simp add: VIRTUAL_HEAP_START_def)
  then show "\<exists>f. contiguous t p (unat (512 * (100 div 512 + 1) :: u64)) f"
    using kalloc_contiguous_page [OF s(1,2) room, of p t] k unfolding n by simp
qed


theorem blk_read_short_witness:
  "\<exists>(s :: u32 vio) this buf s'. blk_read ram_disk this 500 100 buf s = Some (0, s') \<and> mem s' (buf + 12) = 0x18"
proof -
  obtain s :: "u32 vio" and this q buf where s: "disk_ready ram_disk of_nat (\<lambda>_. True) this q s" "heap_block s buf 600"
    "apart buf 600 this 24" "NFRAMES - 22 \<le> frames_left s" "unat (free_list s) = unat VIRTUAL_HEAP_START + 7344"
    by (rule sample_disk)
  have h: "unat (500 :: u64) + 2 ^ 20 < 2 ^ 41" "unat (100 :: u64) < 2 ^ 31"
    "kalloc_cost (512 * (100 div 512 + 1)) + kalloc_cost 536 \<le> frames_left s"
    "heap_block s buf (unat (100 :: u64))" "apart buf (unat (100 :: u64)) this 24"
    "512 * (unat (100 :: u64) div 512 + 1) < unat (500 :: u64) mod 512 + unat (100 :: u64)"
    using s(2-4) by (simp_all add: kalloc_cost_def NFRAMES_def heap_block_def, auto simp: apart_def)
  obtain s' :: "u32 vio" and k where s': "blk_read ram_disk this 500 100 buf s = Some (0, s')"
    "unat (500 :: u64) mod 512 + k = 512 * (unat (100 :: u64) div 512 + 1)" "mem s' (buf + of_nat k) = 0x18"
    using blk_read_short [OF s(1) h(1-3) sample_contiguous [OF s(1,4,5)] h(4-6)] by (elim exE conjE)
  from s'(2) have "k = 12" by simp
  with s'(1,3) show ?thesis by auto
qed

end
