(* ===== verification/Disk_Image.thy ===== *)
theory Disk_Image
  imports Blk_Transfer
begin

text \<open>
  The interface between the block driver and the file system. A client sees a partition as a memory
  of its own: a read copies bytes of that image into a buffer of the client, changes nothing else of
  the client's memory and uses a known amount of heap. \<open>block_reader\<close> is this contract;
  \<^verbatim>\<open>VirtIOBlockDevice::read\<close> implements it while the heap is linear, for the requests a
  client may make without running into its short last sector.
\<close>

section \<open>Copied structures\<close>

definition same_bytes :: "mem \<Rightarrow> u64 \<Rightarrow> mem \<Rightarrow> u64 \<Rightarrow> nat \<Rightarrow> bool" where
  "same_bytes m a m' b n \<longleftrightarrow> (\<forall>k. unat k < n \<longrightarrow> m (a + k) = m' (b + k))"

lemma same_bytes_refl [simp]: "same_bytes m a m a n"
  by (simp add: same_bytes_def)

lemma same_bytes_trans: "same_bytes m a m' b n \<Longrightarrow> same_bytes m' b m'' c n \<Longrightarrow> same_bytes m a m'' c n"
  by (simp add: same_bytes_def)

lemma same_bytes_mono: "same_bytes m a m' b n \<Longrightarrow> k \<le> n \<Longrightarrow> same_bytes m a m' b k"
  by (simp add: same_bytes_def)

lemma same_bytes_sub:
  assumes "same_bytes m a m' b n" and "unat j + k \<le> n"
  shows "same_bytes m (a + j) m' (b + j) k"
  unfolding same_bytes_def
proof (intro allI impI)
  fix i :: u64 assume i: "unat i < k"
  have "unat (j + i) \<le> unat j + unat i" by (metis unat_plus_if' le_refl diff_le_self)
  then have "m (a + (j + i)) = m' (b + (j + i))" using assms i by (simp add: same_bytes_def)
  then show "m (a + j + i) = m' (b + j + i)" by (simp add: add.assoc)
qed

lemma same_load_bytes:
  assumes "same_bytes m a m' b n" and "k \<le> n" and "k \<le> 2 ^ 64"
  shows "load_bytes m a k = load_bytes m' b k"
proof (rule nth_equalityI)
  fix i assume "i < length (load_bytes m a k)"
  then have i: "i < k" by simp
  then have "unat (of_nat i :: u64) = i" using assms(3) by (intro unat_of_nat_small) auto
  with i assms(1,2) show "load_bytes m a k ! i = load_bytes m' b k ! i" by (simp add: same_bytes_def)
qed simp

lemma same_bytesI:
  assumes "load_bytes m a n = load_bytes m' b n"
  shows "same_bytes m a m' b n"
  unfolding same_bytes_def
proof (intro allI impI)
  fix k :: u64 assume k: "unat k < n"
  then have "load_bytes m a n ! unat k = load_bytes m' b n ! unat k" using assms by simp
  with k show "m (a + k) = m' (b + k)" by simp
qed

text \<open>The members of two copies of a structure.\<close>

lemma same_fields:
  assumes "same_bytes m a m' b n"
  shows "unat j < n \<Longrightarrow> m (a + j) = m' (b + j)" "unat j + 2 \<le> n \<Longrightarrow> ld16 m (a + j) = ld16 m' (b + j)"
    "unat j + 4 \<le> n \<Longrightarrow> ld32 m (a + j) = ld32 m' (b + j)" "unat j + 8 \<le> n \<Longrightarrow> ld64 m (a + j) = ld64 m' (b + j)"
    "unat j + k \<le> n \<Longrightarrow> k \<le> 2 ^ 64 \<Longrightarrow> load_bytes m (a + j) k = load_bytes m' (b + j) k"
proof -
  show "m (a + j) = m' (b + j)" if "unat j < n" using assms that by (simp add: same_bytes_def)
  show "unat j + 2 \<le> n \<Longrightarrow> ld16 m (a + j) = ld16 m' (b + j)" "unat j + 4 \<le> n \<Longrightarrow> ld32 m (a + j) = ld32 m' (b + j)"
    "unat j + 8 \<le> n \<Longrightarrow> ld64 m (a + j) = ld64 m' (b + j)"
    using same_load_bytes [OF same_bytes_sub [OF assms, of j 2], of 2] same_load_bytes [OF same_bytes_sub [OF assms, of j 4], of 4]
      same_load_bytes [OF same_bytes_sub [OF assms, of j 8], of 8]
    by (simp_all add: ld16_def ld32_def ld64_def)
  show "load_bytes m (a + j) k = load_bytes m' (b + j) k" if "unat j + k \<le> n" "k \<le> 2 ^ 64"
    by (rule same_load_bytes [OF same_bytes_sub [OF assms that(1)] order_refl that(2)])
qed

lemmas same_fields_0 = same_fields [where j = 0, simplified]

text \<open>Memory that is kept between two bounds.\<close>

definition kept :: "nat \<Rightarrow> nat \<Rightarrow> mem \<Rightarrow> mem \<Rightarrow> bool" where
  "kept lo hi m m' \<longleftrightarrow> (\<forall>x. lo \<le> unat x \<and> unat x < hi \<longrightarrow> m' x = m x)"

lemma kept_same:
  assumes "kept lo hi m m'" and "lo \<le> unat a" and "unat a + n \<le> hi" and "hi \<le> 2 ^ 64"
  shows "same_bytes m' a m a n"
  unfolding same_bytes_def
proof (intro allI impI)
  fix k :: u64 assume k: "unat k < n"
  then have "unat (a + k) = unat a + unat k" using assms(3,4) by (simp add: unat_word_ariths)
  with k assms show "m' (a + k) = m (a + k)" by (simp add: kept_def)
qed

lemma kept_refl [simp]: "kept lo hi m m"
  by (simp add: kept_def)

lemma kept_trans: "kept lo hi m m' \<Longrightarrow> kept lo hi' m' m'' \<Longrightarrow> hi \<le> hi' \<Longrightarrow> kept lo hi m m''"
  by (auto simp: kept_def)

lemma kept_mono: "kept lo hi m m' \<Longrightarrow> lo \<le> lo' \<Longrightarrow> hi' \<le> hi \<Longrightarrow> kept lo' hi' m m'"
  by (auto simp: kept_def)

section \<open>The contract\<close>

definition read_cost :: "u64 \<Rightarrow> nat" where
  "read_cost len = 512 * (unat len div 512 + 1) + 568"

definition readable :: "u64 \<Rightarrow> u64 \<Rightarrow> bool" where
  "readable offset len \<longleftrightarrow> unat offset + 2 ^ 20 < 2 ^ 41 \<and> unat len < 2 ^ 31 \<and>
     unat offset mod 512 + unat len \<le> 512 * (unat len div 512 + 1)"

locale block_reader =
  fixes read :: "u64 \<Rightarrow> u64 \<Rightarrow> u64 \<Rightarrow> 's \<Rightarrow> (int \<times> 's) option"
    and bytes :: "'s \<Rightarrow> mem" and ready :: "'s \<Rightarrow> bool" and top :: "'s \<Rightarrow> nat" and lo :: nat and limit :: nat
    and image :: mem
  assumes read_image: "\<lbrakk>ready s; lo \<le> unat buf; unat buf + unat len \<le> top s; readable offset len; top s + read_cost len \<le> limit\<rbrakk> \<Longrightarrow>
      \<exists>s'. read offset len buf s = Some (0, s') \<and> ready s' \<and> top s' = top s + read_cost len \<and>
        same_bytes (bytes s') buf image offset (unat len) \<and>
        (\<forall>x. lo \<le> unat x \<and> unat x < top s \<and> unat len \<le> unat (x - buf) \<longrightarrow> bytes s' x = bytes s x)"
    and top_bound: "ready s \<Longrightarrow> top s < 2 ^ 64"
begin

lemma read_split:
  assumes "ready s" and "lo \<le> unat buf" and "unat buf + unat len \<le> top s" and "readable offset len"
    and "top s + read_cost len \<le> limit"
  obtains s' where "read offset len buf s = Some (0, s')" "ready s'" "top s' = top s + read_cost len"
    "same_bytes (bytes s') buf image offset (unat len)" "kept lo (unat buf) (bytes s) (bytes s')"
    "kept (unat buf + unat len) (top s) (bytes s) (bytes s')"
proof -
  obtain s' where r: "read offset len buf s = Some (0, s')" "ready s'" "top s' = top s + read_cost len"
    "same_bytes (bytes s') buf image offset (unat len)"
    "\<And>x. lo \<le> unat x \<Longrightarrow> unat x < top s \<Longrightarrow> unat len \<le> unat (x - buf) \<Longrightarrow> bytes s' x = bytes s x"
    using read_image [OF assms] by blast
  have out: "unat len \<le> unat (x - buf)" if "unat x < unat buf \<or> unat buf + unat len \<le> unat x" for x
  proof (rule ccontr)
    assume n: "\<not> unat len \<le> unat (x - buf)"
    then have "unat x = unat buf + unat (x - buf)"
      using assms(3) top_bound [OF assms(1)] by (intro unat_in_range [of _ _ "unat len"]) simp_all
    with n that show False by linarith
  qed
  have "kept lo (unat buf) (bytes s) (bytes s')" "kept (unat buf + unat len) (top s) (bytes s) (bytes s')"
    unfolding kept_def using r(5) out assms(2,3) by auto
  with r show ?thesis using that by blast
qed

text \<open>Several reads into buffers one above the other: the first are not disturbed by the later.\<close>

primrec reads :: "(u64 \<times> u64 \<times> u64) list \<Rightarrow> 's \<Rightarrow> 's option" where
  "reads [] s = Some s"
| "reads (r # rs) s = (case r of (offset, len, buf) \<Rightarrow> Option.bind (read offset len buf s) (\<lambda>(_, s). reads rs s))"

lemma reads_image:
  assumes "ready s" and "top s + (\<Sum>(_, len, _) \<leftarrow> rs. read_cost len) \<le> limit"
    and "\<forall>(offset, len, buf) \<in> set rs. lo \<le> unat buf \<and> unat buf + unat len \<le> top s \<and> readable offset len"
    and "sorted_wrt (\<lambda>(_, len, buf) (_, _, buf'). unat buf + unat len \<le> unat buf') rs"
  obtains s' where "reads rs s = Some s'" "ready s'" "top s' = top s + (\<Sum>(_, len, _) \<leftarrow> rs. read_cost len)"
    "\<forall>(offset, len, buf) \<in> set rs. same_bytes (bytes s') buf image offset (unat len)"
    "\<forall>x. lo \<le> unat x \<and> unat x < top s \<and> (\<forall>(_, len, buf) \<in> set rs. unat len \<le> unat (x - buf)) \<longrightarrow> bytes s' x = bytes s x"
proof -
  have "\<exists>s'. reads rs s = Some s' \<and> ready s' \<and> top s' = top s + (\<Sum>(_, len, _) \<leftarrow> rs. read_cost len) \<and>
    (\<forall>(offset, len, buf) \<in> set rs. same_bytes (bytes s') buf image offset (unat len)) \<and>
    (\<forall>x. lo \<le> unat x \<and> unat x < top s \<and> (\<forall>(_, len, buf) \<in> set rs. unat len \<le> unat (x - buf)) \<longrightarrow> bytes s' x = bytes s x)"
    using assms
  proof (induction rs arbitrary: s)
    case (Cons r rs)
    obtain offset len buf where r: "r = (offset, len, buf)" by (cases r)
    then have pre: "lo \<le> unat buf" "unat buf + unat len \<le> top s" "readable offset len" "top s + read_cost len \<le> limit"
      using Cons.prems(2,3) by auto
    obtain t where t: "read offset len buf s = Some (0, t)" "ready t" "top t = top s + read_cost len"
      "same_bytes (bytes t) buf image offset (unat len)"
      "\<forall>x. lo \<le> unat x \<and> unat x < top s \<and> unat len \<le> unat (x - buf) \<longrightarrow> bytes t x = bytes s x"
      using read_image [OF Cons.prems(1) pre] by blast
    have "top t + (\<Sum>(_, len, _) \<leftarrow> rs. read_cost len) \<le> limit" using Cons.prems(2) t(3) by (simp add: r)
    moreover have "\<forall>(offset, len, buf) \<in> set rs. lo \<le> unat buf \<and> unat buf + unat len \<le> top t \<and> readable offset len"
      using Cons.prems(3) t(3) by (fastforce simp: r)
    moreover have "sorted_wrt (\<lambda>(_, len, buf) (_, _, buf'). unat buf + unat len \<le> unat buf') rs" using Cons.prems(4) by simp
    ultimately obtain s' where s': "reads rs t = Some s'" "ready s'" "top s' = top t + (\<Sum>(_, len, _) \<leftarrow> rs. read_cost len)"
      "\<forall>(offset, len, buf) \<in> set rs. same_bytes (bytes s') buf image offset (unat len)"
      "\<forall>x. lo \<le> unat x \<and> unat x < top t \<and> (\<forall>(_, len, buf) \<in> set rs. unat len \<le> unat (x - buf)) \<longrightarrow> bytes s' x = bytes t x"
      using Cons.IH [OF t(2)] by blast
    have "bytes s' (buf + k) = bytes t (buf + k)" if k: "unat k < unat len" for k
    proof -
      have u: "unat (buf + k) = unat buf + unat k"
        using k pre(2) top_bound [OF Cons.prems(1)] by (simp add: unat_word_ariths)
      have "unat len' \<le> unat (buf + k - buf')" if b: "(o', len', buf') \<in> set rs" for o' len' buf'
      proof (rule ccontr)
        assume n: "\<not> unat len' \<le> unat (buf + k - buf')"
        have "unat buf + unat len \<le> unat buf'" "unat buf' + unat len' \<le> top s"
          using Cons.prems(3,4) b by (auto simp: r)
        moreover from this n have "unat (buf + k) = unat buf' + unat (buf + k - buf')"
          using top_bound [OF Cons.prems(1)] by (intro unat_in_range [of _ _ "unat len'"]) simp_all
        ultimately show False using u k by linarith
      qed
      then show ?thesis using s'(5) u k pre(1,2) t(3) by (intro s'(5) [rule_format]) auto
    qed
    then have "same_bytes (bytes s') buf image offset (unat len)" using t(4) by (simp add: same_bytes_def)
    then show ?case using s' t by (intro exI [of _ s']) (auto simp: r)
  qed simp
  then show ?thesis using that by blast
qed

end

section \<open>The driver as a reader\<close>

definition partition :: "(nat \<Rightarrow> u8) \<Rightarrow> mem" where
  "partition D a = D (unat a + 2 ^ 20)"

definition disk_client :: "image \<Rightarrow> 'd vio_ops \<Rightarrow> (nat \<Rightarrow> u8) \<Rightarrow> ('d \<Rightarrow> bool) \<Rightarrow> u64 \<Rightarrow> u64 \<Rightarrow> ('d, 'a) vio_scheme \<Rightarrow> bool" where
  "disk_client R V D live this q s \<longleftrightarrow> disk_ready V D live this q s \<and> linear_heap s \<and> unat this + 24 \<le> unat q \<and>
     unat VIRTUAL_HEAP_START + 4096 \<le> unat (free_list s) \<and> kernel_image R s"

lemma load_partition:
  assumes "unat offset + n < 2 ^ 64"
  shows "load_bytes (partition D) offset n = map D [unat offset + 2 ^ 20 ..< unat offset + 2 ^ 20 + n]"
proof (rule nth_equalityI)
  fix i assume "i < length (load_bytes (partition D) offset n)"
  then have i: "i < n" by simp
  then have "unat (offset + of_nat i) = unat offset + i" using assms by (simp add: unat_word_ariths unat_of_nat)
  with i show "load_bytes (partition D) offset n ! i = map D [unat offset + 2 ^ 20 ..< unat offset + 2 ^ 20 + n] ! i"
    by (simp add: partition_def ac_simps)
qed simp

lemma disk_read:
  fixes s :: "('d, 'a) vio_scheme"
  assumes c: "disk_client R V D live this q s" and buf: "unat q + 6672 \<le> unat buf" "unat buf + unat len \<le> unat (free_list s)"
    and r: "readable offset len" and room: "unat (free_list s) + read_cost len + 16 \<le> heap_limit"
  obtains s' where "blk_read V this offset len buf s = Some (0, s')" "disk_client R V D live this q s'"
    "unat (free_list s') = unat (free_list s) + read_cost len"
    "same_bytes (mem s') buf (partition D) offset (unat len)"
    "\<forall>x. unat q + 6672 \<le> unat x \<and> unat x < unat (free_list s) \<and> unat len \<le> unat (x - buf) \<longrightarrow> mem s' x = mem s x"
    "vio_only s s'" "ld64 (mem s') (free_list s) = 512 * (len div 512 + 1)"
proof -
  have d: "disk_ready V D live this q s" "linear_heap s" "unat this + 24 \<le> unat q"
    "unat VIRTUAL_HEAP_START + 4096 \<le> unat (free_list s)" using c by (simp_all add: disk_client_def)
  have q: "heap_block s q 6672" using d(1) by (simp add: disk_ready_def driver_ok_def)
  have b: "unat offset + 2 ^ 20 < 2 ^ 41" "unat len < 2 ^ 31" "unat offset mod 512 + unat len \<le> 512 * (unat len div 512 + 1)"
    using r by (simp_all add: readable_def)
  have hb: "heap_block s buf (unat len)" "apart buf (unat len) this 24" "unat (free_list s) + 512 * (unat len div 512 + 1) + 584 \<le> heap_limit"
    using buf d(3) q room by (simp_all add: heap_block_def apart_def read_cost_def)
  obtain s' where s': "blk_read V this offset len buf s = Some (0, s')" "disk_ready V D live this q s'"
    "load_bytes (mem s') buf (unat len) = map D [unat offset + 2 ^ 20 ..< unat offset + 2 ^ 20 + unat len]"
    "\<forall>x. in_heap s x \<longrightarrow> unat len \<le> unat (x - buf) \<longrightarrow> 6672 \<le> unat (x - q) \<longrightarrow> mem s' x = mem s x"
    "\<forall>a k. heap_block s a k \<longrightarrow> heap_block s' a k" "vio_only s s'" "linear_heap s'"
    "unat (free_list s') = unat (free_list s) + 512 * (unat len div 512 + 1) + 568"
    "ld64 (mem s') (free_list s) = 512 * (len div 512 + 1)" "\<forall>R. kernel_image R s \<longrightarrow> kernel_image R s'"
    by (rule blk_read_linear [OF d(1,2) b(1,2) d(4) hb(3,1,2) b(3)])
  have "6672 \<le> unat (x - q)" if "unat q + 6672 \<le> unat x" for x
  proof -
    have "q \<le> x" using that by (simp add: word_le_nat_alt)
    then show ?thesis using that by (simp add: unat_sub)
  qed
  then have k: "mem s' x = mem s x" if "unat q + 6672 \<le> unat x \<and> unat x < unat (free_list s) \<and> unat len \<le> unat (x - buf)" for x
    using that s'(4) q by (simp add: in_heap_def heap_block_def)
  have "unat offset + unat len < 2 ^ 64" using b(1,2) by simp
  then have "same_bytes (mem s') buf (partition D) offset (unat len)" using s'(3) by (intro same_bytesI) (simp add: load_partition)
  moreover have "disk_client R V D live this q s'" using s'(2,7,8) s'(10) [rule_format, of R] d c by (simp add: disk_client_def)
  ultimately show ?thesis using that [OF s'(1)] s'(6,8,9) k by (simp add: read_cost_def)
qed

interpretation disk: block_reader "blk_read V this" mem "disk_client R V D live this q" "\<lambda>s. unat (free_list s)" "unat q + 6672" "heap_limit - 16" "partition D"
  for R V D live this q
proof (unfold_locales, goal_cases)
  case (1 s buf len offset)
  have "unat (free_list s) + read_cost len + 16 \<le> heap_limit" using 1(5) by (simp add: heap_limit_def)
  from disk_read [OF 1(1-4) this] show ?case by blast
next
  case (2 s)
  show ?case using unat_bound [of "free_list s"] by simp
qed

section \<open>What clients of the disk may do\<close>

lemma client_base:
  assumes "disk_client R V D live this q s"
  shows "heap_wf s" "linear_heap s" "unat VIRTUAL_HEAP_START \<le> unat q" "unat q + 6672 \<le> unat (free_list s)"
    "unat (free_list s) \<le> 2 ^ 64"
  using assms unat_bound [of "free_list s"]
  by (simp_all add: disk_client_def disk_ready_def driver_ok_def heap_block_def linear_heap_def)

lemma client_out [simp]: "disk_client R V D live this q (s\<lparr>out := tx\<rparr>) = disk_client R V D live this q s"
  by (simp add: disk_client_def disk_ready_def)

text \<open>States that agree in the fields of the memory managers.\<close>

lemma linear_fields:
  fixes s s' :: "'a vheap_scheme"
  assumes "mem s' = mem s" "first_level_table s' = first_level_table s" "managed_frames_address_start s' = managed_frames_address_start s"
    "first_frame_address s' = first_frame_address s" "free_list s' = free_list s" "virtual_alloc_end s' = virtual_alloc_end s"
  shows "linear_heap s \<Longrightarrow> linear_heap s'" "kernel_image R s \<Longrightarrow> kernel_image R s'"
proof -
  have w: "heap_wf s' = heap_wf s" "sv48 s' = sv48 s" "used s' = used s" "phys_ok s \<Longrightarrow> phys_ok s'"
    by (rule heap_wf_cong(1,2) [OF assms] pt_wf_cong(3) [OF assms(1-4)] phys_ok_fields [OF assms(1-4)]; assumption)+
  have f: "frame_addr s' = frame_addr s" using assms(4) by (simp add: frame_addr_def fun_eq_iff)
  show "linear_heap s'" if l: "linear_heap s"
  proof -
    have "heap_wf s" "phys_ok s" using l by (simp_all add: linear_heap_def)
    then have "heap_wf s'" "phys_ok s'" using w(1,4) by blast+
    then show ?thesis by (rule linear_heap_cong [OF l _ _ w(3,2) f assms(6)])
  qed
  show "kernel_image R s \<Longrightarrow> kernel_image R s'" using assms(1,3) by (simp add: kernel_image_def in_image_def)
qed

lemma client_cong:
  fixes s s' :: "('d, 'a) vio_scheme"
  assumes "mem s' = mem s" "first_level_table s' = first_level_table s" "managed_frames_address_start s' = managed_frames_address_start s"
    "first_frame_address s' = first_frame_address s" "free_list s' = free_list s" "virtual_alloc_end s' = virtual_alloc_end s" "dev s' = dev s"
    and c: "disk_client R V D live this q s"
  shows "disk_client R V D live this q s'"
proof -
  have "heap_wf s' = heap_wf s" "phys_ok s \<Longrightarrow> phys_ok s'"
    by (rule heap_wf_cong(1) [OF assms(1-6)] phys_ok_fields [OF assms(1-4)]; assumption)+
  then show ?thesis
    using c assms(1,5,7) linear_fields [OF assms(1-6)] by (simp add: disk_client_def disk_ready_def driver_ok_def heap_block_def)
qed

lemma client_kalloc:
  fixes s :: "('d, 'a) vio_scheme"
  assumes c: "disk_client R V D live this q s" and room: "unat (free_list s) + unat sz + 32 \<le> heap_limit"
  obtains p s' where "kalloc sz s = Some (p, s')" "disk_client R V D live this q s'"
    "unat p = unat (free_list s) + 16" "unat (free_list s') = unat (free_list s) + 16 + unat sz" "free_list s' = p + sz"
    "kept (unat q + 6672) (unat (free_list s)) (mem s) (mem s')" "heap_only s s'"
proof -
  note b = client_base [OF c]
  note rm = linear_room(1) [OF b(2) room]
  obtain p s' where k: "kalloc sz s = Some (p, s')" "heap_wf s'" "heap_only s s'" "p = free_list s + 16"
    "unat p = unat (free_list s) + 16"
    "\<forall>x. unat VIRTUAL_HEAP_START \<le> unat x \<longrightarrow> unat x < unat (free_list s) \<longrightarrow> mem s' x = mem s x"
    by (rule kalloc_block [OF b(1) rm])
  note l = kalloc_linear [OF b(2) room k(1)]
  have "disk_client R V D live this q s'"
    using c l disk_ready_kalloc [OF _ rm k(1)] image_kalloc [OF b(1) rm k(1)] by (simp add: disk_client_def)
  moreover have "kept (unat q + 6672) (unat (free_list s)) (mem s) (mem s')" using k(6) b(3) by (simp add: kept_def)
  moreover have "free_list s' = p + sz" using l(2) k(4) by simp
  ultimately show ?thesis using that [OF k(1) _ k(5) l(3)] k(3) by blast
qed

lemma client_store:
  assumes c: "disk_client R V D live this q s" and a: "unat q + 6672 \<le> unat a" "unat a + length bs \<le> unat (free_list s)"
  shows "disk_client R V D live this q (s\<lparr>mem := store_bytes (mem s) a bs\<rparr>)"
    "kept (unat q + 6672) (unat a) (mem s) (store_bytes (mem s) a bs)"
    "kept (unat a + length bs) (2 ^ 64) (mem s) (store_bytes (mem s) a bs)"
proof -
  let ?s = "s\<lparr>mem := store_bytes (mem s) a bs\<rparr>"
  note b = client_base [OF c]
  have hb: "heap_block s a (length bs)" "apart a (length bs) this 24" using a b c by (simp_all add: heap_block_def apart_def disk_client_def)
  have "heap_agree s (store_bytes (mem s) a bs)" by (rule heap_agree_store [OF heap_agree_refl hb(1)])
  then have "linear_heap ?s" "kernel_image R ?s"
    using linear_region [OF b(2)] image_region [OF b(1)] c by (simp_all add: heap_agree_def disk_client_def)
  moreover have "disk_ready V D live this q ?s"
    using c by (intro disk_ready_store [OF _ hb]) (simp add: disk_client_def)
  ultimately show "disk_client R V D live this q ?s" using c by (simp add: disk_client_def)
  have out: "store_bytes (mem s) a bs x = mem s x" if "unat x < unat a \<or> unat a + length bs \<le> unat x" for x
  proof (rule store_bytes_out, rule ccontr)
    assume n: "\<not> length bs \<le> unat (x - a)"
    then have "unat x = unat a + unat (x - a)"
      using a(2) b(5) by (intro unat_in_range [of _ _ "length bs"]) simp_all
    with n that show False by simp
  qed
  then show "kept (unat q + 6672) (unat a) (mem s) (store_bytes (mem s) a bs)"
    "kept (unat a + length bs) (2 ^ 64) (mem s) (store_bytes (mem s) a bs)" by (simp_all add: kept_def)
qed

lemma client_new:
  fixes s :: "('d, 'a) vio_scheme"
  assumes c: "disk_client R V D live this q s" and room: "unat (free_list s) + unat sz + 32 \<le> heap_limit"
  obtains p s' where "new_zeroed sz s = Some (p, s')" "disk_client R V D live this q s'"
    "unat p = unat (free_list s) + 16" "unat (free_list s') = unat (free_list s) + 16 + unat sz"
    "kept (unat q + 6672) (unat (free_list s)) (mem s) (mem s')" "heap_only s s'"
proof -
  obtain p t where t: "kalloc sz s = Some (p, t)" "disk_client R V D live this q t"
    "unat p = unat (free_list s) + 16" "unat (free_list t) = unat (free_list s) + 16 + unat sz"
    "kept (unat q + 6672) (unat (free_list s)) (mem s) (mem t)" "heap_only s t"
    by (rule client_kalloc [OF c room])
  let ?t = "t\<lparr>mem := store_bytes (mem t) p (replicate (unat sz) 0)\<rparr>"
  have "unat q + 6672 \<le> unat p" "unat p + length (replicate (unat sz) (0 :: u8)) \<le> unat (free_list t)"
    using t(3,4) client_base(4) [OF c] by simp_all
  note st = client_store [OF t(2) this]
  have run: "new_zeroed sz s = Some (p, ?t)" using t(1) by (simp add: new_zeroed_def operator_new_def)
  have "kept (unat q + 6672) (unat (free_list s)) (mem s) (mem ?t)" using t(3) by (simp add: kept_trans [OF t(5) st(2)])
  moreover have "heap_only s ?t"
    by (rule heap_only_trans [OF t(6) memory_only_heap_only [OF memory_only_mem]])
  ultimately show ?thesis using that [OF run st(1)] t(3,4) by simp
qed

end
