(* ===== verification/Ext2.thy ===== *)
theory Ext2
  imports Disk_Image
begin

text \<open>
  The file system driver, \<^verbatim>\<open>kernel/drivers/ext2.cpp\<close> and \<^verbatim>\<open>ext2.h\<close>.

  The on-disk structures are read into kernel memory by the block device and their members are
  loads at the offsets of the C++ classes. Members are 32-bit and the products of a block size
  and a block number are computed in 32 bits, as in the source. A \<open>None\<close> result is a run that
  does not return: a string without end, a device that does not answer, an allocator that finds
  no frame; or an operation C++ leaves undefined (a division by a zero read from the disk, a shift
  by 32 or more).
\<close>

section \<open>Layout\<close>

text \<open>\<^verbatim>\<open>class EXT2SuperBlock\<close>, \<^verbatim>\<open>EXT2BlockGroupDescriptor\<close>, \<^verbatim>\<open>EXT2Inode\<close>, directory entries.\<close>

definition s_blocks_count :: "mem \<Rightarrow> u64 \<Rightarrow> u32" where
  "s_blocks_count m sb = ld32 m (sb + 4)"

definition s_log_block_size :: "mem \<Rightarrow> u64 \<Rightarrow> u32" where
  "s_log_block_size m sb = ld32 m (sb + 24)"

definition s_blocks_per_group :: "mem \<Rightarrow> u64 \<Rightarrow> u32" where
  "s_blocks_per_group m sb = ld32 m (sb + 32)"

definition s_inodes_per_group :: "mem \<Rightarrow> u64 \<Rightarrow> u32" where
  "s_inodes_per_group m sb = ld32 m (sb + 40)"

definition s_inode_size :: "mem \<Rightarrow> u64 \<Rightarrow> u16" where
  "s_inode_size m sb = ld16 m (sb + 88)"

definition sizeof_EXT2SuperBlock :: u64 where
  "sizeof_EXT2SuperBlock = 92"

definition bg_inode_table :: "mem \<Rightarrow> u64 \<Rightarrow> u32" where
  "bg_inode_table m g = ld32 m (g + 8)"

definition sizeof_EXT2BlockGroupDescriptor :: u64 where
  "sizeof_EXT2BlockGroupDescriptor = 32"

definition i_mode :: "mem \<Rightarrow> u64 \<Rightarrow> u16" where
  "i_mode m i = ld16 m i"

definition i_size :: "mem \<Rightarrow> u64 \<Rightarrow> u32" where
  "i_size m i = ld32 m (i + 4)"

definition i_block0 :: "mem \<Rightarrow> u64 \<Rightarrow> u32" where
  "i_block0 m i = ld32 m (i + 40)"

definition sizeof_EXT2Inode :: u64 where
  "sizeof_EXT2Inode = 256"

definition entry_inode :: "mem \<Rightarrow> u64 \<Rightarrow> u32" where
  "entry_inode m e = ld32 m e"

definition rec_len :: "mem \<Rightarrow> u64 \<Rightarrow> u16" where
  "rec_len m e = ld16 m (e + 4)"

definition name_len :: "mem \<Rightarrow> u64 \<Rightarrow> u8" where
  "name_len m e = m (e + 6)"

definition entry_name :: "u64 \<Rightarrow> u64" where
  "entry_name e = e + 8"

text \<open>\<^verbatim>\<open>class EXT2\<close>: device, super block, block size, inodes per block, group descriptors.\<close>

definition fs_device :: "mem \<Rightarrow> u64 \<Rightarrow> u64" where
  "fs_device m this = ld64 m this"

definition fs_super_block :: "mem \<Rightarrow> u64 \<Rightarrow> u64" where
  "fs_super_block m this = ld64 m (this + 8)"

definition fs_block_size :: "mem \<Rightarrow> u64 \<Rightarrow> u32" where
  "fs_block_size m this = ld32 m (this + 16)"

definition fs_group_desc :: "mem \<Rightarrow> u64 \<Rightarrow> u64 \<Rightarrow> u64" where
  "fs_group_desc m this i = ld64 m (ld64 m (this + 24) + 8 * i)"

record 'd fsst = "'d vio" +
  ext2_instance :: u64

section \<open>Construction\<close>

partial_function (option) make_groups ::
  "u64 \<Rightarrow> u64 \<Rightarrow> u64 \<Rightarrow> ('d, 'a) fsst_scheme \<Rightarrow> ('d, 'a) fsst_scheme option" where
  "make_groups this i n s =
     (if i < n then do {
        (g, s) \<leftarrow> new_zeroed sizeof_EXT2BlockGroupDescriptor s;
        make_groups this (i + 1) n (put64 (ld64 (mem s) (this + 24) + 8 * i) g s)
      } else Some s)"

partial_function (option) read_groups ::
  "'d vio_ops \<Rightarrow> u64 \<Rightarrow> u64 \<Rightarrow> u64 \<Rightarrow> ('d, 'a) fsst_scheme \<Rightarrow> ('d, 'a) fsst_scheme option" where
  "read_groups V this i n s =
     (if i < n then do {
        (_, s) \<leftarrow> blk_read V (fs_device (mem s) this)
          (ucast (fs_block_size (mem s) this) + i * sizeof_EXT2BlockGroupDescriptor)
          sizeof_EXT2BlockGroupDescriptor (fs_group_desc (mem s) this i) s;
        read_groups V this (i + 1) n s
      } else Some s)"

definition EXT2_new :: "'d vio_ops \<Rightarrow> u64 \<Rightarrow> u64 \<Rightarrow> ('d, 'a) fsst_scheme \<Rightarrow> ('d, 'a) fsst_scheme option" where
  "EXT2_new V this device s = do {
     let s = put64 this device s;
     (sb, s) \<leftarrow> new_zeroed sizeof_EXT2SuperBlock s;
     let s = put64 (this + 8) sb s;
     (_, s) \<leftarrow> blk_read V device 1024 sizeof_EXT2SuperBlock sb s;
     let sb = fs_super_block (mem s) this;
     if s_blocks_per_group (mem s) sb = 0 \<or> s_inode_size (mem s) sb = 0 \<or> 32 \<le> s_log_block_size (mem s) sb
     then None else do {
     let amount_groups = s_blocks_count (mem s) sb div s_blocks_per_group (mem s) sb;
     (gd, s) \<leftarrow> operator_new_array 64 s;
     let s = put64 (this + 24) gd s;
     let s = put32 (this + 16) (push_bit (unat (s_log_block_size (mem s) sb)) 1024) s;
     s \<leftarrow> make_groups this 0 (scast amount_groups) s;
     s \<leftarrow> read_groups V this 0 (scast amount_groups) s;
     let s = put32 (this + 20) (fs_block_size (mem s) this div ucast (s_inode_size (mem s) (fs_super_block (mem s) this))) s;
     Some (s\<lparr>ext2_instance := this\<rparr>)
   }}"

section \<open>Looking a name up in a directory\<close>

primrec names_equal :: "u64 \<Rightarrow> u64 \<Rightarrow> nat \<Rightarrow> mem \<Rightarrow> bool" where
  "names_equal a b 0 m \<longleftrightarrow> True"
| "names_equal a b (Suc n) m \<longleftrightarrow> m a = m b \<and> names_equal (a + 1) (b + 1) n m"

definition matches :: "u64 \<Rightarrow> u64 \<Rightarrow> mem \<Rightarrow> bool option" where
  "matches e other_name m = do {
     other_len \<leftarrow> strlen_loop other_name 0 m;
     if other_len \<noteq> ucast (name_len m e) then Some False
     else Some (names_equal other_name (entry_name e) (unat other_len) m)
   }"

text \<open>The walk over the entries; the result is the entry it stops at and the counter.\<close>

partial_function (option) scan_dir :: "u64 \<Rightarrow> u64 \<Rightarrow> u64 \<Rightarrow> u64 \<Rightarrow> mem \<Rightarrow> (u64 \<times> u64) option" where
  "scan_dir data name current_offset counter m = do {
     b \<leftarrow> matches (data + current_offset) name m;
     if \<not> b \<and> counter < 10
     then scan_dir data name (current_offset + ucast (rec_len m (data + current_offset))) (counter + 1) m
     else Some (data + current_offset, counter)
   }"

definition print_entry_name :: "u64 \<Rightarrow> 'a kio_scheme \<Rightarrow> 'a kio_scheme" where
  "print_entry_name e s =
     printf [CHR 0x0A] []
       (fold (\<lambda>b. printf ''%c'' [VInt (ucast b)])
          (load_bytes (mem s) (entry_name e) (unat (name_len (mem s) e)))
          (printf ''Entry name: '' [] s))"

definition inode_offset :: "mem \<Rightarrow> u64 \<Rightarrow> u32 \<Rightarrow> u64" where
  "inode_offset m this inode =
     (let ipg = s_inodes_per_group m (fs_super_block m this);
          desc_index = (inode - 1) div ipg;
          index = (inode - 1) mod ipg
      in ucast (fs_block_size m this * (bg_inode_table m (fs_group_desc m this (ucast desc_index)) + 0)) +
         sizeof_EXT2Inode * ucast index)"

definition get_inode_in_dir ::
  "'d vio_ops \<Rightarrow> u64 \<Rightarrow> u64 \<Rightarrow> u64 \<Rightarrow> ('d, 'a) fsst_scheme \<Rightarrow> (int \<times> ('d, 'a) fsst_scheme) option" where
  "get_inode_in_dir V this dir name s =
     (let s = log FS ''Getting inode of dir %s'' [VStr (cstr (mem s) name)] s in
      if i_mode (mem s) dir AND 0x4000 = 0x0 then
        Some (- 1, log ERROR ''get_inode_in_dir can only be called on directories, you called it on %s''
                     [VStr (cstr (mem s) name)] s)
      else do {
        (data, s) \<leftarrow> kalloc (ucast (fs_block_size (mem s) this)) s;
        (_, s) \<leftarrow> blk_read V (fs_device (mem s) this)
          (ucast (fs_block_size (mem s) this * i_block0 (mem s) dir))
          (ucast (fs_block_size (mem s) this)) data s;
        (e, counter) \<leftarrow> scan_dir data name 0 0 (mem s);
        if s_inodes_per_group (mem s) (fs_super_block (mem s) this) = 0 \<and> counter \<noteq> 10 then None
        else if counter = 10 then
          Some (- 1, log ERROR ''Could not find the file %s.'' [VStr (cstr (mem s) name)] s)
        else do {
          (_, s) \<leftarrow> blk_read V (fs_device (mem s) this)
            (inode_offset (mem s) this (entry_inode (mem s) e)) sizeof_EXT2Inode dir s;
          Some (0, s)
        }
      })"

section \<open>Following a path\<close>

datatype walk = Failed int | Ends_in_folder | File_left u64 u64

text \<open>A name cut out of the path into a fresh block, with its terminator.\<close>

definition copy_name :: "u64 \<Rightarrow> u64 \<Rightarrow> ('d, 'a) fsst_scheme \<Rightarrow> (u64 \<times> ('d, 'a) fsst_scheme) option" where
  "copy_name src len s = do {
     (name, s) \<leftarrow> kalloc (len + 1) s;
     let s = s\<lparr>mem := memcpy_loop name src len 0 (mem s)\<rparr>;
     Some (name, put8 (name + len) 0 s)
   }"

text \<open>
  The loop over the path; \<open>look\<close> is the call of \<^verbatim>\<open>get_inode_in_dir\<close> for the name at an
  address. After a separator the next character is counted without being looked at.
\<close>

partial_function (option) path_loop ::
  "(u64 \<Rightarrow> ('d, 'a) fsst_scheme \<Rightarrow> (int \<times> ('d, 'a) fsst_scheme) option) \<Rightarrow>
   u64 \<Rightarrow> u64 \<Rightarrow> u64 \<Rightarrow> u64 \<Rightarrow> ('d, 'a) fsst_scheme \<Rightarrow> (walk \<times> ('d, 'a) fsst_scheme) option" where
  "path_loop look path path_length current sz s =
     (if mem s (path + current) = 0 then Some (File_left current sz, s)
      else if mem s (path + current) = byte_of_char (CHR ''/'') then
        if current = 0 then path_loop look path path_length (current + 1) sz s
        else do {
          let current = current + 1;
          let s = printf (''getting inode in  loop, pathlength: %i, current: %i'' @ [CHR 0x0A])
                    [VInt path_length, VInt current] s;
          (folder_name, s) \<leftarrow> copy_name (path + current - sz - 1) sz s;
          (res, s) \<leftarrow> look folder_name s;
          if res < 0 then Some (Failed res, s)
          else if path_length = current then Some (Ends_in_folder, s)
          else path_loop look path path_length (current + 1) 1 s
        }
      else path_loop look path path_length (current + 1) (sz + 1) s)"

definition get_inode_from_dir ::
  "'d vio_ops \<Rightarrow> u64 \<Rightarrow> u64 \<Rightarrow> u64 \<Rightarrow> ('d, 'a) fsst_scheme \<Rightarrow> (int \<times> ('d, 'a) fsst_scheme) option" where
  "get_inode_from_dir V this dir path s = do {
     let s = log FS ''Getting inode of file: %s'' [VStr (cstr (mem s) path)] s;
     path_length \<leftarrow> strlen_loop path 0 (mem s);
     (r, s) \<leftarrow> path_loop (get_inode_in_dir V this dir) path path_length 0 0 s;
     case r of
       Failed res \<Rightarrow> Some (res, s)
     | Ends_in_folder \<Rightarrow> Some (0, s)
     | File_left current sz \<Rightarrow> do {
         (file_name, s) \<leftarrow> copy_name (path + current - sz) sz s;
         (res, s) \<leftarrow> get_inode_in_dir V this dir file_name s;
         if res < 0 then Some (res, s) else Some (0, s)
       }
   }"

definition get_root_inode ::
  "'d vio_ops \<Rightarrow> u64 \<Rightarrow> u64 \<Rightarrow> ('d, 'a) fsst_scheme \<Rightarrow> ('d, 'a) fsst_scheme option" where
  "get_root_inode V this inode s = do {
     (_, s) \<leftarrow> blk_read V (fs_device (mem s) this)
       (ucast (fs_block_size (mem s) this * bg_inode_table (mem s) (fs_group_desc (mem s) this 0)) +
        sizeof_EXT2Inode * 1) sizeof_EXT2Inode inode s;
     Some s
   }"

definition EXT2_get_file_size ::
  "'d vio_ops \<Rightarrow> u64 \<Rightarrow> u64 \<Rightarrow> ('d, 'a) fsst_scheme \<Rightarrow> (u64 \<times> ('d, 'a) fsst_scheme) option" where
  "EXT2_get_file_size V this name s = do {
     (inode, s) \<leftarrow> new_zeroed sizeof_EXT2Inode s;
     s \<leftarrow> get_root_inode V this inode s;
     (_, s) \<leftarrow> get_inode_from_dir V this inode name s;
     Some (ucast (i_size (mem s) inode), s)
   }"

definition EXT2_read_file ::
  "'d vio_ops \<Rightarrow> u64 \<Rightarrow> u64 \<Rightarrow> u64 \<Rightarrow> u64 \<Rightarrow> ('d, 'a) fsst_scheme \<Rightarrow> (int \<times> ('d, 'a) fsst_scheme) option" where
  "EXT2_read_file V this name sz data s = do {
     (inode, s) \<leftarrow> new_zeroed sizeof_EXT2Inode s;
     s \<leftarrow> get_root_inode V this inode s;
     (_, s) \<leftarrow> get_inode_from_dir V this inode name s;
     (_, s) \<leftarrow> blk_read V (fs_device (mem s) this)
       (ucast (fs_block_size (mem s) this * i_block0 (mem s) inode)) sz data s;
     Some (0, operator_delete_sized inode sizeof_EXT2Inode s)
   }"

definition get_file_size ::
  "'d vio_ops \<Rightarrow> u64 \<Rightarrow> ('d, 'a) fsst_scheme \<Rightarrow> (u64 \<times> ('d, 'a) fsst_scheme) option" where
  "get_file_size V path s = EXT2_get_file_size V (ext2_instance s) path s"

definition read_file ::
  "'d vio_ops \<Rightarrow> u64 \<Rightarrow> u64 \<Rightarrow> u64 \<Rightarrow> ('d, 'a) fsst_scheme \<Rightarrow> (int \<times> ('d, 'a) fsst_scheme) option" where
  "read_file V path sz data s = EXT2_read_file V (ext2_instance s) path sz data s"

section \<open>Directories\<close>

text \<open>
  A directory block read as a list: the entries follow each other by \<^verbatim>\<open>rec_len\<close>, and the name of
  an entry is the text of its length field.
\<close>

primrec entry_at :: "mem \<Rightarrow> u64 \<Rightarrow> nat \<Rightarrow> u64" where
  "entry_at m data 0 = data"
| "entry_at m data (Suc k) = entry_at m data k + ucast (rec_len m (entry_at m data k))"

definition name_of :: "mem \<Rightarrow> u64 \<Rightarrow> string" where
  "name_of m e = map char_of_byte (load_bytes m (entry_name e) (unat (name_len m e)))"

lemma load_bytes_Suc: "load_bytes m a (Suc n) = m a # load_bytes m (a + 1) n"
  by (simp add: load_bytes_def upt_conv_Cons map_Suc_upt [symmetric] add.assoc del: upt_Suc)

lemma names_equal_iff: "names_equal a b n m \<longleftrightarrow> load_bytes m a n = load_bytes m b n"
  by (induction n arbitrary: a b) (simp_all add: load_bytes_Suc)

lemma load_bytes_cstr: "is_cstr m p xs \<Longrightarrow> load_bytes m p (length xs) = map byte_of_char xs"
  by (auto intro!: nth_equalityI simp: is_cstr_def)

lemma matches_iff:
  assumes "is_cstr m name xs"
  shows "matches e name m = Some (name_of m e = xs)"
proof -
  note un = unat_length_cstr [OF assms]
  have u8: "unat (ucast (name_len m e) :: u64) = unat (name_len m e)"
    using unsigned_less [of "name_len m e", where ?'a = nat]
    by (simp add: unsigned_ucast_eq take_bit_nat_eq_self)
  have ne: "of_nat (length xs) = (ucast (name_len m e) :: u64) \<longleftrightarrow> length xs = unat (name_len m e)"
    using un u8 by (metis word_unat_eq_iff)
  have "name_of m e = xs \<longleftrightarrow> load_bytes m (entry_name e) (unat (name_len m e)) = map byte_of_char xs"
    unfolding name_of_def by (metis (no_types, lifting) byte_of_char_of_byte char_of_byte_of_char list.map_comp
      list.map_ident_strong comp_apply)
  then show ?thesis
    using strlen_cstr [OF assms] load_bytes_cstr [OF assms] ne un
    by (auto simp: matches_def names_equal_iff name_of_def dest: arg_cong [of _ _ length])
qed

lemma scan_dir_from:
  assumes "is_cstr m name xs" and "k \<le> 10"
  shows "scan_dir data name (entry_at m data k - data) (of_nat k) m =
    Some (case find (\<lambda>i. name_of m (entry_at m data i) = xs) [k..<10] of
            Some i \<Rightarrow> (entry_at m data i, of_nat i) | None \<Rightarrow> (entry_at m data 10, 10))"
  using assms(2)
proof (induction "10 - k" arbitrary: k)
  case 0
  then show ?case
    by (subst scan_dir.simps) (simp add: matches_iff [OF assms(1)])
next
  case (Suc n)
  then have k: "k < 10" by simp
  then have lt: "(of_nat k :: u64) < 10" by (simp add: word_less_nat_alt unat_of_nat)
  have step: "data + (entry_at m data k - data) = entry_at m data k"
    "entry_at m data k - data + ucast (rec_len m (entry_at m data k)) = entry_at m data (Suc k) - data"
    by simp_all
  show ?case
  proof (cases "name_of m (entry_at m data k) = xs")
    case True
    with k show ?thesis
      by (subst scan_dir.simps) (simp add: matches_iff [OF assms(1)] upt_conv_Cons)
  next
    case False
    have "scan_dir data name (entry_at m data k - data) (of_nat k) m =
        scan_dir data name (entry_at m data (Suc k) - data) (of_nat (Suc k)) m"
      using False lt step by (subst scan_dir.simps) (simp add: matches_iff [OF assms(1)] add.commute diff_add_eq)
    also have "\<dots> = Some (case find (\<lambda>i. name_of m (entry_at m data i) = xs) [Suc k..<10] of
            Some i \<Rightarrow> (entry_at m data i, of_nat i) | None \<Rightarrow> (entry_at m data 10, 10))"
      using Suc k by (intro Suc.hyps(1)) simp_all
    finally show ?thesis using False k by (simp add: upt_conv_Cons)
  qed
qed

section \<open>Properties\<close>

text \<open>
  \<^verbatim>\<open>EXT2LinkedListDirectory::matches\<close> decides equality of names: for a C string it returns
  true exactly when the entry's name, of the length the entry gives, is that string.
\<close>

theorem matches_decides_equality:
  assumes "is_cstr m name xs"
  shows "matches e name m = Some (name_of m e = xs)"
  using matches_iff [OF assms] .

theorem matches_decides_equality_witness:
  "\<exists>m. is_cstr m 0x100 ''ab'' \<and> matches 0x200 0x100 m = Some False"
proof -
  let ?m = "store_bytes (\<lambda>_. 0) 0x100 (map byte_of_char ''ab'' @ [0])"
  have c: "is_cstr ?m 0x100 ''ab''" by (rule is_cstr_store) simp_all
  have "name_of ?m 0x200 = []" by (simp add: name_of_def name_len_def store_bytes_out)
  then show ?thesis using c matches_decides_equality [OF c, of "0x200"] by (intro exI [of _ ?m]) simp
qed

text \<open>
  C24: the scan of a directory block ends, whatever the block holds (record lengths of zero included),
  and finds the first of the first ten entries whose name is the one looked for; without one it ends
  with the counter at ten, which \<^verbatim>\<open>get_inode_in_dir\<close> reports as a missing file.
\<close>

theorem scan_dir_first_match:
  assumes "is_cstr m name xs"
  shows "scan_dir data name 0 0 m =
    Some (case find (\<lambda>i. name_of m (entry_at m data i) = xs) [0..<10] of
            Some i \<Rightarrow> (entry_at m data i, of_nat i) | None \<Rightarrow> (entry_at m data 10, 10))"
  using scan_dir_from [OF assms, of 0 data] by simp

theorem scan_dir_first_match_witness:
  "\<exists>m. is_cstr m 0x100 ''ab'' \<and> scan_dir 0x200 0x100 0 0 m = Some (0x200, 10)"
proof -
  define m where "m = store_bytes (\<lambda>_. 0) 0x100 (map byte_of_char ''ab'' @ [0])"
  have c: "is_cstr m 0x100 ''ab''" unfolding m_def by (rule is_cstr_store) simp_all
  have "m 0x204 = 0" "m 0x205 = 0" by (simp_all add: m_def store_bytes_out)
  then have z: "rec_len m 0x200 = 0"
    by (simp add: rec_len_def ld16_def numeral_2_eq_2 load_bytes_Suc)
  have e: "entry_at m 0x200 k = 0x200" for k by (induction k) (simp_all add: z)
  have n: "name_of m 0x200 = []" by (simp add: name_of_def name_len_def m_def store_bytes_out)
  have "find (\<lambda>i. name_of m (entry_at m 0x200 i) = ''ab'') [0..<10] = None"
    unfolding e n by (simp add: find_None_iff)
  then show ?thesis
    using c scan_dir_first_match [OF c, of "0x200"] e [of 10] by (intro exI [of _ m]) simp
qed

end
