(* ===== verification/Ext2_Lookup.thy ===== *)
theory Ext2_Lookup
  imports Ext2
begin

text \<open>
  The file system driver against the volume on the disk. \<open>dir_lookup\<close> and \<open>path_lookup\<close>
  describe what a name denotes on the partition, with no driver and no kernel memory involved; the
  lemmas show that \<^verbatim>\<open>EXT2::get_inode_in_dir\<close> and its callers compute it through the heap,
  the virtqueue and the block device.
\<close>

section \<open>The volume\<close>

definition disk_block_size :: "mem \<Rightarrow> u32" where
  "disk_block_size P = push_bit (unat (s_log_block_size P 1024)) 1024"

definition disk_groups :: "mem \<Rightarrow> u32" where
  "disk_groups P = s_blocks_count P 1024 div s_blocks_per_group P 1024"

definition group_pos :: "mem \<Rightarrow> nat \<Rightarrow> u64" where
  "group_pos P g = ucast (disk_block_size P) + of_nat g * 32"

definition inode_group :: "mem \<Rightarrow> u32 \<Rightarrow> nat" where
  "inode_group P ino = unat ((ino - 1) div s_inodes_per_group P 1024)"

text \<open>Where an inode lies on the partition, and where the first block of its file begins.\<close>

definition inode_pos :: "mem \<Rightarrow> u32 \<Rightarrow> u64" where
  "inode_pos P ino = ucast (disk_block_size P * bg_inode_table P (group_pos P (inode_group P ino))) +
     256 * ucast ((ino - 1) mod s_inodes_per_group P 1024)"

definition file_pos :: "mem \<Rightarrow> u64 \<Rightarrow> u64" where
  "file_pos P pos = ucast (disk_block_size P * i_block0 P pos)"

text \<open>The entries of the first block of a directory, at most the ten the driver looks at.\<close>

definition entry_off :: "mem \<Rightarrow> u64 \<Rightarrow> nat \<Rightarrow> u64" where
  "entry_off P base i = entry_at P base i - base"

definition block_entries :: "mem \<Rightarrow> u64 \<Rightarrow> u64 \<Rightarrow> nat list" where
  "block_entries P bs base = takeWhile (\<lambda>i. entry_off P base i \<noteq> bs) [0..<10]"

definition dir_ok :: "mem \<Rightarrow> u64 \<Rightarrow> u64 \<Rightarrow> bool" where
  "dir_ok P bs base \<longleftrightarrow> (\<forall>i \<in> set (block_entries P bs base).
     unat (entry_off P base i) + 8 + unat (name_len P (entry_at P base i)) \<le> unat bs)"

definition dir_find :: "mem \<Rightarrow> u64 \<Rightarrow> u64 \<Rightarrow> string \<Rightarrow> nat option" where
  "dir_find P bs base xs = find (\<lambda>i. name_of P (entry_at P base i) = xs) (block_entries P bs base)"

definition is_directory :: "mem \<Rightarrow> u64 \<Rightarrow> bool" where
  "is_directory P pos \<longleftrightarrow> i_mode P pos AND 0x4000 \<noteq> 0x0"

definition dir_lookup :: "mem \<Rightarrow> u64 \<Rightarrow> string \<Rightarrow> u64 option" where
  "dir_lookup P pos xs =
     (if is_directory P pos then
        map_option (\<lambda>i. inode_pos P (entry_inode P (entry_at P (file_pos P pos) i)))
          (dir_find P (ucast (disk_block_size P)) (file_pos P pos) xs)
      else None)"

fun path_lookup :: "mem \<Rightarrow> u64 \<Rightarrow> string list \<Rightarrow> u64 option" where
  "path_lookup P pos [] = Some pos"
| "path_lookup P pos (xs # xss) = Option.bind (dir_lookup P pos xs) (\<lambda>pos'. path_lookup P pos' xss)"

text \<open>The inode a walk has reached when it ends, be it at a name that is missing.\<close>

definition step_pos :: "mem \<Rightarrow> u64 \<Rightarrow> string \<Rightarrow> u64" where
  "step_pos P pos xs = (case dir_lookup P pos xs of None \<Rightarrow> pos | Some pos' \<Rightarrow> pos')"

fun path_reach :: "mem \<Rightarrow> u64 \<Rightarrow> string list \<Rightarrow> u64" where
  "path_reach P pos [] = pos"
| "path_reach P pos (xs # xss) = (case dir_lookup P pos xs of None \<Rightarrow> pos | Some pos' \<Rightarrow> path_reach P pos' xss)"

lemma path_reach_lookup: "path_lookup P pos cs = Some pos' \<Longrightarrow> path_reach P pos cs = pos'"
  by (induction P pos cs rule: path_lookup.induct) (auto split: option.splits bind_splits)

definition root_pos :: "mem \<Rightarrow> u64" where
  "root_pos P = inode_pos P 2"

section \<open>A copy of a directory block\<close>

text \<open>
  The block in memory, followed by the header of the next heap block: beyond the last entry the scan
  meets an entry with an empty name and record length 0, and stays there.
\<close>

lemma header_entry:
  assumes "ld64 m a = n" and "unat n < 2 ^ 32"
  shows "rec_len m a = 0" "name_len m a = 0" "name_of m a = []"
proof -
  have b: "m (a + of_nat i) = 0" if "4 \<le> i" "i < 8" for i
  proof (rule bit_word_eqI)
    fix j assume j: "j < LENGTH(8)"
    have "bit (ld64 m a) (8 * i + j) = bit (m (a + of_nat i)) j"
      using that j by (simp add: ld64_def bit_le_word)
    moreover have "\<not> bit n (8 * i + j)"
    proof -
      have "n = take_bit 32 n" using assms(2) by (simp add: word_unat_eq_iff unat_take_bit take_bit_nat_eq_self)
      moreover have "\<not> bit (take_bit 32 n) (8 * i + j)" using that by (simp add: bit_take_bit_iff)
      ultimately show ?thesis by metis
    qed
    ultimately show "bit (m (a + of_nat i)) j = bit (0 :: u8) j" using assms(1) by simp
  qed
  have l: "load_bytes m (a + 4) 2 = [0, 0]"
    using b [of 4] b [of 5] by (simp add: load_bytes_Suc numeral_2_eq_2 add.assoc)
  then show "rec_len m a = 0" by (simp add: rec_len_def ld16_def)
  show n: "name_len m a = 0" using b [of 6] by (simp add: name_len_def)
  then show "name_of m a = []" by (simp add: name_of_def)
qed

lemma takeWhile_upt:
  "takeWhile P [0..<n] = [0..<length (takeWhile P [0..<n])]"
  by (metis add.left_neutral length_takeWhile_le length_upt minus_nat.diff_0 take_upt takeWhile_eq_take)

lemma copied_entry:
  assumes same: "same_bytes m data P base (unat bs)" and ok: "dir_ok P bs base"
    and k: "k \<le> length (block_entries P bs base)"
  shows "entry_at m data k = data + entry_off P base k"
    "k < length (block_entries P bs base) \<Longrightarrow> name_of m (entry_at m data k) = name_of P (entry_at P base k) \<and>
      entry_inode m (entry_at m data k) = entry_inode P (entry_at P base k)"
proof -
  let ?N = "length (block_entries P bs base)"
  have set: "i \<in> set (block_entries P bs base)" if "i < ?N" for i
    using that takeWhile_upt [of "\<lambda>i. entry_off P base i \<noteq> bs" 10] unfolding block_entries_def by (metis atLeast0LessThan lessThan_iff set_upt)
  have b: "unat (entry_off P base i) + 8 + unat (name_len P (entry_at P base i)) \<le> unat bs" if "i < ?N" for i
    using ok set [OF that] by (simp add: dir_ok_def)
  have e: "base + entry_off P base i = entry_at P base i" for i by (simp add: entry_off_def)
  show at: "entry_at m data k = data + entry_off P base k"
    using k
  proof (induction k)
    case (Suc k)
    then have k: "k < ?N" "entry_at m data k = data + entry_off P base k" by simp_all
    have u: "unat (entry_off P base k + 4) = unat (entry_off P base k) + 4"
      using b [OF k(1)] unat_bound [of bs] by (simp add: unat_word_ariths)
    have "ld16 m (data + (entry_off P base k + 4)) = ld16 P (base + (entry_off P base k + 4))"
      using b [OF k(1)] u by (intro same_fields(2) [OF same]) simp
    then have "rec_len m (data + entry_off P base k) = rec_len P (entry_at P base k)"
      unfolding rec_len_def e [symmetric] by (simp add: add.assoc)
    with k(2) show ?case by (simp add: entry_off_def)
  qed (simp add: entry_off_def)
  assume l: "k < ?N"
  let ?o = "entry_off P base k"
  have u: "unat (?o + 6) = unat ?o + 6" "unat (?o + 8) = unat ?o + 8"
    using b [OF l] unat_bound [of bs] by (simp_all add: unat_word_ariths)
  have n: "name_len m (data + ?o) = name_len P (entry_at P base k)"
    using same_fields(1) [OF same, of "?o + 6"] b [OF l] u
    unfolding name_len_def e [symmetric] by (simp add: add.assoc)
  have "load_bytes m (data + (?o + 8)) (unat (name_len P (entry_at P base k))) =
      load_bytes P (base + (?o + 8)) (unat (name_len P (entry_at P base k)))"
    using b [OF l] u unat_bound [of bs] by (intro same_fields(5) [OF same]) simp_all
  then have "name_of m (data + ?o) = name_of P (entry_at P base k)"
    unfolding name_of_def n entry_name_def by (simp add: add.assoc flip: e)
  moreover have "entry_inode m (data + ?o) = entry_inode P (entry_at P base k)"
    using same_fields(3) [OF same, of ?o] b [OF l] by (simp add: entry_inode_def e)
  ultimately show "name_of m (entry_at m data k) = name_of P (entry_at P base k) \<and>
      entry_inode m (entry_at m data k) = entry_inode P (entry_at P base k)" unfolding at by blast
qed

lemma scan_copied_dir:
  assumes same: "same_bytes m data P base (unat bs)" and ok: "dir_ok P bs base"
    and hd: "ld64 m (data + bs) = n" "unat n < 2 ^ 32" and name: "is_cstr m name xs" "xs \<noteq> []"
  shows "dir_find P bs base xs = Some i \<Longrightarrow> scan_dir data name 0 0 m = Some (entry_at m data i, of_nat i) \<and> i < 10 \<and>
      entry_inode m (entry_at m data i) = entry_inode P (entry_at P base i)"
    and "dir_find P bs base xs = None \<Longrightarrow> \<exists>e. scan_dir data name 0 0 m = Some (e, 10)"
proof -
  define N where "N = length (block_entries P bs base)"
  let ?Q = "\<lambda>i. name_of m (entry_at m data i) = xs"
  have be: "block_entries P bs base = [0..<N]" and N: "N \<le> 10"
    unfolding N_def using takeWhile_upt [of "\<lambda>i. entry_off P base i \<noteq> bs" 10] length_takeWhile_le [of "\<lambda>i. entry_off P base i \<noteq> bs" "[0..<10]"]
    unfolding block_entries_def by simp_all
  have late: "entry_at m data (N + k) = data + bs" if "N < 10" for k
  proof (induction k)
    case 0
    have "entry_off P base N = bs"
      using nth_length_takeWhile [of "\<lambda>i. entry_off P base i \<noteq> bs" "[0..<10]"] that by (simp add: block_entries_def N_def)
    then show ?case using copied_entry(1) [OF same ok order_refl] by (simp add: N_def)
  next
    case (Suc k)
    then show ?case using header_entry(1) [OF hd] by simp
  qed
  have "\<not> ?Q i" if "N \<le> i" "i < 10" for i
    using late [of "i - N"] that header_entry(3) [OF hd] name(2) by auto
  then have none: "find ?Q [N..<10] = None" by (auto simp: find_None_iff)
  have app: "find f (xs @ ys) = (case find f xs of None \<Rightarrow> find f ys | Some x \<Rightarrow> Some x)" for f :: "nat \<Rightarrow> bool" and xs ys
    by (induction xs) auto
  have early: "find ?Q [0..<N] = dir_find P bs base xs"
    unfolding dir_find_def be using copied_entry(2) [OF same ok, folded N_def] by (intro find_cong) auto
  have "[0..<10] = [0..<N] @ [N..<10]" using N by (metis le_add_diff_inverse upt_add_eq_append zero_le)
  then have all: "find ?Q [0..<10] = dir_find P bs base xs"
    using none early by (simp add: app split: option.split)
  have scan: "scan_dir data name 0 0 m = Some (case find ?Q [0..<10] of
      Some i \<Rightarrow> (entry_at m data i, of_nat i) | None \<Rightarrow> (entry_at m data 10, 10))"
    using scan_dir_from [OF name(1), of 0 data] by simp
  show "scan_dir data name 0 0 m = Some (entry_at m data i, of_nat i) \<and> i < 10 \<and>
      entry_inode m (entry_at m data i) = entry_inode P (entry_at P base i)" if "dir_find P bs base xs = Some i"
  proof -
    have "i < N" using that unfolding dir_find_def be by (auto simp: find_Some_iff)
    then show ?thesis using that all scan N copied_entry(2) [OF same ok, of i, folded N_def] by simp
  qed
  show "\<exists>e. scan_dir data name 0 0 m = Some (e, 10)" if "dir_find P bs base xs = None"
    using that all scan by simp
qed

section \<open>A mounted volume\<close>

text \<open>
  The driver's objects: they lie behind the virtqueue and below \<open>hi\<close>, and hold what the
  partition holds. Everything above \<open>hi\<close> belongs to the callers.
\<close>

definition span :: "nat \<Rightarrow> nat \<Rightarrow> u64 \<Rightarrow> nat \<Rightarrow> bool" where
  "span lo hi a n \<longleftrightarrow> lo \<le> unat a \<and> unat a + n \<le> hi"

definition geometry_ok :: "mem \<Rightarrow> bool" where
  "geometry_ok P \<longleftrightarrow> s_log_block_size P 1024 < 16 \<and> s_inodes_per_group P 1024 \<noteq> 0 \<and> unat (disk_groups P) \<le> 8"

definition fs_image :: "mem \<Rightarrow> mem \<Rightarrow> u64 \<Rightarrow> u64 \<Rightarrow> nat \<Rightarrow> nat \<Rightarrow> bool" where
  "fs_image P m device this lo hi \<longleftrightarrow> span lo hi this 32 \<and> ld64 m this = device \<and>
     span lo hi (fs_super_block m this) 92 \<and> same_bytes m (fs_super_block m this) P 1024 92 \<and>
     fs_block_size m this = disk_block_size P \<and> span lo hi (ld64 m (this + 24)) 64 \<and>
     (\<forall>g < unat (disk_groups P). span lo hi (fs_group_desc m this (of_nat g)) 32 \<and>
        same_bytes m (fs_group_desc m this (of_nat g)) P (group_pos P g) 32)"

lemma fs_image_kept:
  assumes "fs_image P m device this lo hi" and "kept lo hi m m'" and "hi \<le> 2 ^ 64" and "unat (disk_groups P) \<le> 8"
  shows "fs_image P m' device this lo hi"
proof -
  note i = assms(1) [unfolded fs_image_def]
  have k: "same_bytes m' a m a n" if "span lo hi a n" for a n
    using kept_same [OF assms(2) _ _ assms(3)] that by (simp add: span_def)
  have t: "same_bytes m' this m this 32" using i by (intro k) simp
  have f: "ld64 m' this = ld64 m this" "ld64 m' (this + 8) = ld64 m (this + 8)" "ld64 m' (this + 24) = ld64 m (this + 24)"
    "ld32 m' (this + 16) = ld32 m (this + 16)"
    using same_fields(3,4) [OF t] same_fields_0(4) [OF t] by simp_all
  have gd: "same_bytes m' (ld64 m (this + 24)) m (ld64 m (this + 24)) 64" using i by (intro k) simp
  have g: "fs_group_desc m' this (of_nat g) = fs_group_desc m this (of_nat g)" if "g < unat (disk_groups P)" for g
  proof -
    have "unat (8 * of_nat g :: u64) = 8 * g" using that assms(4) by (simp add: unat_word_ariths unat_of_nat)
    then show ?thesis
      using same_fields(4) [OF gd, of "8 * of_nat g"] that assms(4) by (simp add: fs_group_desc_def f)
  qed
  have sb: "fs_super_block m' this = fs_super_block m this" "fs_block_size m' this = fs_block_size m this"
    by (simp_all add: fs_super_block_def fs_block_size_def f)
  show ?thesis
    unfolding fs_image_def sb f using i g same_bytes_trans [OF k] by auto
qed

definition mounted :: "image \<Rightarrow> 'd vio_ops \<Rightarrow> (nat \<Rightarrow> u8) \<Rightarrow> ('d \<Rightarrow> bool) \<Rightarrow> u64 \<Rightarrow> u64 \<Rightarrow> u64 \<Rightarrow> nat \<Rightarrow> ('d, 'a) vio_scheme \<Rightarrow> bool" where
  "mounted R V D live device q this hi s \<longleftrightarrow> disk_client R V D live device q s \<and> geometry_ok (partition D) \<and>
     hi \<le> unat (free_list s) \<and> fs_image (partition D) (mem s) device this (unat q + 6672) hi"

lemma mounted_out [simp]:
  "mounted R V D live device q this hi (s\<lparr>out := tx\<rparr>) = mounted R V D live device q this hi s"
  by (simp add: mounted_def disk_client_def disk_ready_def)

lemma mounted_top:
  assumes "mounted R V D live device q this hi s"
  shows "unat q + 6672 + 32 \<le> hi" "hi \<le> unat (free_list s)" "unat device + 24 \<le> unat q"
    "unat VIRTUAL_HEAP_START \<le> hi" "heap_wf s" "linear_heap s"
proof -
  have q: "heap_block s q 6672" using assms by (simp add: mounted_def disk_client_def disk_ready_def driver_ok_def)
  show q32: "unat q + 6672 + 32 \<le> hi" "hi \<le> unat (free_list s)" "unat device + 24 \<le> unat q" "linear_heap s" "heap_wf s"
    using assms by (simp_all add: mounted_def fs_image_def span_def disk_client_def linear_heap_def)
  then show "unat VIRTUAL_HEAP_START \<le> hi" using q by (simp add: heap_block_def)
qed

lemma mounted_kept:
  assumes "mounted R V D live device q this hi s" and "disk_client R V D live device q s'"
    and "unat (free_list s) \<le> unat (free_list s')" and "kept (unat q + 6672) hi (mem s) (mem s')"
  shows "mounted R V D live device q this hi s'"
proof -
  have "hi \<le> 2 ^ 64" using mounted_top(2) [OF assms(1)] unat_bound [of "free_list s"] by simp
  then show ?thesis
    using assms fs_image_kept [OF _ assms(4)] by (simp add: mounted_def geometry_ok_def)
qed

lemma mounted_read:
  fixes s :: "('d, 'a) vio_scheme"
  assumes mt: "mounted R V D live device q this hi s" and buf: "hi \<le> unat buf" "unat buf + unat len \<le> unat (free_list s)"
    and r: "readable offset len" and room: "unat (free_list s) + read_cost len + 16 \<le> heap_limit"
  obtains s' where "blk_read V device offset len buf s = Some (0, s')" "mounted R V D live device q this hi s'"
    "unat (free_list s') = unat (free_list s) + read_cost len"
    "same_bytes (mem s') buf (partition D) offset (unat len)"
    "kept hi (unat buf) (mem s) (mem s')" "kept (unat buf + unat len) (unat (free_list s)) (mem s) (mem s')"
    "vio_only s s'" "ld64 (mem s') (free_list s) = 512 * (len div 512 + 1)"
proof -
  have c: "disk_client R V D live device q s" using mt by (simp add: mounted_def)
  note tp = mounted_top [OF mt]
  have lo: "unat q + 6672 \<le> unat buf" using tp(1) buf(1) by linarith
  obtain s' where s': "blk_read V device offset len buf s = Some (0, s')" "disk_client R V D live device q s'"
    "unat (free_list s') = unat (free_list s) + read_cost len" "same_bytes (mem s') buf (partition D) offset (unat len)"
    "vio_only s s'" "ld64 (mem s') (free_list s) = 512 * (len div 512 + 1)"
    by (rule disk_read [OF c lo buf(2) r room])
  have "unat (free_list s) + read_cost len \<le> heap_limit - 16" using room by simp
  then obtain s'' where "blk_read V device offset len buf s = Some (0, s'')"
    "kept (unat q + 6672) (unat buf) (mem s) (mem s'')" "kept (unat buf + unat len) (unat (free_list s)) (mem s) (mem s'')"
    by (rule disk.read_split [OF c lo buf(2) r])
  with s'(1) have k: "kept (unat q + 6672) (unat buf) (mem s) (mem s')" "kept (unat buf + unat len) (unat (free_list s)) (mem s) (mem s')"
    by simp_all
  have "mounted R V D live device q this hi s'"
    using s'(3) buf(1) by (intro mounted_kept [OF mt s'(2)] kept_mono [OF k(1)]) simp_all
  moreover have "kept hi (unat buf) (mem s) (mem s')" using tp(1) by (intro kept_mono [OF k(1)]) simp_all
  ultimately show ?thesis using that [OF s'(1) _ s'(3,4) _ k(2) s'(5,6)] by blast
qed

lemma mounted_kalloc:
  fixes s :: "('d, 'a) vio_scheme"
  assumes mt: "mounted R V D live device q this hi s" and room: "unat (free_list s) + unat sz + 32 \<le> heap_limit"
  obtains p s' where "kalloc sz s = Some (p, s')" "mounted R V D live device q this hi s'"
    "unat p = unat (free_list s) + 16" "unat (free_list s') = unat (free_list s) + 16 + unat sz" "free_list s' = p + sz"
    "kept hi (unat (free_list s)) (mem s) (mem s')" "heap_only s s'"
proof -
  note tp = mounted_top [OF mt]
  have c: "disk_client R V D live device q s" using mt by (simp add: mounted_def)
  obtain p s' where k: "kalloc sz s = Some (p, s')" "disk_client R V D live device q s'"
    "unat p = unat (free_list s) + 16" "unat (free_list s') = unat (free_list s) + 16 + unat sz" "free_list s' = p + sz"
    "kept (unat q + 6672) (unat (free_list s)) (mem s) (mem s')" "heap_only s s'"
    by (rule client_kalloc [OF c room])
  have "mounted R V D live device q this hi s'"
    using k(4) tp(2) by (intro mounted_kept [OF mt k(2)] kept_mono [OF k(6)]) simp_all
  moreover have "kept hi (unat (free_list s)) (mem s) (mem s')" using tp(1) by (intro kept_mono [OF k(6)]) simp_all
  ultimately show ?thesis using that [OF k(1) _ k(3-5)] k(7) by blast
qed

lemma mounted_store:
  assumes mt: "mounted R V D live device q this hi s" and a: "hi \<le> unat a" "unat a + length bs \<le> unat (free_list s)"
  shows "mounted R V D live device q this hi (s\<lparr>mem := store_bytes (mem s) a bs\<rparr>)"
    "kept hi (unat a) (mem s) (store_bytes (mem s) a bs)"
proof -
  note tp = mounted_top [OF mt]
  have "disk_client R V D live device q s" "unat q + 6672 \<le> unat a" using mt tp a by (simp_all add: mounted_def)
  note st = client_store [OF this a(2)]
  show "mounted R V D live device q this hi (s\<lparr>mem := store_bytes (mem s) a bs\<rparr>)"
    using a(1) by (intro mounted_kept [OF mt st(1)]) (auto intro: kept_mono [OF st(2)])
  show "kept hi (unat a) (mem s) (store_bytes (mem s) a bs)" using tp(1) by (intro kept_mono [OF st(2)]) simp_all
qed

text \<open>What the driver's fields say about the volume.\<close>

lemma block_size_facts:
  assumes "geometry_ok P"
  shows "512 dvd unat (disk_block_size P)" "unat (disk_block_size P) < 2 ^ 26" "0 < unat (disk_block_size P)"
    "unat (ucast (disk_block_size P) :: u64) = unat (disk_block_size P)"
proof -
  let ?k = "unat (s_log_block_size P 1024)"
  have k: "?k < 16" using assms by (simp add: geometry_ok_def word_less_nat_alt)
  then have p: "(2 :: nat) ^ ?k \<le> 2 ^ 15" by (intro power_increasing) simp_all
  have "disk_block_size P = 1024 * 2 ^ ?k" by (simp add: disk_block_size_def push_bit_eq_mult mult.commute)
  moreover have "unat (2 ^ ?k :: u32) = 2 ^ ?k"
  proof -
    have "(2 :: u32) ^ ?k = of_nat (2 ^ ?k)" by simp
    then show ?thesis using p unat_of_nat [of "2 ^ ?k", where ?'a = 32] by (simp del: of_nat_power)
  qed
  ultimately have u: "unat (disk_block_size P) = 1024 * 2 ^ ?k" using p by (simp add: unat_word_ariths)
  show "512 dvd unat (disk_block_size P)" "0 < unat (disk_block_size P)"
    unfolding u by (rule dvd_mult2) simp_all
  show "unat (disk_block_size P) < 2 ^ 26" unfolding u using p by simp
  show "unat (ucast (disk_block_size P) :: u64) = unat (disk_block_size P)"
    using unsigned_less [of "disk_block_size P", where ?'a = nat] by (simp add: unsigned_ucast_eq take_bit_nat_eq_self)
qed

lemma unat_ucast_32: "unat (ucast (x :: u32) :: u64) = unat x" "unat x < 2 ^ 32"
  using unsigned_less [of x, where ?'a = nat] by (simp_all add: unsigned_ucast_eq take_bit_nat_eq_self)

lemma block_product:
  assumes "geometry_ok P"
  shows "unat (ucast (disk_block_size P * b) :: u64) mod 512 = 0" "unat (ucast (disk_block_size P * b) :: u64) < 2 ^ 32"
proof -
  have "512 dvd unat (disk_block_size P) * unat b" using block_size_facts(1) [OF assms] by simp
  moreover have "(512 :: nat) dvd 2 ^ 32" by simp
  ultimately have "512 dvd unat (disk_block_size P * b)"
    by (simp add: unat_word_ariths dvd_mod)
  then show "unat (ucast (disk_block_size P * b) :: u64) mod 512 = 0" by (simp add: unat_ucast_32)
  show "unat (ucast (disk_block_size P * b) :: u64) < 2 ^ 32"
    using unat_ucast_32 [of "disk_block_size P * b"] by simp
qed

lemma readable_block:
  assumes "geometry_ok P" and "unat len < 2 ^ 31"
  shows "readable (file_pos P pos) len"
proof -
  have "unat len \<le> 512 * (unat len div 512 + 1)" by simp
  then show ?thesis
    using block_product [OF assms(1), of "i_block0 P pos"] assms(2) unfolding readable_def file_pos_def by simp
qed

lemma readable_inode:
  assumes "geometry_ok P"
  shows "readable (inode_pos P ino) 256"
proof -
  let ?a = "ucast (disk_block_size P * bg_inode_table P (group_pos P (inode_group P ino))) :: u64"
  let ?i = "(ino - 1) mod s_inodes_per_group P 1024"
  note a = block_product [OF assms, of "bg_inode_table P (group_pos P (inode_group P ino))"]
  note i = unat_ucast_32 [of ?i]
  have m: "unat (256 * ucast ?i :: u64) = 256 * unat ?i" using i by (simp add: unat_word_ariths)
  have "unat ?a + 256 * unat ?i < 2 ^ 64" using a(2) i(2) by simp
  then have u: "unat (inode_pos P ino) = unat ?a + 256 * unat ?i"
    unfolding inode_pos_def using m by (subst unat_word_ariths(1)) simp
  have "unat (inode_pos P ino) mod 512 = 256 * unat ?i mod 512"
    unfolding u by (subst mod_add_left_eq [symmetric]) (simp only: a(1) add_0)
  also have "\<dots> = 256 * (unat ?i mod 2)" by (simp add: mult_mod_right)
  finally have "unat (inode_pos P ino) mod 512 \<le> 256" by simp
  moreover have "unat (inode_pos P ino) + 2 ^ 20 < 2 ^ 41" 
  proof -
    have "unat ?a < 4294967296" "unat ?i < 4294967296" using a(2) i(2) by simp_all
    then have "unat (inode_pos P ino) + 1048576 < 2199023255552" using u by linarith
    then show ?thesis by simp
  qed
  ultimately show ?thesis unfolding readable_def by simp
qed

lemma mounted_fields:
  assumes "mounted R V D live device q this hi s"
  defines "P \<equiv> partition D"
  shows "geometry_ok P" "fs_device (mem s) this = device" "fs_block_size (mem s) this = disk_block_size P"
    "s_inodes_per_group (mem s) (fs_super_block (mem s) this) = s_inodes_per_group P 1024"
    "inode_group P ino < unat (disk_groups P) \<Longrightarrow> inode_offset (mem s) this ino = inode_pos P ino"
proof -
  have i: "fs_image P (mem s) device this (unat q + 6672) hi" "geometry_ok P"
    using assms by (simp_all add: mounted_def)
  have sb: "same_bytes (mem s) (fs_super_block (mem s) this) P 1024 92" using i(1) by (simp add: fs_image_def)
  show "geometry_ok P" "fs_device (mem s) this = device" and bs: "fs_block_size (mem s) this = disk_block_size P"
    using i by (simp_all add: fs_image_def fs_device_def)
  show ipg: "s_inodes_per_group (mem s) (fs_super_block (mem s) this) = s_inodes_per_group P 1024"
    using same_fields(3) [OF sb, of 40] by (simp add: s_inodes_per_group_def)
  assume g: "inode_group P ino < unat (disk_groups P)"
  have "of_nat (inode_group P ino) = (ucast ((ino - 1) div s_inodes_per_group P 1024) :: u64)"
    by (simp add: inode_group_def)
  then have "same_bytes (mem s) (fs_group_desc (mem s) this (ucast ((ino - 1) div s_inodes_per_group P 1024))) P (group_pos P (inode_group P ino)) 32"
    using i(1) g unfolding fs_image_def by metis
  from same_fields(3) [OF this, of 8]
  have "bg_inode_table (mem s) (fs_group_desc (mem s) this (ucast ((ino - 1) div s_inodes_per_group P 1024))) =
      bg_inode_table P (group_pos P (inode_group P ino))" by (simp add: bg_inode_table_def)
  then show "inode_offset (mem s) this ino = inode_pos P ino"
    by (simp add: inode_offset_def inode_pos_def ipg bs sizeof_EXT2Inode_def Let_def)
qed

section \<open>Looking a name up\<close>

definition lookup_cost :: "mem \<Rightarrow> nat" where
  "lookup_cost P = 16 + unat (disk_block_size P) + read_cost (ucast (disk_block_size P)) + read_cost 256"

text \<open>
  What a caller passes to the file operations lies where they do not write: on the heap between the
  driver's objects and \<open>B\<close>, or in the kernel image, where the string literals are.
\<close>

definition stable :: "nat \<Rightarrow> nat \<Rightarrow> 'a phys_scheme \<Rightarrow> u64 \<Rightarrow> nat \<Rightarrow> bool" where
  "stable hi B s a n \<longleftrightarrow> span hi B a n \<or>
     unat VIRTUAL_OFFSET \<le> unat a \<and> unat a + n \<le> unat (managed_frames_address_start s)"

lemma stable_out [simp]: "stable hi B (s\<lparr>out := tx\<rparr>) = stable hi B s"
  by (simp add: stable_def fun_eq_iff)

lemma stable_mono: "stable hi B s a n \<Longrightarrow> B \<le> B' \<Longrightarrow> stable hi B' s a n"
  by (auto simp: stable_def span_def)

lemma stable_sub:
  assumes "stable hi B s a n" and "i + k \<le> n" and "B \<le> 2 ^ 64" and "i < n"
  shows "stable hi B s (a + of_nat i) k"
proof -
  have b: "unat a + n \<le> 2 ^ 64"
    using assms(1,3) unat_bound [of "managed_frames_address_start s"] by (auto simp: stable_def span_def)
  then have "n \<le> 2 ^ 64" by simp
  with b have "unat (a + of_nat i) = unat a + i" using assms(4) by (simp add: unat_word_ariths unat_of_nat)
  then show ?thesis using assms(1,2) by (auto simp: stable_def span_def)
qed

lemma stable_below:
  assumes "mounted R V D live device q this hi s" and "stable hi B s a n" and "B \<le> unat (free_list s)"
  shows "unat a + n \<le> unat (free_list s)"
proof -
  have wf: "heap_wf s" by (rule mounted_top(5) [OF assms(1)])
  then have "phys_layout s" by (simp add: heap_wf_def pt_wf_def)
  then have "unat (managed_frames_address_start s) \<le> unat VIRTUAL_HEAP_START"
    using pool_start [of s] by (simp add: phys_layout_def VIRTUAL_OFFSET_def VIRTUAL_HEAP_START_def)
  then show ?thesis using assms(2,3) heap_base [OF wf] by (auto simp: stable_def span_def)
qed

lemma stable_same:
  assumes "mounted R V D live device q this hi s" and "mounted R V D live device q this hi s'"
    and "stable hi B s a n" and "kept hi B (mem s) (mem s')" and "B \<le> 2 ^ 64"
  shows "same_bytes (mem s') a (mem s) a n" "stable hi B s' a n"
proof -
  have im: "kernel_image R s" "kernel_image R s'" using assms(1,2) by (simp_all add: mounted_def disk_client_def)
  then have m: "managed_frames_address_start s' = managed_frames_address_start s" by (simp add: kernel_image_def)
  then show "stable hi B s' a n" using assms(3) by (simp add: stable_def)
  have "mem s' (a + k) = mem s (a + k)"
    if a: "unat VIRTUAL_OFFSET \<le> unat a" "unat a + n \<le> unat (managed_frames_address_start s)" and k: "unat k < n" for k
  proof -
    have "unat (a + k) = unat a + unat k"
      using a k unat_bound [of "managed_frames_address_start s"] by (simp add: unat_word_ariths)
    then have "in_image s (a + k)" "in_image s' (a + k)" using a k m by (simp_all add: in_image_def)
    with im show ?thesis by (simp add: kernel_image_def)
  qed
  then show "same_bytes (mem s') a (mem s) a n"
    using assms(3) kept_same [OF assms(4) _ _ assms(5)] by (auto simp: stable_def span_def same_bytes_def)
qed

lemma same_cstr:
  assumes "is_cstr m p xs" and "same_bytes m' p m p (Suc (length xs))"
  shows "is_cstr m' p xs"
proof (rule is_cstr_cong [OF assms(1)])
  fix i assume "i \<le> length xs"
  moreover have "length xs < 2 ^ 63" using assms(1) by (simp add: is_cstr_def)
  ultimately have "unat (of_nat i :: u64) < Suc (length xs)" by (simp add: unat_of_nat)
  with assms(2) show "m' (p + of_nat i) = m (p + of_nat i)" by (simp add: same_bytes_def)
qed

lemma kept_cstr:
  assumes "is_cstr m name xs" and "kept lo hi m m'" and "lo \<le> unat name" and "unat name + length xs < hi" and "hi \<le> 2 ^ 64"
  shows "is_cstr m' name xs"
  using assms(3-5) by (intro same_cstr [OF assms(1)] kept_same [OF assms(2)]) simp_all

text \<open>The inode object and the name a caller passes, and the volume they are about.\<close>

definition lookup_args :: "mem \<Rightarrow> nat \<Rightarrow> u64 \<Rightarrow> u64 \<Rightarrow> u64 \<Rightarrow> string \<Rightarrow> 'a vheap_scheme \<Rightarrow> bool" where
  "lookup_args P hi dir pos name xs s \<longleftrightarrow> hi \<le> unat dir \<and> unat dir + 256 \<le> unat name \<and>
     same_bytes (mem s) dir P pos 256 \<and> is_cstr (mem s) name xs \<and> xs \<noteq> [] \<and>
     unat name + length xs < unat (free_list s)"

text \<open>The first half of the function: the directory's block in memory and the scan over it.\<close>

lemma lookup_scan:
  fixes s :: "('d, 'a) fsst_scheme"
  assumes mt: "mounted R V D live device q this hi s" and args: "lookup_args P hi dir pos name xs s" and P: "P = partition D"
    and ok: "dir_ok P (ucast (disk_block_size P)) (file_pos P pos)"
    and room: "unat (free_list s) + lookup_cost P + 16 \<le> heap_limit"
  obtains data s1 s2 where "kalloc (ucast (disk_block_size P)) s = Some (data, s1)"
    "blk_read V device (file_pos P pos) (ucast (disk_block_size P)) data s1 = Some (0, s2)"
    "mounted R V D live device q this hi s1" "i_block0 (mem s1) dir = i_block0 P pos"
    "mounted R V D live device q this hi s2" "kept hi (unat (free_list s)) (mem s) (mem s2)"
    "unat (free_list s2) = unat (free_list s) + 16 + unat (disk_block_size P) + read_cost (ucast (disk_block_size P))"
    "vio_only s s2" "is_cstr (mem s2) name xs"
    "\<forall>i. dir_find P (ucast (disk_block_size P)) (file_pos P pos) xs = Some i \<longrightarrow>
       scan_dir data name 0 0 (mem s2) = Some (entry_at (mem s2) data i, of_nat i) \<and> i < 10 \<and>
       entry_inode (mem s2) (entry_at (mem s2) data i) = entry_inode P (entry_at P (file_pos P pos) i)"
    "dir_find P (ucast (disk_block_size P)) (file_pos P pos) xs = None \<longrightarrow> (\<exists>e. scan_dir data name 0 0 (mem s2) = Some (e, 10))"
proof -
  let ?bs = "ucast (disk_block_size P) :: u64"
  have a: "hi \<le> unat dir" "unat dir + 256 \<le> unat name" "same_bytes (mem s) dir P pos 256" "is_cstr (mem s) name xs" "xs \<noteq> []"
    "unat name + length xs < unat (free_list s)" using args by (simp_all add: lookup_args_def)
  note g = mounted_fields(1) [OF mt, folded P]
  note b = block_size_facts [OF g]
  have fb: "unat (free_list s) \<le> 2 ^ 64" using unat_bound [of "free_list s"] by simp
  have r1: "unat (free_list s) + unat ?bs + 32 \<le> heap_limit" using room by (simp add: lookup_cost_def b(4) read_cost_def)
  obtain data s1 where s1: "kalloc ?bs s = Some (data, s1)" "mounted R V D live device q this hi s1"
    "unat data = unat (free_list s) + 16" "unat (free_list s1) = unat (free_list s) + 16 + unat ?bs" "free_list s1 = data + ?bs"
    "kept hi (unat (free_list s)) (mem s) (mem s1)" "heap_only s s1"
    by (rule mounted_kalloc [OF mt r1])
  have "same_bytes (mem s1) dir (mem s) dir 256" using a by (intro kept_same [OF s1(6) _ _ fb]) simp_all
  from same_fields(3) [OF same_bytes_trans [OF this a(3)], of 40] have blk: "i_block0 (mem s1) dir = i_block0 P pos"
    by (simp add: i_block0_def)
  have rd: "readable (file_pos P pos) ?bs" using b(2,4) by (intro readable_block [OF g]) simp
  have hd: "hi \<le> unat data" "unat data + unat ?bs \<le> unat (free_list s1)" using s1(3,4) mounted_top(2) [OF mt] by simp_all
  have r2: "unat (free_list s1) + read_cost ?bs + 16 \<le> heap_limit" using room s1(4) b(4) by (simp add: lookup_cost_def)
  obtain s2 where s2: "blk_read V device (file_pos P pos) ?bs data s1 = Some (0, s2)" "mounted R V D live device q this hi s2"
    "unat (free_list s2) = unat (free_list s1) + read_cost ?bs" "same_bytes (mem s2) data (partition D) (file_pos P pos) (unat ?bs)"
    "kept hi (unat data) (mem s1) (mem s2)" "vio_only s1 s2" "ld64 (mem s2) (free_list s1) = 512 * (?bs div 512 + 1)"
    by (rule mounted_read [OF s1(2) hd rd r2])
  have k: "kept hi (unat (free_list s)) (mem s) (mem s2)" using s1(3) by (intro kept_trans [OF s1(6) s2(5)]) simp
  have c: "is_cstr (mem s2) name xs" using a mounted_top(2) [OF mt] by (intro kept_cstr [OF a(4) k _ _ fb]) simp_all
  have "unat (512 * (?bs div 512 + 1)) < 2 ^ 32"
  proof -
    have "unat ?bs < 67108864" using b(2,4) by simp
    then show ?thesis by (simp add: unat_word_ariths unat_div)
  qed
  note sc = scan_copied_dir [OF s2(4) [folded P] ok _ this c a(5)]
  show ?thesis
    using that [OF s1(1) s2(1) s1(2) blk s2(2) k] s2(3,7) s1(4,5) b(4) c sc
      vio_only_trans [OF vio_only_intros(2) [OF s1(7)] s2(6)] by simp
qed

definition lookup_ready :: "mem \<Rightarrow> u64 \<Rightarrow> string \<Rightarrow> bool" where
  "lookup_ready P pos xs \<longleftrightarrow> is_directory P pos \<longrightarrow> dir_ok P (ucast (disk_block_size P)) (file_pos P pos) \<and>
     (\<forall>i. dir_find P (ucast (disk_block_size P)) (file_pos P pos) xs = Some i \<longrightarrow>
        inode_group P (entry_inode P (entry_at P (file_pos P pos) i)) < unat (disk_groups P))"

lemma get_inode_in_dir_ok:
  fixes s :: "('d, 'a) fsst_scheme"
  assumes mt: "mounted R V D live device q this hi s" and args: "lookup_args P hi dir pos name xs s" and P: "P = partition D"
    and ok: "lookup_ready P pos xs" and room: "unat (free_list s) + lookup_cost P + 16 \<le> heap_limit"
  obtains s' where "get_inode_in_dir V this dir name s = Some (if dir_lookup P pos xs = None then - 1 else 0, s')"
    "mounted R V D live device q this hi s'" "unat (free_list s) \<le> unat (free_list s')"
    "unat (free_list s') \<le> unat (free_list s) + lookup_cost P"
    "same_bytes (mem s') dir P (step_pos P pos xs) 256"
    "kept hi (unat dir) (mem s) (mem s')" "kept (unat dir + 256) (unat (free_list s)) (mem s) (mem s')" "vio_only s s'"
proof -
  let ?bs = "ucast (disk_block_size P) :: u64"
  define s0 where "s0 = log FS ''Getting inode of dir %s'' [VStr (cstr (mem s) name)] s"
  have s0: "mounted R V D live device q this hi s0" "lookup_args P hi dir pos name xs s0" "mem s0 = mem s" "free_list s0 = free_list s" "vio_only s s0"
    using mt args by (simp_all add: s0_def log_eq lookup_args_def vio_only_intros)
  have a: "hi \<le> unat dir" "unat dir + 256 \<le> unat name" "same_bytes (mem s) dir P pos 256" "unat name + length xs < unat (free_list s)"
    using args by (simp_all add: lookup_args_def)
  have mode: "i_mode (mem s) dir = i_mode P pos" using same_fields_0(2) [OF a(3)] by (simp add: i_mode_def)
  show ?thesis
  proof (cases "is_directory P pos")
    case False
    have run: "get_inode_in_dir V this dir name s = Some (- 1, log ERROR
        ''get_inode_in_dir can only be called on directories, you called it on %s'' [VStr (cstr (mem s0) name)] s0)"
      using False mode s0(3) by (simp add: get_inode_in_dir_def s0_def [symmetric] Let_def is_directory_def)
    have l: "dir_lookup P pos xs = None" using False by (simp add: dir_lookup_def)
    have "get_inode_in_dir V this dir name s = Some (if dir_lookup P pos xs = None then - 1 else 0, log ERROR
        ''get_inode_in_dir can only be called on directories, you called it on %s'' [VStr (cstr (mem s0) name)] s0)"
      using run l by simp
    from that [OF this] show ?thesis
      using l s0(1,3-5) a(3) vio_only_trans [OF s0(5) vio_only_intros(4)] by (simp add: log_eq step_pos_def)
  next
    case True
    have lr: "dir_ok P ?bs (file_pos P pos)" "\<And>i. dir_find P ?bs (file_pos P pos) xs = Some i \<Longrightarrow>
        inode_group P (entry_inode P (entry_at P (file_pos P pos) i)) < unat (disk_groups P)"
      using ok True by (simp_all add: lookup_ready_def)
    have r0: "unat (free_list s0) + lookup_cost P + 16 \<le> heap_limit" using room s0(4) by simp
    obtain data s1 s2 where t: "kalloc ?bs s0 = Some (data, s1)" "blk_read V device (file_pos P pos) ?bs data s1 = Some (0, s2)"
      "mounted R V D live device q this hi s1" "i_block0 (mem s1) dir = i_block0 P pos"
      "mounted R V D live device q this hi s2" "kept hi (unat (free_list s0)) (mem s0) (mem s2)"
      "unat (free_list s2) = unat (free_list s0) + 16 + unat (disk_block_size P) + read_cost ?bs"
      "vio_only s0 s2" "is_cstr (mem s2) name xs"
      "\<forall>i. dir_find P ?bs (file_pos P pos) xs = Some i \<longrightarrow>
         scan_dir data name 0 0 (mem s2) = Some (entry_at (mem s2) data i, of_nat i) \<and> i < 10 \<and>
         entry_inode (mem s2) (entry_at (mem s2) data i) = entry_inode P (entry_at P (file_pos P pos) i)"
      "dir_find P ?bs (file_pos P pos) xs = None \<longrightarrow> (\<exists>e. scan_dir data name 0 0 (mem s2) = Some (e, 10))"
      by (rule lookup_scan [OF s0(1,2) P lr(1) r0])
    note f0 = mounted_fields [OF s0(1), folded P] and f1 = mounted_fields [OF t(3), folded P] and f2 = mounted_fields [OF t(5), folded P]
    have pre: "get_inode_in_dir V this dir name s = do {
        (e, counter) \<leftarrow> scan_dir data name 0 0 (mem s2);
        if counter = 10 then Some (- 1, log ERROR ''Could not find the file %s.'' [VStr (cstr (mem s2) name)] s2)
        else do {
          (_, s) \<leftarrow> blk_read V device (inode_offset (mem s2) this (entry_inode (mem s2) e)) 256 dir s2;
          Some (0, s)
        }}"
      using True mode s0(3) t(1,2,4) f0(3) f1(2,3) f2(1,2,4)
      by (simp add: get_inode_in_dir_def s0_def [symmetric] Let_def is_directory_def file_pos_def geometry_ok_def sizeof_EXT2Inode_def
          cong: if_cong)
    show ?thesis
    proof (cases "dir_find P ?bs (file_pos P pos) xs")
      case None
      then obtain e where e: "scan_dir data name 0 0 (mem s2) = Some (e, 10)" using t(11) by blast
      have l: "dir_lookup P pos xs = None" using None by (simp add: dir_lookup_def)
      have "kept hi (unat dir) (mem s) (mem s2)" "kept (unat dir + 256) (unat (free_list s)) (mem s) (mem s2)"
        using t(6) a unfolding s0(3,4) by (auto intro: kept_mono)
      moreover have "vio_only s (log ERROR ''Could not find the file %s.'' [VStr (cstr (mem s2) name)] s2)"
        unfolding log_eq by (rule vio_only_trans [OF vio_only_trans [OF s0(5) t(8)] vio_only_intros(4)])
      moreover have "same_bytes (mem s2) dir (mem s0) dir 256"
        using a s0(4) unat_bound [of "free_list s"] by (intro kept_same [OF t(6)]) simp_all
      ultimately show ?thesis
        using pre e l t(5,7) s0(3,4) same_bytes_trans [OF _ a(3)] by (intro that) (simp_all add: log_eq lookup_cost_def step_pos_def)
    next
      case (Some i)
      let ?ino = "entry_inode P (entry_at P (file_pos P pos) i)"
      have e: "scan_dir data name 0 0 (mem s2) = Some (entry_at (mem s2) data i, of_nat i)" "i < 10"
        "entry_inode (mem s2) (entry_at (mem s2) data i) = ?ino" using t(10) Some by blast+
      have i10: "(of_nat i :: u64) \<noteq> 10" using e(2) by (simp add: word_unat_eq_iff unat_of_nat)
      have off: "inode_offset (mem s2) this ?ino = inode_pos P ?ino" by (rule f2(5) [OF lr(2) [OF Some]])
      have l: "dir_lookup P pos xs = Some (inode_pos P ?ino)" using Some True by (simp add: dir_lookup_def)
      have db: "unat dir + unat (256 :: u64) \<le> unat (free_list s2)" using a t(7) s0(4) by simp
      have rm: "unat (free_list s2) + read_cost 256 + 16 \<le> heap_limit" using room t(7) s0(4) by (simp add: lookup_cost_def)
      obtain s3 where s3: "blk_read V device (inode_pos P ?ino) 256 dir s2 = Some (0, s3)" "mounted R V D live device q this hi s3"
        "unat (free_list s3) = unat (free_list s2) + read_cost 256"
        "same_bytes (mem s3) dir (partition D) (inode_pos P ?ino) (unat (256 :: u64))"
        "kept hi (unat dir) (mem s2) (mem s3)" "kept (unat dir + unat (256 :: u64)) (unat (free_list s2)) (mem s2) (mem s3)" "vio_only s2 s3"
        by (rule mounted_read [OF t(5) a(1) db readable_inode [OF f0(1)] rm])
      have "kept hi (unat dir) (mem s) (mem s2)" "kept (unat dir + 256) (unat (free_list s)) (mem s) (mem s2)"
        using t(6) a unfolding s0(3,4) by (auto intro: kept_mono)
      then have "kept hi (unat dir) (mem s) (mem s3)" "kept (unat dir + 256) (unat (free_list s)) (mem s) (mem s3)"
        using s3(5,6) t(7) s0(4) by (auto intro: kept_trans)
      moreover have "vio_only s s3" by (rule vio_only_trans [OF vio_only_trans [OF s0(5) t(8)] s3(7)])
      ultimately show ?thesis
        using pre e i10 off l s3(1-4) t(7) s0(4) P by (intro that) (simp_all add: lookup_cost_def step_pos_def)
    qed
  qed
qed

section \<open>Following a path\<close>

lemma copy_name_ok:
  fixes s :: "('d, 'a) fsst_scheme"
  assumes mt: "mounted R V D live device q this hi s"
    and c: "load_bytes (mem s) src (length c) = map byte_of_char c" "CHR 0x00 \<notin> set c" "c \<noteq> []"
    and src: "stable hi (unat (free_list s)) s src (length c)"
    and room: "unat (free_list s) + length c + 33 \<le> heap_limit"
  obtains name s' where "copy_name src (of_nat (length c)) s = Some (name, s')" "mounted R V D live device q this hi s'"
    "is_cstr (mem s') name c" "unat name = unat (free_list s) + 16" "unat (free_list s') = unat (free_list s) + 17 + length c"
    "kept hi (unat (free_list s)) (mem s) (mem s')" "vio_only s s'"
proof -
  have l: "length c < 2 ^ 63" using room heap_base [OF mounted_top(5) [OF mt]] by (simp add: heap_limit_def)
  have ul: "unat (of_nat (length c) :: u64) = length c" "unat (of_nat (length c) + 1 :: u64) = length c + 1"
    using l by (simp_all add: unat_word_ariths unat_of_nat)
  have r: "unat (free_list s) + unat (of_nat (length c) + 1 :: u64) + 32 \<le> heap_limit" using room ul(2) by simp
  have tp: "hi \<le> unat (free_list s)" "unat (free_list s) \<le> 2 ^ 64"
    using mounted_top(2) [OF mt] unat_bound [of "free_list s"] by simp_all
  obtain name s1 where s1: "kalloc (of_nat (length c) + 1) s = Some (name, s1)" "mounted R V D live device q this hi s1"
    "unat name = unat (free_list s) + 16" "unat (free_list s1) = unat (free_list s) + 16 + unat (of_nat (length c) + 1 :: u64)"
    "kept hi (unat (free_list s)) (mem s) (mem s1)" "heap_only s s1"
    by (rule mounted_kalloc [OF mt r])
  have "same_bytes (mem s1) src (mem s) src (length c)"
    by (rule stable_same [OF mt s1(2) src s1(5) tp(2)])
  then have ld: "load_bytes (mem s1) src (length c) = map byte_of_char c"
    using same_load_bytes [of "mem s1" src "mem s" src "length c" "length c"] l c(1) by simp
  have "disj name (unat (of_nat (length c) :: u64)) src (unat (of_nat (length c) :: u64))"
    unfolding ul using s1(3,4) stable_below [OF mt src order_refl] ul(2) c(3) unat_bound [of "free_list s1"] tp by (intro disj_nat) simp_all
  from memcpy_loop_eq [OF this, of 0 "mem s1"] have cp: "memcpy_loop name src (of_nat (length c)) 0 (mem s1) =
      store_bytes (mem s1) name (map byte_of_char c)" using ld by (simp add: ul(1))
  let ?bs = "map byte_of_char c @ [0]"
  have "length (map byte_of_char c @ [0 :: u8]) \<le> 2 ^ 64" using l by simp
  from store_bytes_snoc [OF this, of "mem s1" name]
  have run: "copy_name src (of_nat (length c)) s = Some (name, s1\<lparr>mem := store_bytes (mem s1) name ?bs\<rparr>)"
    using s1(1) cp by (simp add: copy_name_def put8_def)
  have nb: "hi \<le> unat name" "unat name + length ?bs \<le> unat (free_list s1)" using s1(3,4) tp ul(2) by simp_all
  note st = mounted_store [OF s1(2) nb]
  have k: "kept hi (unat (free_list s)) (mem s) (store_bytes (mem s1) name ?bs)"
    using s1(3) by (intro kept_trans [OF s1(5) st(2)]) simp
  have "vio_only s (s1\<lparr>mem := store_bytes (mem s1) name ?bs\<rparr>)"
    by (rule vio_only_trans [OF vio_only_intros(2) [OF s1(6)] vio_only_intros(3)])
  then show ?thesis
    using that [OF run st(1)] is_cstr_store [OF l c(2), of "mem s1" name] s1(3,4) ul(2) k by simp
qed

text \<open>A path is a sequence of names, each after a separator.\<close>

definition path_text :: "string list \<Rightarrow> string" where
  "path_text cs = concat (map ((#) (CHR ''/'')) cs)"

definition component_ok :: "string \<Rightarrow> bool" where
  "component_ok c \<longleftrightarrow> c \<noteq> [] \<and> CHR ''/'' \<notin> set c \<and> CHR 0x00 \<notin> set c"

fun path_ready :: "mem \<Rightarrow> u64 \<Rightarrow> string list \<Rightarrow> bool" where
  "path_ready P pos [] \<longleftrightarrow> True"
| "path_ready P pos (c # cs) \<longleftrightarrow> lookup_ready P pos c \<and>
     (\<forall>pos'. dir_lookup P pos c = Some pos' \<longrightarrow> path_ready P pos' cs)"

definition path_cost :: "mem \<Rightarrow> string list \<Rightarrow> nat" where
  "path_cost P cs = (\<Sum>c \<leftarrow> cs. 17 + length c + lookup_cost P)"

text \<open>The loop and what follows it, from a given position.\<close>

definition follow_path ::
  "'d vio_ops \<Rightarrow> u64 \<Rightarrow> u64 \<Rightarrow> u64 \<Rightarrow> u64 \<Rightarrow> u64 \<Rightarrow> u64 \<Rightarrow> ('d, 'a) fsst_scheme \<Rightarrow> (int \<times> ('d, 'a) fsst_scheme) option" where
  "follow_path V this dir path path_length current sz s = do {
     (r, s) \<leftarrow> path_loop (get_inode_in_dir V this dir) path path_length current sz s;
     case r of
       Failed res \<Rightarrow> Some (res, s)
     | Ends_in_folder \<Rightarrow> Some (0, s)
     | File_left current sz \<Rightarrow> do {
         (file_name, s) \<leftarrow> copy_name (path + current - sz) sz s;
         (res, s) \<leftarrow> get_inode_in_dir V this dir file_name s;
         if res < 0 then Some (res, s) else Some (0, s)
       }
   }"

lemma get_inode_from_dir_follow:
  assumes "is_cstr (mem s) path ps"
  shows "get_inode_from_dir V this dir path s = follow_path V this dir path (of_nat (length ps)) 0 0
    (log FS ''Getting inode of file: %s'' [VStr (cstr (mem s) path)] s)"
  using strlen_cstr [OF assms] by (simp add: get_inode_from_dir_def follow_path_def Let_def)

lemma path_chars:
  assumes "is_cstr (mem s) path ps" and "drop i ps = c @ rest" and "CHR ''/'' \<notin> set c"
  shows "path_loop look path n (of_nat i) sz s = path_loop look path n (of_nat (i + length c)) (sz + of_nat (length c)) s"
  using assms(2,3)
proof (induction c arbitrary: i sz)
  case (Cons x c)
  have i: "i < length ps" using Cons.prems(1) by (metis append_Cons drop_all leI list.distinct(1))
  have x: "ps ! i = x" using Cons.prems(1) i by (metis append_Cons hd_drop_conv_nth list.sel(1))
  have "mem s (path + of_nat i) = byte_of_char x" "x \<noteq> CHR 0x00"
    using assms(1) i x nth_mem [OF i] by (auto simp: is_cstr_def)
  moreover have "byte_of_char x \<noteq> byte_of_char (CHR ''/'')"
    using Cons.prems(2) by (metis char_of_byte_of_char list.set_intros(1))
  ultimately have "path_loop look path n (of_nat i) sz s = path_loop look path n (of_nat i + 1) (sz + 1) s"
    by (subst path_loop.simps) simp
  also have "\<dots> = path_loop look path n (of_nat (Suc i)) (sz + 1) s" by (simp add: add.commute)
  also have "\<dots> = path_loop look path n (of_nat (Suc i + length c)) (sz + 1 + of_nat (length c)) s"
  proof (rule Cons.IH)
    show "drop (Suc i) ps = c @ rest" using Cons.prems(1) by (metis append_Cons drop_Suc list.sel(3) tl_drop)
    show "CHR ''/'' \<notin> set c" using Cons.prems(2) by simp
  qed
  finally show ?case by (simp add: add.assoc)
qed simp

text \<open>A caller's inode object and the path it follows, in this order on the heap.\<close>

definition walk_args :: "mem \<Rightarrow> nat \<Rightarrow> u64 \<Rightarrow> u64 \<Rightarrow> u64 \<Rightarrow> string \<Rightarrow> 'a vheap_scheme \<Rightarrow> bool" where
  "walk_args P hi dir pos path ps s \<longleftrightarrow> hi \<le> unat dir \<and> is_cstr (mem s) path ps \<and> stable hi (unat dir) s path (Suc (length ps)) \<and>
     unat dir + 256 \<le> unat (free_list s) \<and> same_bytes (mem s) dir P pos 256"

lemma walk_args_kept:
  assumes "walk_args P hi dir pos path ps s" and "kept hi (unat dir) (mem s) (mem s')" and "unat (free_list s) \<le> unat (free_list s')"
    and "same_bytes (mem s') dir P pos' 256" and "mounted R V D live device q this hi s" "mounted R V D live device q this hi s'"
  shows "walk_args P hi dir pos' path ps s'"
proof -
  have "stable hi (unat dir) s path (Suc (length ps))" using assms(1) by (simp add: walk_args_def)
  note st = stable_same [OF assms(5,6) this assms(2)]
  then show ?thesis
    using assms(1,3,4) same_cstr [of "mem s" path ps "mem s'"] unat_bound [of dir] by (simp add: walk_args_def)
qed

lemma component_lookup:
  fixes s :: "('d, 'a) fsst_scheme"
  assumes mt: "mounted R V D live device q this hi s" and args: "walk_args P hi dir pos path ps s" and P: "P = partition D"
    and c: "drop i ps = c @ rest" "component_ok c" "lookup_ready P pos c"
    and room: "unat (free_list s) + 17 + length c + lookup_cost P + 16 \<le> heap_limit"
  obtains name s1 s' where "copy_name (path + of_nat i) (of_nat (length c)) s = Some (name, s1)"
    "get_inode_in_dir V this dir name s1 = Some (if dir_lookup P pos c = None then - 1 else 0, s')"
    "mounted R V D live device q this hi s'" "unat (free_list s) \<le> unat (free_list s')"
    "unat (free_list s') \<le> unat (free_list s) + 17 + length c + lookup_cost P"
    "walk_args P hi dir (step_pos P pos c) path ps s'"
    "kept hi (unat dir) (mem s) (mem s')" "kept (unat dir + 256) (unat (free_list s)) (mem s) (mem s')" "vio_only s s'"
proof -
  have a: "hi \<le> unat dir" "is_cstr (mem s) path ps" "stable hi (unat dir) s path (Suc (length ps))" "unat dir + 256 \<le> unat (free_list s)"
    "same_bytes (mem s) dir P pos 256" using args by (simp_all add: walk_args_def)
  have il: "i + length c \<le> length ps"
    using arg_cong [OF c(1), of length] c(2) by (cases "i \<le> length ps") (simp_all add: component_ok_def)
  have "stable hi (unat dir) s (path + of_nat i) (length c)"
    using il unat_bound [of dir] by (intro stable_sub [OF a(3)]) simp_all
  then have sc: "stable hi (unat (free_list s)) s (path + of_nat i) (length c)" by (rule stable_mono) (use a(4) in simp)
  have "load_bytes (mem s) (path + of_nat i) (length c) = map byte_of_char c"
  proof (rule nth_equalityI)
    fix j assume "j < length (load_bytes (mem s) (path + of_nat i) (length c))"
    then have j: "j < length c" by simp
    then have "c ! j = ps ! (i + j)" using arg_cong [OF c(1), of "\<lambda>xs. xs ! j"] il by (simp add: nth_append)
    moreover have "mem s (path + of_nat (i + j)) = byte_of_char (ps ! (i + j))"
      using a(2) il j unfolding is_cstr_def by (metis add_less_cancel_left order_less_le_trans)
    ultimately show "load_bytes (mem s) (path + of_nat i) (length c) ! j = map byte_of_char c ! j"
      using j by (simp add: add.assoc)
  qed simp
  moreover have "CHR 0x00 \<notin> set c" "c \<noteq> []" using c(2) by (simp_all add: component_ok_def)
  moreover note sc
  moreover have "unat (free_list s) + length c + 33 \<le> heap_limit" using room by simp
  ultimately obtain name s1 where s1: "copy_name (path + of_nat i) (of_nat (length c)) s = Some (name, s1)"
    "mounted R V D live device q this hi s1" "is_cstr (mem s1) name c" "unat name = unat (free_list s) + 16"
    "unat (free_list s1) = unat (free_list s) + 17 + length c" "kept hi (unat (free_list s)) (mem s) (mem s1)" "vio_only s s1"
    by (rule copy_name_ok [OF mt])
  have "same_bytes (mem s1) dir (mem s) dir 256"
    using a(1,4) unat_bound [of "free_list s"] by (intro kept_same [OF s1(6)]) simp_all
  then have la: "lookup_args P hi dir pos name c s1"
    using a s1(3-5) c(2) same_bytes_trans [OF _ a(5)] by (simp add: lookup_args_def component_ok_def)
  have rm: "unat (free_list s1) + lookup_cost P + 16 \<le> heap_limit" using room s1(5) by simp
  obtain s' where s': "get_inode_in_dir V this dir name s1 = Some (if dir_lookup P pos c = None then - 1 else 0, s')"
    "mounted R V D live device q this hi s'" "unat (free_list s1) \<le> unat (free_list s')"
    "unat (free_list s') \<le> unat (free_list s1) + lookup_cost P"
    "same_bytes (mem s') dir P (step_pos P pos c) 256"
    "kept hi (unat dir) (mem s1) (mem s')" "kept (unat dir + 256) (unat (free_list s1)) (mem s1) (mem s')" "vio_only s1 s'"
    by (rule get_inode_in_dir_ok [OF s1(2) la P c(3) rm])
  have k1: "kept hi (unat dir) (mem s) (mem s')"
    using a(4) by (intro kept_trans [OF kept_mono [OF s1(6)] s'(6)]) simp_all
  have k2: "kept (unat dir + 256) (unat (free_list s)) (mem s) (mem s')"
    using s1(5) a(1) by (intro kept_trans [OF kept_mono [OF s1(6)] s'(7)]) simp_all
  have fl: "unat (free_list s) \<le> unat (free_list s')" using s1(5) s'(3) by linarith
  have "walk_args P hi dir (step_pos P pos c) path ps s'"
    by (rule walk_args_kept [OF args k1 fl s'(5) mt s'(2)])
  then show ?thesis
    using that [OF s1(1) s'(1,2) fl _ _ k1 k2 vio_only_trans [OF s1(7) s'(8)]] s'(4) s1(5) by simp
qed

lemma follow_last:
  assumes "is_cstr (mem s) path ps" and "drop i ps = c" and "CHR ''/'' \<notin> set c" and "i \<le> length ps"
  shows "follow_path V this dir path n (of_nat i) 0 s = do {
    (file_name, s) \<leftarrow> copy_name (path + of_nat i) (of_nat (length c)) s;
    (res, s) \<leftarrow> get_inode_in_dir V this dir file_name s;
    if res < 0 then Some (res, s) else Some (0, s) }"
proof -
  have l: "i + length c = length ps" using assms(2,4) by auto
  have "mem s (path + of_nat (length ps)) = 0" using assms(1) by (simp add: is_cstr_def)
  then have loop: "path_loop (get_inode_in_dir V this dir) path n (of_nat i) 0 s = Some (File_left (of_nat (length ps)) (of_nat (length c)), s)"
    using path_chars [OF assms(1), of i c "[]" "get_inode_in_dir V this dir" n 0] assms(2,3) l
    by (simp add: path_loop.simps)
  have pe: "path + of_nat (length ps) - of_nat (length c) = path + of_nat i" by (simp flip: l)
  show ?thesis unfolding follow_path_def loop by (simp only: Option.bind.bind_lunit split_conv walk.case pe)
qed

lemma follow_folder:
  assumes "is_cstr (mem s) path ps" and "drop i ps = c @ CHR ''/'' # rest" and "CHR ''/'' \<notin> set c" and "0 < i"
    and "rest \<noteq> []" and "hd rest \<noteq> CHR ''/''"
    and look: "copy_name (path + of_nat i) (of_nat (length c)) (printf (''getting inode in  loop, pathlength: %i, current: %i'' @ [CHR 0x0A])
        [VInt (of_nat (length ps)), VInt (of_nat (i + length c + 1))] s) = Some (name, s1)"
      "get_inode_in_dir V this dir name s1 = Some (res, s2)" and ps2: "is_cstr (mem s2) path ps"
  shows "follow_path V this dir path (of_nat (length ps)) (of_nat i) 0 s =
    (if res < 0 then Some (res, s2) else follow_path V this dir path (of_nat (length ps)) (of_nat (i + length c + 1)) 0 s2)"
proof -
  let ?look = "get_inode_in_dir V this dir" and ?n = "of_nat (length ps) :: u64" and ?j = "i + length c"
  have jl: "?j < length ps" "Suc ?j \<noteq> length ps" "drop (Suc ?j) ps = rest"
  proof -
    have d: "drop ?j ps = CHR ''/'' # rest" using arg_cong [OF assms(2), of "drop (length c)"] by (simp add: add.commute)
    then show j: "?j < length ps" by (metis drop_all leI list.distinct(1))
    show "drop (Suc ?j) ps = rest" using d by (metis drop_Suc list.sel(3) tl_drop)
    then show "Suc ?j \<noteq> length ps" using assms(5) by auto
  qed
  have lp: "length ps < 2 ^ 63" using assms(1) by (simp add: is_cstr_def)
  have uj: "unat (of_nat ?j :: u64) = ?j" "unat (of_nat (Suc ?j) :: u64) = Suc ?j" "unat ?n = length ps"
    using jl(1) lp by (simp_all add: unat_of_nat del: of_nat_Suc of_nat_add)
  have nz: "(of_nat ?j :: u64) \<noteq> 0" "?n \<noteq> of_nat (Suc ?j)"
    using uj assms(4) jl(2) by (auto simp del: of_nat_Suc of_nat_add)
  have ch: "mem s (path + of_nat ?j) = byte_of_char (CHR ''/'')"
  proof -
    have "ps ! ?j = CHR ''/''" using arg_cong [OF assms(2), of "\<lambda>xs. xs ! length c"] jl(1) by simp
    then show ?thesis using assms(1) jl(1) unfolding is_cstr_def by metis
  qed
  have sl: "byte_of_char (CHR ''/'') \<noteq> 0" by simp
  have pa: "path + (of_nat ?j + 1) - of_nat (length c) - 1 = path + of_nat i" by simp
  have skip: "path_loop ?look path ?n (of_nat ?j + 1 + 1) 1 s2 = path_loop ?look path ?n (of_nat (?j + 1)) 0 s2"
  proof -
    have "drop (?j + 1) ps = [hd rest] @ tl rest" using jl(3) assms(5) by simp
    from path_chars [OF ps2 this, of ?look ?n 0] assms(6) show ?thesis by (simp add: add.commute add.left_commute)
  qed
  have look': "copy_name (path + of_nat i) (of_nat (length c)) (printf (''getting inode in  loop, pathlength: %i, current: %i'' @ [CHR 0x0A])
        [VInt ?n, VInt (of_nat ?j + 1)] s) = Some (name, s1)" using look(1) by (simp add: add.commute)
  have nz': "?n \<noteq> of_nat ?j + 1" using nz(2) by (simp add: add.commute)
  have "path_loop ?look path ?n (of_nat i) 0 s = path_loop ?look path ?n (of_nat ?j) (of_nat (length c)) s"
    using path_chars [OF assms(1,2,3), of ?look ?n 0] by simp
  also have "\<dots> = (if res < 0 then Some (Failed res, s2) else path_loop ?look path ?n (of_nat (?j + 1)) 0 s2)"
    using look(2) look' nz(1) nz' skip
    by (subst path_loop.simps) (simp only: ch sl if_True if_False Let_def pa Option.bind.bind_lunit split_conv simp_thms)
  finally show ?thesis by (simp add: follow_path_def add.commute add.left_commute)
qed

lemma follow_components:
  fixes s :: "('d, 'a) fsst_scheme"
  assumes "mounted R V D live device q this hi s" and "walk_args P hi dir pos path ps s" and P: "P = partition D"
    and "drop i ps = c @ path_text cs" and "0 < i" and "path_ready P pos (c # cs)" and "list_all component_ok (c # cs)"
    and "unat (free_list s) + path_cost P (c # cs) + 16 \<le> heap_limit"
  shows "\<exists>s'. follow_path V this dir path (of_nat (length ps)) (of_nat i) 0 s =
      Some (if path_lookup P pos (c # cs) = None then - 1 else 0, s') \<and> mounted R V D live device q this hi s' \<and>
    unat (free_list s) \<le> unat (free_list s') \<and> unat (free_list s') \<le> unat (free_list s) + path_cost P (c # cs) \<and>
    walk_args P hi dir (path_reach P pos (c # cs)) path ps s' \<and>
    kept hi (unat dir) (mem s) (mem s') \<and> kept (unat dir + 256) (unat (free_list s)) (mem s) (mem s') \<and> vio_only s s'"
  using assms(1,2,4-)
proof (induction cs arbitrary: c i pos s)
  case Nil
  have r: "component_ok c" "lookup_ready P pos c" using Nil.prems(5,6) by simp_all
  have d: "drop i ps = c" "drop i ps = c @ []" using Nil.prems(3) by (simp_all add: path_text_def)
  have rm: "unat (free_list s) + 17 + length c + lookup_cost P + 16 \<le> heap_limit" using Nil.prems(7) by (simp add: path_cost_def)
  obtain name s1 s' where s': "copy_name (path + of_nat i) (of_nat (length c)) s = Some (name, s1)"
    "get_inode_in_dir V this dir name s1 = Some (if dir_lookup P pos c = None then - 1 else 0, s')"
    "mounted R V D live device q this hi s'" "unat (free_list s) \<le> unat (free_list s')"
    "unat (free_list s') \<le> unat (free_list s) + 17 + length c + lookup_cost P"
    "walk_args P hi dir (step_pos P pos c) path ps s'"
    "kept hi (unat dir) (mem s) (mem s')" "kept (unat dir + 256) (unat (free_list s)) (mem s) (mem s')" "vio_only s s'"
    by (rule component_lookup [OF Nil.prems(1,2) P d(2) r rm])
  have "c \<noteq> []" "CHR ''/'' \<notin> set c" using r(1) by (simp_all add: component_ok_def)
  moreover from this have "i \<le> length ps" using d(1) by (metis drop_all nat_le_linear)
  moreover have "is_cstr (mem s) path ps" using Nil.prems(2) by (simp add: walk_args_def)
  ultimately have "follow_path V this dir path (of_nat (length ps)) (of_nat i) 0 s = Some (if dir_lookup P pos c = None then - 1 else 0, s')"
    using follow_last [of s path ps i c V this dir "of_nat (length ps)"] d(1) s'(1,2) by simp
  moreover have "path_lookup P pos [c] = dir_lookup P pos c" by (cases "dir_lookup P pos c") simp_all
  moreover have "path_reach P pos [c] = step_pos P pos c" by (simp add: step_pos_def split: option.split)
  ultimately show ?case using s'(3-9) by (intro exI [of _ s']) (simp add: path_cost_def)
next
  case (Cons d cs)
  let ?i = "i + length c + 1"
  let ?s0 = "printf (''getting inode in  loop, pathlength: %i, current: %i'' @ [CHR 0x0A])
        [VInt (of_nat (length ps)), VInt (of_nat ?i)] s"
  have s0: "mounted R V D live device q this hi ?s0" "walk_args P hi dir pos path ps ?s0" "free_list ?s0 = free_list s" "mem ?s0 = mem s"
    "vio_only s ?s0" using Cons.prems(1,2) by (simp_all add: printf_eq walk_args_def vio_only_intros)
  have r: "component_ok c" "lookup_ready P pos c" "component_ok d" using Cons.prems(5,6) by simp_all
  have dr: "drop i ps = c @ CHR ''/'' # (d @ path_text cs)" using Cons.prems(3) by (simp add: path_text_def)
  have rm: "unat (free_list ?s0) + 17 + length c + lookup_cost P + 16 \<le> heap_limit"
    using Cons.prems(7) s0(3) by (simp add: path_cost_def)
  obtain name s1 t where t: "copy_name (path + of_nat i) (of_nat (length c)) ?s0 = Some (name, s1)"
    "get_inode_in_dir V this dir name s1 = Some (if dir_lookup P pos c = None then - 1 else 0, t)"
    "mounted R V D live device q this hi t" "unat (free_list ?s0) \<le> unat (free_list t)"
    "unat (free_list t) \<le> unat (free_list ?s0) + 17 + length c + lookup_cost P"
    "walk_args P hi dir (step_pos P pos c) path ps t"
    "kept hi (unat dir) (mem ?s0) (mem t)" "kept (unat dir + 256) (unat (free_list ?s0)) (mem ?s0) (mem t)" "vio_only ?s0 t"
    by (rule component_lookup [OF s0(1,2) P dr r(1,2) rm])
  have v: "vio_only s t" by (rule vio_only_trans [OF s0(5) t(9)])
  have fl: "unat (free_list s) \<le> unat (free_list t)" "unat (free_list t) \<le> unat (free_list s) + 17 + length c + lookup_cost P"
    and k: "kept hi (unat dir) (mem s) (mem t)" "kept (unat dir + 256) (unat (free_list s)) (mem s) (mem t)"
    using t(4,5,7,8) unfolding s0(3,4) .
  have cs: "is_cstr (mem s) path ps" "is_cstr (mem t) path ps"
    using Cons.prems(2) t(6) by (simp_all add: walk_args_def)
  have dn: "d @ path_text cs \<noteq> []" "hd (d @ path_text cs) \<noteq> CHR ''/''" "CHR ''/'' \<notin> set c"
    using r(1,3) by (cases d, auto simp: component_ok_def)+
  note f = follow_folder [OF cs(1) dr dn(3) Cons.prems(4) dn(1,2) t(1,2) cs(2)]
  show ?case
  proof (cases "dir_lookup P pos c")
    case None
    with f have "follow_path V this dir path (of_nat (length ps)) (of_nat i) 0 s = Some (- 1, t)" by simp
    then show ?thesis using None t(3,6) fl k v by (intro exI [of _ t]) (simp add: path_cost_def step_pos_def)
  next
    case (Some pos')
    have w: "walk_args P hi dir pos' path ps t" using t(6) Some by (simp add: step_pos_def)
    have pr: "path_ready P pos' (d # cs)" "list_all component_ok (d # cs)" using Cons.prems(5,6) Some by simp_all
    have i: "drop ?i ps = d @ path_text cs" "0 < ?i"
      using arg_cong [OF dr, of "drop (length c + 1)"] by (simp_all add: add.commute)
    have rm': "unat (free_list t) + path_cost P (d # cs) + 16 \<le> heap_limit"
      using Cons.prems(7) fl(2) by (simp add: path_cost_def)
    have lk: "path_lookup P pos (c # d # cs) = path_lookup P pos' (d # cs)"
      "path_reach P pos (c # d # cs) = path_reach P pos' (d # cs)" using Some by simp_all
    have run: "follow_path V this dir path (of_nat (length ps)) (of_nat i) 0 s =
        follow_path V this dir path (of_nat (length ps)) (of_nat ?i) 0 t" using f Some by simp
    from Cons.IH [OF t(3) w i pr rm'] obtain s' where s':
      "follow_path V this dir path (of_nat (length ps)) (of_nat ?i) 0 t = Some (if path_lookup P pos' (d # cs) = None then - 1 else 0, s')"
      "mounted R V D live device q this hi s'" "unat (free_list t) \<le> unat (free_list s')"
      "unat (free_list s') \<le> unat (free_list t) + path_cost P (d # cs)"
      "walk_args P hi dir (path_reach P pos' (d # cs)) path ps s'"
      "kept hi (unat dir) (mem t) (mem s')" "kept (unat dir + 256) (unat (free_list t)) (mem t) (mem s')" "vio_only t s'"
      by blast
    have "unat (free_list s') \<le> unat (free_list s) + path_cost P (c # d # cs)"
      using s'(4) fl(2) by (simp add: path_cost_def)
    moreover have "kept hi (unat dir) (mem s) (mem s')" "kept (unat dir + 256) (unat (free_list s)) (mem s) (mem s')"
      using kept_trans [OF k(1) s'(6)] kept_trans [OF k(2) s'(7)] fl(1) by simp_all
    moreover have "unat (free_list s) \<le> unat (free_list s')" using fl(1) s'(3) by linarith
    ultimately show ?thesis
      unfolding run lk using s'(1,2,5) vio_only_trans [OF v s'(8)] by blast
  qed
qed

lemma get_inode_from_dir_ok:
  fixes s :: "('d, 'a) fsst_scheme"
  assumes mt: "mounted R V D live device q this hi s" and args: "walk_args P hi dir pos path (path_text cs) s" and P: "P = partition D"
    and cs: "cs \<noteq> []" "list_all component_ok cs" "path_ready P pos cs"
    and room: "unat (free_list s) + path_cost P cs + 16 \<le> heap_limit"
  obtains s' where "get_inode_from_dir V this dir path s = Some (if path_lookup P pos cs = None then - 1 else 0, s')"
    "mounted R V D live device q this hi s'" "unat (free_list s) \<le> unat (free_list s')"
    "unat (free_list s') \<le> unat (free_list s) + path_cost P cs" "same_bytes (mem s') dir P (path_reach P pos cs) 256"
    "kept hi (unat dir) (mem s) (mem s')" "kept (unat dir + 256) (unat (free_list s)) (mem s) (mem s')" "vio_only s s'"
proof -
  obtain c ds where c: "cs = c # ds" using cs(1) by (cases cs) auto
  let ?ps = "path_text cs"
  define s0 where "s0 = log FS ''Getting inode of file: %s'' [VStr (cstr (mem s) path)] s"
  have s0: "mounted R V D live device q this hi s0" "walk_args P hi dir pos path ?ps s0" "free_list s0 = free_list s" "mem s0 = mem s" "vio_only s s0"
    using mt args by (simp_all add: s0_def log_eq walk_args_def vio_only_intros)
  have st: "is_cstr (mem s) path ?ps" using args by (simp add: walk_args_def)
  have "?ps ! 0 = CHR ''/''" "0 < length ?ps" by (simp_all add: c path_text_def)
  then have "mem s0 (path + of_nat 0) = byte_of_char (CHR ''/'')" using st unfolding s0(4) is_cstr_def by metis
  then have "path_loop (get_inode_in_dir V this dir) path (of_nat (length ?ps)) 0 0 s0 =
      path_loop (get_inode_in_dir V this dir) path (of_nat (length ?ps)) (of_nat 1) 0 s0" by (subst path_loop.simps) simp
  then have run: "get_inode_from_dir V this dir path s = follow_path V this dir path (of_nat (length ?ps)) (of_nat 1) 0 s0"
    unfolding get_inode_from_dir_follow [OF st] s0_def [symmetric] follow_path_def by simp
  have "drop 1 ?ps = c @ path_text ds" by (simp add: c path_text_def)
  moreover have "unat (free_list s0) + path_cost P (c # ds) + 16 \<le> heap_limit" using room s0(3) c by simp
  ultimately obtain s' where s': "get_inode_from_dir V this dir path s = Some (if path_lookup P pos cs = None then - 1 else 0, s')"
    "mounted R V D live device q this hi s'" "unat (free_list s0) \<le> unat (free_list s')"
    "unat (free_list s') \<le> unat (free_list s0) + path_cost P cs" "walk_args P hi dir (path_reach P pos cs) path ?ps s'"
    "kept hi (unat dir) (mem s0) (mem s')" "kept (unat dir + 256) (unat (free_list s0)) (mem s0) (mem s')" "vio_only s0 s'"
    using follow_components [OF s0(1,2) P _ zero_less_one, of c ds] cs(2,3) unfolding run c by blast
  show ?thesis
    using that [OF s'(1,2)] s'(3-7) vio_only_trans [OF s0(5) s'(8)] unfolding s0(3,4) by (simp add: walk_args_def)
qed

section \<open>Files\<close>

lemma get_root_inode_ok:
  fixes s :: "('d, 'a) fsst_scheme"
  assumes mt: "mounted R V D live device q this hi s" and P: "P = partition D" and rt: "1 < s_inodes_per_group P 1024" "0 < disk_groups P"
    and dir: "hi \<le> unat dir" "unat dir + 256 \<le> unat (free_list s)"
    and room: "unat (free_list s) + read_cost 256 + 16 \<le> heap_limit"
  obtains s' where "get_root_inode V this dir s = Some s'" "mounted R V D live device q this hi s'"
    "unat (free_list s') = unat (free_list s) + read_cost 256" "same_bytes (mem s') dir P (root_pos P) 256"
    "kept hi (unat dir) (mem s) (mem s')" "kept (unat dir + 256) (unat (free_list s)) (mem s) (mem s')" "vio_only s s'"
proof -
  note f = mounted_fields [OF mt, folded P]
  have ig: "inode_group P 2 = 0" "((2 :: u32) - 1) mod s_inodes_per_group P 1024 = 1"
    using rt(1) by (simp_all add: inode_group_def word_less_nat_alt unat_div unat_mod word_unat_eq_iff)
  have "fs_image P (mem s) device this (unat q + 6672) hi" using mt P by (simp add: mounted_def)
  moreover have "0 < unat (disk_groups P)" using rt(2) by (simp add: unat_gt_0 word_neq_0_conv)
  ultimately have "same_bytes (mem s) (fs_group_desc (mem s) this (of_nat 0)) P (group_pos P 0) 32"
    unfolding fs_image_def by blast
  from same_fields(3) [OF this, of 8] have tb: "bg_inode_table (mem s) (fs_group_desc (mem s) this 0) = bg_inode_table P (group_pos P 0)"
    by (simp add: bg_inode_table_def)
  have pos: "ucast (fs_block_size (mem s) this * bg_inode_table (mem s) (fs_group_desc (mem s) this 0)) + sizeof_EXT2Inode * 1 = root_pos P"
    unfolding root_pos_def inode_pos_def ig tb f(3) by (simp add: sizeof_EXT2Inode_def)
  have d: "unat dir + unat (256 :: u64) \<le> unat (free_list s)" using dir(2) by simp
  have rd: "readable (root_pos P) 256" unfolding root_pos_def by (rule readable_inode [OF f(1)])
  obtain s' where s': "blk_read V device (root_pos P) 256 dir s = Some (0, s')" "mounted R V D live device q this hi s'"
    "unat (free_list s') = unat (free_list s) + read_cost 256" "same_bytes (mem s') dir (partition D) (root_pos P) (unat (256 :: u64))"
    "kept hi (unat dir) (mem s) (mem s')" "kept (unat dir + unat (256 :: u64)) (unat (free_list s)) (mem s) (mem s')" "vio_only s s'"
    by (rule mounted_read [OF mt dir(1) d rd room])
  have "get_root_inode V this dir s = Some s'"
    unfolding get_root_inode_def pos f(2) using s'(1) by (simp add: sizeof_EXT2Inode_def)
  then show ?thesis using that [OF _ s'(2,3)] s'(4-7) P by simp
qed

lemma mounted_new:
  fixes s :: "('d, 'a) vio_scheme"
  assumes mt: "mounted R V D live device q this hi s" and room: "unat (free_list s) + unat sz + 32 \<le> heap_limit"
  obtains p s' where "new_zeroed sz s = Some (p, s')" "mounted R V D live device q this hi s'"
    "unat p = unat (free_list s) + 16" "unat (free_list s') = unat (free_list s) + 16 + unat sz"
    "kept hi (unat (free_list s)) (mem s) (mem s')" "heap_only s s'"
proof -
  note tp = mounted_top [OF mt]
  have c: "disk_client R V D live device q s" using mt by (simp add: mounted_def)
  obtain p s' where k: "new_zeroed sz s = Some (p, s')" "disk_client R V D live device q s'"
    "unat p = unat (free_list s) + 16" "unat (free_list s') = unat (free_list s) + 16 + unat sz"
    "kept (unat q + 6672) (unat (free_list s)) (mem s) (mem s')" "heap_only s s'"
    by (rule client_new [OF c room])
  have "mounted R V D live device q this hi s'"
    using k(4) tp(2) by (intro mounted_kept [OF mt k(2)] kept_mono [OF k(5)]) simp_all
  moreover have "kept hi (unat (free_list s)) (mem s) (mem s')" using tp(1) by (intro kept_mono [OF k(5)]) simp_all
  ultimately show ?thesis using that [OF k(1) _ k(3,4)] k(6) by blast
qed

text \<open>What both file operations begin with: the inode a path leads to, in a fresh object.\<close>

definition file_cost :: "mem \<Rightarrow> string list \<Rightarrow> nat" where
  "file_cost P cs = 272 + read_cost 256 + path_cost P cs"

definition file_path :: "nat \<Rightarrow> u64 \<Rightarrow> string list \<Rightarrow> 'a vheap_scheme \<Rightarrow> bool" where
  "file_path hi path cs s \<longleftrightarrow> is_cstr (mem s) path (path_text cs) \<and>
     stable hi (unat (free_list s)) s path (Suc (length (path_text cs))) \<and> cs \<noteq> [] \<and> list_all component_ok cs"

definition volume_ready :: "mem \<Rightarrow> string list \<Rightarrow> bool" where
  "volume_ready P cs \<longleftrightarrow> 1 < s_inodes_per_group P 1024 \<and> 0 < disk_groups P \<and> path_ready P (root_pos P) cs"

lemma file_inode:
  fixes s :: "('d, 'a) fsst_scheme"
  assumes mt: "mounted R V D live device q this hi s" and P: "P = partition D" and path: "file_path hi path cs s"
    and vr: "volume_ready P cs" and room: "unat (free_list s) + file_cost P cs + 16 \<le> heap_limit"
  obtains inode s1 s2 s3 where "new_zeroed sizeof_EXT2Inode s = Some (inode, s1)" "get_root_inode V this inode s1 = Some s2"
    "get_inode_from_dir V this inode path s2 = Some (if path_lookup P (root_pos P) cs = None then - 1 else 0, s3)"
    "mounted R V D live device q this hi s3" "same_bytes (mem s3) inode P (path_reach P (root_pos P) cs) 256"
    "kept hi (unat (free_list s)) (mem s) (mem s3)" "unat (free_list s) \<le> unat (free_list s3)"
    "unat (free_list s3) \<le> unat (free_list s) + file_cost P cs" "vio_only s s3"
proof -
  have fp: "is_cstr (mem s) path (path_text cs)" "stable hi (unat (free_list s)) s path (Suc (length (path_text cs)))"
    "cs \<noteq> []" "list_all component_ok cs" using path by (simp_all add: file_path_def)
  have rt: "1 < s_inodes_per_group P 1024" "0 < disk_groups P" "path_ready P (root_pos P) cs" using vr by (simp_all add: volume_ready_def)
  have fb: "unat (free_list s) \<le> 2 ^ 64" "hi \<le> unat (free_list s)" using unat_bound [of "free_list s"] mounted_top(2) [OF mt] by simp_all
  have sz: "unat sizeof_EXT2Inode = 256" by (simp add: sizeof_EXT2Inode_def)
  have r1: "unat (free_list s) + unat sizeof_EXT2Inode + 32 \<le> heap_limit" using room sz by (simp add: file_cost_def read_cost_def)
  obtain inode s1 where s1: "new_zeroed sizeof_EXT2Inode s = Some (inode, s1)" "mounted R V D live device q this hi s1"
    "unat inode = unat (free_list s) + 16" "unat (free_list s1) = unat (free_list s) + 16 + unat sizeof_EXT2Inode"
    "kept hi (unat (free_list s)) (mem s) (mem s1)" "heap_only s s1"
    by (rule mounted_new [OF mt r1])
  have d: "hi \<le> unat inode" "unat inode + 256 \<le> unat (free_list s1)" "unat (free_list s1) + read_cost 256 + 16 \<le> heap_limit"
    using s1(3,4) fb(2) room sz by (simp_all add: file_cost_def)
  obtain s2 where s2: "get_root_inode V this inode s1 = Some s2" "mounted R V D live device q this hi s2"
    "unat (free_list s2) = unat (free_list s1) + read_cost 256" "same_bytes (mem s2) inode P (root_pos P) 256"
    "kept hi (unat inode) (mem s1) (mem s2)" "vio_only s1 s2"
    by (rule get_root_inode_ok [OF s1(2) P rt(1,2) d])
  have k2: "kept hi (unat (free_list s)) (mem s) (mem s2)" using s1(3) by (intro kept_trans [OF s1(5) s2(5)]) simp
  note st = stable_same [OF mt s2(2) fp(2) k2 fb(1)]
  have "stable hi (unat inode) s2 path (Suc (length (path_text cs)))" by (rule stable_mono [OF st(2)]) (use s1(3) in simp)
  then have wa: "walk_args P hi inode (root_pos P) path (path_text cs) s2"
    using same_cstr [OF fp(1) st(1)] d(1) s1(3,4) s2(3,4) sz by (simp add: walk_args_def)
  have r3: "unat (free_list s2) + path_cost P cs + 16 \<le> heap_limit" using room s1(4) s2(3) sz by (simp add: file_cost_def)
  obtain s3 where s3: "get_inode_from_dir V this inode path s2 = Some (if path_lookup P (root_pos P) cs = None then - 1 else 0, s3)"
    "mounted R V D live device q this hi s3" "unat (free_list s2) \<le> unat (free_list s3)"
    "unat (free_list s3) \<le> unat (free_list s2) + path_cost P cs" "same_bytes (mem s3) inode P (path_reach P (root_pos P) cs) 256"
    "kept hi (unat inode) (mem s2) (mem s3)" "vio_only s2 s3"
    by (rule get_inode_from_dir_ok [OF s2(2) wa P fp(3,4) rt(3) r3])
  have "kept hi (unat (free_list s)) (mem s) (mem s3)" using s1(3) by (intro kept_trans [OF k2 s3(6)]) simp
  then show ?thesis
    using that [OF s1(1) s2(1) s3(1,2,5)] s3(3,4) s2(3) s1(4) sz
      vio_only_trans [OF vio_only_trans [OF vio_only_intros(2) [OF s1(6)] s2(6)] s3(7)] by (simp add: file_cost_def)
qed

text \<open>The two file operations, for files that exist and for paths that end at a missing name.\<close>

lemma get_file_size_ok:
  fixes s :: "('d, 'a) fsst_scheme"
  assumes mt: "mounted R V D live device q this hi s" and P: "P = partition D" and path: "file_path hi path cs s"
    and vr: "volume_ready P cs" and room: "unat (free_list s) + file_cost P cs + 16 \<le> heap_limit"
  obtains s' where "EXT2_get_file_size V this path s = Some (ucast (i_size P (path_reach P (root_pos P) cs)), s')"
    "mounted R V D live device q this hi s'" "kept hi (unat (free_list s)) (mem s) (mem s')"
    "unat (free_list s) \<le> unat (free_list s')" "unat (free_list s') \<le> unat (free_list s) + file_cost P cs" "vio_only s s'"
proof -
  obtain inode s1 s2 s3 where f: "new_zeroed sizeof_EXT2Inode s = Some (inode, s1)" "get_root_inode V this inode s1 = Some s2"
    "get_inode_from_dir V this inode path s2 = Some (if path_lookup P (root_pos P) cs = None then - 1 else 0, s3)"
    "mounted R V D live device q this hi s3" "same_bytes (mem s3) inode P (path_reach P (root_pos P) cs) 256"
    "kept hi (unat (free_list s)) (mem s) (mem s3)" "unat (free_list s) \<le> unat (free_list s3)"
    "unat (free_list s3) \<le> unat (free_list s) + file_cost P cs" "vio_only s s3"
    by (rule file_inode [OF mt P path vr room])
  have "i_size (mem s3) inode = i_size P (path_reach P (root_pos P) cs)"
    using same_fields(3) [OF f(5), of 4] by (simp add: i_size_def)
  then have "EXT2_get_file_size V this path s = Some (ucast (i_size P (path_reach P (root_pos P) cs)), s3)"
    using f(1-3) by (simp add: EXT2_get_file_size_def)
  then show ?thesis by (rule that [OF _ f(4,6-9)])
qed

lemma read_file_ok:
  fixes s :: "('d, 'a) fsst_scheme"
  assumes mt: "mounted R V D live device q this hi s" and P: "P = partition D" and path: "file_path hi path cs s"
    and vr: "volume_ready P cs" and room: "unat (free_list s) + file_cost P cs + read_cost sz + 16 \<le> heap_limit"
    and data: "hi \<le> unat data" "unat data + unat sz \<le> unat (free_list s)"
  obtains s' where "EXT2_read_file V this path sz data s = Some (0, s')" "mounted R V D live device q this hi s'"
    "same_bytes (mem s') data P (file_pos P (path_reach P (root_pos P) cs)) (unat sz)"
    "kept hi (unat data) (mem s) (mem s')" "kept (unat data + unat sz) (unat (free_list s)) (mem s) (mem s')" "vio_only s s'"
    "unat (free_list s) \<le> unat (free_list s')" "unat (free_list s') \<le> unat (free_list s) + file_cost P cs + read_cost sz"
proof -
  let ?pos = "path_reach P (root_pos P) cs"
  have r1: "unat (free_list s) + file_cost P cs + 16 \<le> heap_limit" using room by simp
  obtain inode s1 s2 s3 where f: "new_zeroed sizeof_EXT2Inode s = Some (inode, s1)" "get_root_inode V this inode s1 = Some s2"
    "get_inode_from_dir V this inode path s2 = Some (if path_lookup P (root_pos P) cs = None then - 1 else 0, s3)"
    "mounted R V D live device q this hi s3" "same_bytes (mem s3) inode P ?pos 256"
    "kept hi (unat (free_list s)) (mem s) (mem s3)" "unat (free_list s) \<le> unat (free_list s3)"
    "unat (free_list s3) \<le> unat (free_list s) + file_cost P cs" "vio_only s s3"
    by (rule file_inode [OF mt P path vr r1])
  note g = mounted_fields [OF f(4), folded P]
  have blk: "i_block0 (mem s3) inode = i_block0 P ?pos"
    using same_fields(3) [OF f(5), of 40] by (simp add: i_block0_def)
  have "unat sz < 2 ^ 31"
  proof -
    have "unat sz \<le> read_cost sz" by (simp add: read_cost_def)
    then have "unat sz \<le> 2 ^ 21" using room heap_base [OF mounted_top(5) [OF mt]] by (simp add: heap_limit_def)
    then show ?thesis by simp
  qed
  then have rd: "readable (file_pos P ?pos) sz" by (rule readable_block [OF g(1)])
  have d: "unat data + unat sz \<le> unat (free_list s3)" "unat (free_list s3) + read_cost sz + 16 \<le> heap_limit"
    using data f(7,8) room by simp_all
  obtain s4 where s4: "blk_read V device (file_pos P ?pos) sz data s3 = Some (0, s4)" "mounted R V D live device q this hi s4"
    "unat (free_list s4) = unat (free_list s3) + read_cost sz" "same_bytes (mem s4) data (partition D) (file_pos P ?pos) (unat sz)"
    "kept hi (unat data) (mem s3) (mem s4)" "kept (unat data + unat sz) (unat (free_list s3)) (mem s3) (mem s4)" "vio_only s3 s4"
    by (rule mounted_read [OF f(4) data(1) d(1) rd d(2)])
  let ?s' = "operator_delete_sized inode sizeof_EXT2Inode s4"
  have run: "EXT2_read_file V this path sz data s = Some (0, ?s')"
    using f(1-3) s4(1) g(2,3) blk by (simp add: EXT2_read_file_def file_pos_def)
  have mt': "mounted R V D live device q this hi ?s'" "mem ?s' = mem s4" "free_list ?s' = free_list s4" "vio_only s4 ?s'"
    using s4(2) by (simp_all add: operator_delete_sized_def log_eq vio_only_intros)
  have "kept hi (unat data) (mem s) (mem s4)" using data by (intro kept_trans [OF kept_mono [OF f(6)] s4(5)]) simp_all
  moreover have "kept (unat data + unat sz) (unat (free_list s)) (mem s) (mem s4)"
    using data f(7) by (intro kept_trans [OF kept_mono [OF f(6)] s4(6)]) simp_all
  ultimately show ?thesis
    using that [OF run mt'(1)] s4(3,4) P f(7,8) vio_only_trans [OF vio_only_trans [OF f(9) s4(7)] mt'(4)]
    unfolding mt'(2,3) by simp
qed

end
