(* ===== verification/Ext2_Mount.thy ===== *)
theory Ext2_Mount
  imports Ext2_Lookup
begin

text \<open>
  The constructor \<^verbatim>\<open>EXT2::EXT2\<close>: it reads the superblock and the group descriptors into
  objects of its own and leaves the driver in the state the lookups start from.
\<close>

section \<open>The group descriptors\<close>

lemma small_index:
  assumes "j < n" and "n \<le> 8"
  shows "(of_nat j :: u64) < of_nat n" "unat (8 * of_nat j :: u64) = 8 * j" "unat (of_nat j :: u64) = j"
    "unat (of_nat j * 32 :: u64) = 32 * j"
  using assms by (simp_all add: word_less_nat_alt unat_word_ariths unat_of_nat)

lemma make_groups_ok:
  fixes s :: "('d, 'a) fsst_scheme"
  assumes "disk_client R V D live device q s" and "ld64 (mem s) (this + 24) = gd"
    and th: "unat q + 6672 \<le> unat this" "unat this + 32 \<le> unat gd"
    and "unat gd + 64 \<le> unat (free_list s)" and n: "i \<le> n" "n \<le> 8"
    and "unat (free_list s) + 48 * (n - i) + 32 \<le> heap_limit"
  shows "\<exists>s'. make_groups this (of_nat i) (of_nat n) s = Some s' \<and> disk_client R V D live device q s' \<and>
    unat (free_list s') = unat (free_list s) + 48 * (n - i) \<and>
    (\<forall>j. i \<le> j \<and> j < n \<longrightarrow> unat (ld64 (mem s') (gd + 8 * of_nat j)) = unat (free_list s) + 16 + 48 * (j - i)) \<and>
    kept (unat q + 6672) (unat gd + 8 * i) (mem s) (mem s') \<and> kept (unat gd + 64) (unat (free_list s)) (mem s) (mem s') \<and> vio_only s s'"
  using assms(1,2,5,6,8)
proof (induction "n - i" arbitrary: i s)
  case 0
  then show ?case by (subst make_groups.simps) (simp add: vio_only_intros)
next
  case (Suc k)
  then have i: "i < n" "k = n - Suc i" "Suc i \<le> n" by simp_all
  note si = small_index [OF i(1) n(2)]
  have "unat (free_list s) + unat sizeof_EXT2BlockGroupDescriptor + 32 \<le> heap_limit"
    using Suc.prems(5) i(1) by (simp add: sizeof_EXT2BlockGroupDescriptor_def)
  then obtain g t where t: "new_zeroed sizeof_EXT2BlockGroupDescriptor s = Some (g, t)" "disk_client R V D live device q t"
    "unat g = unat (free_list s) + 16" "unat (free_list t) = unat (free_list s) + 16 + unat sizeof_EXT2BlockGroupDescriptor"
    "kept (unat q + 6672) (unat (free_list s)) (mem s) (mem t)" "heap_only s t"
    by (rule client_new [OF Suc.prems(1)])
  have ft: "unat (free_list t) = unat (free_list s) + 48" using t(4) by (simp add: sizeof_EXT2BlockGroupDescriptor_def)
  note b = client_base [OF Suc.prems(1)]
  have "same_bytes (mem t) this (mem s) this 32" using th Suc.prems(3) b(5) by (intro kept_same [OF t(5)]) simp_all
  from same_fields(4) [OF this, of 24] have gt: "ld64 (mem t) (this + 24) = gd" using Suc.prems(2) by simp
  let ?a = "gd + 8 * of_nat i"
  let ?u = "put64 ?a g t"
  have ua: "unat ?a = unat gd + 8 * i"
    using si(2) i(1) n(2) Suc.prems(3) b(5) by (simp add: unat_word_ariths)
  have u: "?u = t\<lparr>mem := store_bytes (mem t) ?a (bytes_of 8 g)\<rparr>" by (simp add: put64_def st64_def)
  have "unat q + 6672 \<le> unat ?a" "unat ?a + length (bytes_of 8 g) \<le> unat (free_list t)"
    using ua th i(1) n(2) Suc.prems(3) ft by simp_all
  note st = client_store [OF t(2) this, folded u]
  have mu: "mem ?u = store_bytes (mem t) ?a (bytes_of 8 g)" "free_list ?u = free_list t" by (simp_all add: put64_def st64_def)
  have ku: "kept (unat q + 6672) (unat ?a) (mem s) (mem ?u)" unfolding mu
    using ua i(1) n(2) Suc.prems(3) by (intro kept_trans [OF kept_mono [OF t(5)] st(2)]) simp_all
  have ku': "kept (unat ?a + 8) (unat (free_list s)) (mem s) (mem ?u)" unfolding mu
    using ua th b(5) by (intro kept_trans [OF kept_mono [OF t(5)] kept_mono [OF st(3)]]) simp_all
  have "same_bytes (mem ?u) this (mem s) this 32" using th ua unat_bound [of ?a] by (intro kept_same [OF ku]) simp_all
  from same_fields(4) [OF this, of 24] have gu: "ld64 (mem ?u) (this + 24) = gd" using Suc.prems(2) by simp
  have pre: "unat gd + 64 \<le> unat (free_list ?u)" "unat (free_list ?u) + 48 * (n - Suc i) + 32 \<le> heap_limit"
    using Suc.prems(3,5) i(1) ft mu(2) by simp_all
  from Suc.hyps(1) [OF i(2) st(1) gu pre(1) i(3) pre(2)] obtain s' where s':
    "make_groups this (of_nat (Suc i)) (of_nat n) ?u = Some s'" "disk_client R V D live device q s'"
    "unat (free_list s') = unat (free_list ?u) + 48 * (n - Suc i)"
    "\<forall>j. Suc i \<le> j \<and> j < n \<longrightarrow> unat (ld64 (mem s') (gd + 8 * of_nat j)) = unat (free_list ?u) + 16 + 48 * (j - Suc i)"
    "kept (unat q + 6672) (unat gd + 8 * Suc i) (mem ?u) (mem s')" "kept (unat gd + 64) (unat (free_list ?u)) (mem ?u) (mem s')" "vio_only ?u s'"
    by blast
  have run: "make_groups this (of_nat i) (of_nat n) s = Some s'"
    using si(1) t(1) gt s'(1) by (subst make_groups.simps) (simp add: add.commute)
  have "same_bytes (mem s') ?a (mem ?u) ?a 8"
    using ua th i(1) n(2) Suc.prems(3) b(5) by (intro kept_same [OF s'(5)]) simp_all
  from same_fields_0(4) [OF this] have "ld64 (mem s') ?a = g" by (simp add: put64_def ld64_st64)
  then have slots: "unat (ld64 (mem s') (gd + 8 * of_nat j)) = unat (free_list s) + 16 + 48 * (j - i)" if "i \<le> j" "j < n" for j
    using that s'(4) [rule_format, of j] t(3) ft mu(2) by (cases "j = i") (simp_all add: Suc_diff_le)
  have "kept (unat q + 6672) (unat gd + 8 * i) (mem s) (mem s')"
    using ku unfolding ua by (rule kept_trans [OF _ s'(5)]) simp
  moreover have "kept (unat gd + 64) (unat (free_list s)) (mem s) (mem s')"
    using ua i(1) n(2) ft mu(2) by (intro kept_trans [OF kept_mono [OF ku'] s'(6)]) simp_all
  moreover have "vio_only s s'"
    using vio_only_trans [OF vio_only_trans [OF vio_only_intros(2) [OF t(6)] vio_only_intros(3)] s'(7) [unfolded put64_def]] .
  ultimately show ?case using run s'(2,3) slots ft mu(2) i(1) by (intro exI [of _ s']) auto
qed

text \<open>The driver's own fields, while only memory above them changes.\<close>

lemma fs_fields_kept:
  assumes k: "kept lo B m m'" and B: "B \<le> 2 ^ 64" and th: "span lo B this 32" "span lo B (ld64 m (this + 24)) 64"
  shows "ld64 m' this = ld64 m this" "ld64 m' (this + 24) = ld64 m (this + 24)" "fs_block_size m' this = fs_block_size m this"
    "fs_super_block m' this = fs_super_block m this"
    "j < 8 \<Longrightarrow> fs_group_desc m' this (of_nat j) = fs_group_desc m this (of_nat j)"
proof -
  have s: "same_bytes m' this m this 32" "same_bytes m' (ld64 m (this + 24)) m (ld64 m (this + 24)) 64"
    using th by (simp_all add: span_def kept_same [OF k _ _ B])
  show f: "ld64 m' this = ld64 m this" "ld64 m' (this + 24) = ld64 m (this + 24)" "fs_block_size m' this = fs_block_size m this"
    "fs_super_block m' this = fs_super_block m this"
    using same_fields(3,4) [OF s(1)] same_fields_0(4) [OF s(1)] by (simp_all add: fs_block_size_def fs_super_block_def)
  show "fs_group_desc m' this (of_nat j) = fs_group_desc m this (of_nat j)" if "j < 8"
    using same_fields(4) [OF s(2), of "8 * of_nat j"] small_index(2) [OF that order_refl] that
    by (simp add: fs_group_desc_def f(2))
qed

lemma readable_group:
  assumes "geometry_ok P" and "j < 8"
  shows "readable (group_pos P j) 32"
proof -
  note b = block_size_facts [OF assms(1)]
  note si = small_index [OF assms(2) order_refl]
  have "unat (disk_block_size P) < 67108864" using b(2) by simp
  then have u: "unat (group_pos P j) = unat (disk_block_size P) + 32 * j"
    unfolding group_pos_def using si(4) b(4) assms(2) by (simp add: unat_word_ariths)
  have "unat (group_pos P j) mod 512 = 32 * j mod 512" unfolding u using b(1) by (metis dvd_imp_mod_0 mod_add_left_eq add_0)
  then show ?thesis using u \<open>unat (disk_block_size P) < 67108864\<close> assms(2) by (simp add: readable_def)
qed

lemma read_groups_ok:
  fixes s :: "('d, 'a) fsst_scheme"
  assumes "disk_client R V D live device q s" and P: "P = partition D" "geometry_ok P"
    and th: "span (unat q + 6672) B this 32" and "span (unat q + 6672) B (ld64 (mem s) (this + 24)) 64"
    and "ld64 (mem s) this = device" and "fs_block_size (mem s) this = disk_block_size P"
    and "\<forall>j < n. unat (fs_group_desc (mem s) this (of_nat j)) = A + 48 * j" and A: "B \<le> A" and "A + 48 * n \<le> unat (free_list s) + 16"
    and n: "i \<le> n" "n \<le> 8" and "unat (free_list s) + (n - i) * read_cost 32 + 16 \<le> heap_limit"
    and "\<forall>j < i. same_bytes (mem s) (fs_group_desc (mem s) this (of_nat j)) P (group_pos P j) 32"
  shows "\<exists>s'. read_groups V this (of_nat i) (of_nat n) s = Some s' \<and> disk_client R V D live device q s' \<and>
    kept (unat q + 6672) B (mem s) (mem s') \<and> unat (free_list s') = unat (free_list s) + (n - i) * read_cost 32 \<and>
    (\<forall>j < n. same_bytes (mem s') (fs_group_desc (mem s') this (of_nat j)) P (group_pos P j) 32) \<and> vio_only s s'"
  using assms(1,5-8,10,11,13,14)
proof (induction "n - i" arbitrary: i s)
  case 0
  then show ?case by (subst read_groups.simps) (simp add: vio_only_intros)
next
  case (Suc k)
  then have i: "i < n" "k = n - Suc i" "Suc i \<le> n" "i < 8" using n(2) by simp_all
  note b = client_base [OF Suc.prems(1)]
  let ?d = "\<lambda>j. fs_group_desc (mem s) this (of_nat j)"
  have d: "unat (?d j) = A + 48 * j" if "j < n" for j using Suc.prems(5) that by blast
  have lo: "unat q + 6672 \<le> unat (?d i)" using d [OF i(1)] A th by (simp add: span_def)
  have "48 * Suc i \<le> 48 * n" using i(1) by simp
  then have hi: "unat (?d i) + unat (32 :: u64) \<le> unat (free_list s)" using d [OF i(1)] Suc.prems(6) by simp
  have ni: "(n - i) * read_cost 32 = read_cost 32 + (n - Suc i) * read_cost 32" using i(1) by (simp add: Suc_diff_Suc flip: mult_Suc)
  then have room: "unat (free_list s) + read_cost 32 + 16 \<le> heap_limit" using Suc.prems(8) by linarith
  have rd: "readable (group_pos P i) 32" by (rule readable_group [OF P(2) i(4)])
  obtain t where t: "blk_read V device (group_pos P i) 32 (?d i) s = Some (0, t)" "disk_client R V D live device q t"
    "unat (free_list t) = unat (free_list s) + read_cost 32" "same_bytes (mem t) (?d i) (partition D) (group_pos P i) (unat (32 :: u64))"
    "\<forall>x. unat q + 6672 \<le> unat x \<and> unat x < unat (free_list s) \<and> unat (32 :: u64) \<le> unat (x - ?d i) \<longrightarrow> mem t x = mem s x" "vio_only s t"
    by (rule disk_read [OF Suc.prems(1) lo hi rd room])
  have below: "kept (unat q + 6672) (unat (?d i)) (mem s) (mem t)"
    unfolding kept_def
  proof (intro allI impI)
    fix x :: u64 assume x: "unat q + 6672 \<le> unat x \<and> unat x < unat (?d i)"
    have "32 \<le> unat (x - ?d i)"
    proof (rule ccontr)
      assume "\<not> 32 \<le> unat (x - ?d i)"
      then have "unat x = unat (?d i) + unat (x - ?d i)" using hi b(5) by (intro unat_in_range [of _ _ 32]) simp_all
      with x show False by simp
    qed
    then show "mem t x = mem s x" using t(5) x hi by simp
  qed
  have kB: "kept (unat q + 6672) B (mem s) (mem t)" using d [OF i(1)] A by (intro kept_mono [OF below]) simp_all
  have B: "B \<le> 2 ^ 64" using A d [OF i(1)] unat_bound [of "?d i"] by simp
  note f = fs_fields_kept [OF kB B th Suc.prems(2)]
  have gd: "fs_group_desc (mem t) this (of_nat j) = ?d j" if "j < n" for j using f(5) that n(2) by simp
  have done': "\<forall>j < Suc i. same_bytes (mem t) (fs_group_desc (mem t) this (of_nat j)) P (group_pos P j) 32"
  proof (intro allI impI)
    fix j assume "j < Suc i"
    then consider "j < i" | "j = i" by linarith
    then show "same_bytes (mem t) (fs_group_desc (mem t) this (of_nat j)) P (group_pos P j) 32"
    proof cases
      case 1
      then have j: "j < n" "48 * j + 48 \<le> 48 * i" using i(1) by simp_all
      have "unat (?d j) + 32 \<le> unat (?d i)" using d [OF j(1)] d [OF i(1)] j(2) by linarith
      moreover have "unat q + 6672 \<le> unat (?d j)" using d [OF j(1)] A th by (simp add: span_def)
      ultimately have "same_bytes (mem t) (?d j) (mem s) (?d j) 32"
        using unat_bound [of "?d i"] by (intro kept_same [OF below]) simp_all
      with 1 show ?thesis using Suc.prems(9) gd [OF j(1)] same_bytes_trans by simp
    next
      case 2
      then show ?thesis using t(4) gd [OF i(1)] P(1) by simp
    qed
  qed
  have pre: "span (unat q + 6672) B (ld64 (mem t) (this + 24)) 64" "ld64 (mem t) this = device" "fs_block_size (mem t) this = disk_block_size P"
    "\<forall>j < n. unat (fs_group_desc (mem t) this (of_nat j)) = A + 48 * j" "A + 48 * n \<le> unat (free_list t) + 16"
    using Suc.prems(2-6) f gd t(3) by simp_all
  have rm: "unat (free_list t) + (n - Suc i) * read_cost 32 + 16 \<le> heap_limit"
    using Suc.prems(8) t(3) ni by linarith
  from Suc.hyps(1) [OF i(2) t(2) pre i(3) rm done'] obtain s' where s':
    "read_groups V this (of_nat (Suc i)) (of_nat n) t = Some s'" "disk_client R V D live device q s'"
    "kept (unat q + 6672) B (mem t) (mem s')" "unat (free_list s') = unat (free_list t) + (n - Suc i) * read_cost 32"
    "\<forall>j < n. same_bytes (mem s') (fs_group_desc (mem s') this (of_nat j)) P (group_pos P j) 32" "vio_only t s'"
    by blast
  have "read_groups V this (of_nat i) (of_nat n) s = Some s'"
    using small_index(1) [OF i(1) n(2)] t(1) s'(1) Suc.prems(3,4)
    by (subst read_groups.simps) (simp add: sizeof_EXT2BlockGroupDescriptor_def fs_device_def group_pos_def add.commute)
  moreover have "unat (free_list s') = unat (free_list s) + (n - i) * read_cost 32"
    using s'(4) t(3) ni by linarith
  ultimately show ?case
    using s'(2,5) kept_trans [OF kB s'(3)] vio_only_trans [OF t(6) s'(6)] by (intro exI [of _ s']) simp
qed

section \<open>The constructor\<close>

text \<open>Stores into the object under construction.\<close>

lemma put_field:
  assumes c: "disk_client R V D live device q s" and th: "span (unat q + 6672) (unat (free_list s)) this 32" and k: "unat k + length bs \<le> 32"
  shows "disk_client R V D live device q (s\<lparr>mem := store_bytes (mem s) (this + k) bs\<rparr>)"
    "kept (unat this + 32) (2 ^ 64) (mem s) (store_bytes (mem s) (this + k) bs)"
proof -
  have u: "unat (this + k) = unat this + unat k"
    using th k unat_bound [of "free_list s"] by (simp add: span_def unat_word_ariths)
  then have "unat q + 6672 \<le> unat (this + k)" "unat (this + k) + length bs \<le> unat (free_list s)"
    using th k by (simp_all add: span_def)
  note st = client_store [OF c this]
  show "disk_client R V D live device q (s\<lparr>mem := store_bytes (mem s) (this + k) bs\<rparr>)" by (rule st(1))
  show "kept (unat this + 32) (2 ^ 64) (mem s) (store_bytes (mem s) (this + k) bs)"
    using u k by (intro kept_mono [OF st(3)]) simp_all
qed

lemma fields_apart:
  "ld64 (st64 m this v) (this + 8) = ld64 m (this + 8)" "ld64 (st64 m (this + 8) v) this = ld64 m this"
  "ld64 (st64 m (this + 24) v) this = ld64 m this" "ld64 (st64 m (this + 24) v) (this + 8) = ld64 m (this + 8)"
  "ld64 (st32 m (this + 16) w) this = ld64 m this" "ld64 (st32 m (this + 16) w) (this + 8) = ld64 m (this + 8)"
  "ld64 (st32 m (this + 16) w) (this + 24) = ld64 m (this + 24)"
  "ld64 (st32 m (this + 20) w) this = ld64 m this" "ld64 (st32 m (this + 20) w) (this + 8) = ld64 m (this + 8)"
  "ld64 (st32 m (this + 20) w) (this + 24) = ld64 m (this + 24)"
  "ld32 (st32 m (this + 16) w) (this + 16) = w" "ld32 (st32 m (this + 20) w) (this + 16) = ld32 m (this + 16)"
  by (simp_all add: ld64_def ld32_def st64_def st32_def load_store_disj load_store_same disj_def le_word_bytes_of
      take_bit_word_eq_self)

lemma scast_small:
  assumes "unat (x :: u32) \<le> 8"
  shows "(scast x :: u64) = of_nat (unat x)"
proof -
  have "unat x = 0 \<or> unat x = 1 \<or> unat x = 2 \<or> unat x = 3 \<or> unat x = 4 \<or> unat x = 5 \<or> unat x = 6 \<or> unat x = 7 \<or> unat x = 8"
    using assms by linarith
  then have "x = 0 \<or> x = 1 \<or> x = 2 \<or> x = 3 \<or> x = 4 \<or> x = 5 \<or> x = 6 \<or> x = 7 \<or> x = 8"
    by (simp add: word_unat_eq_iff)
  then show ?thesis by auto
qed

definition mount_cost :: "mem \<Rightarrow> nat" where
  "mount_cost P = 188 + read_cost 92 + unat (disk_groups P) * (48 + read_cost 32)"

text \<open>Up to the superblock.\<close>

lemma mount_superblock:
  fixes s :: "('d, 'a) fsst_scheme"
  assumes c: "disk_client R V D live device q s" and P: "P = partition D" and th: "span (unat q + 6672) (unat (free_list s)) this 32"
    and room: "unat (free_list s) + 108 + read_cost 92 + 16 \<le> heap_limit"
  obtains sb s2 t where "new_zeroed sizeof_EXT2SuperBlock (put64 this device s) = Some (sb, s2)"
    "blk_read V device 1024 sizeof_EXT2SuperBlock sb (put64 (this + 8) sb s2) = Some (0, t)" "disk_client R V D live device q t"
    "unat sb = unat (free_list s) + 16" "unat (free_list t) = unat (free_list s) + 108 + read_cost 92"
    "ld64 (mem t) this = device" "fs_super_block (mem t) this = sb" "same_bytes (mem t) sb P 1024 92" "vio_only s t"
proof -
  have z: "unat sizeof_EXT2SuperBlock = 92" by (simp add: sizeof_EXT2SuperBlock_def)
  have s1: "put64 this device s = s\<lparr>mem := store_bytes (mem s) (this + 0) (bytes_of 8 device)\<rparr>" by (simp add: put64_def st64_def)
  have k0: "unat (0 :: u64) + length (bytes_of 8 device) \<le> 32" "unat (8 :: u64) + length (bytes_of 8 sb) \<le> 32" for sb :: u64 by simp_all
  note p1 = put_field [OF c th k0(1), folded s1]
  have r: "unat (free_list (put64 this device s)) + unat sizeof_EXT2SuperBlock + 32 \<le> heap_limit"
    using room z by (simp add: read_cost_def)
  obtain sb s2 where s2: "new_zeroed sizeof_EXT2SuperBlock (put64 this device s) = Some (sb, s2)" "disk_client R V D live device q s2"
    "unat sb = unat (free_list (put64 this device s)) + 16"
    "unat (free_list s2) = unat (free_list (put64 this device s)) + 16 + unat sizeof_EXT2SuperBlock"
    "kept (unat q + 6672) (unat (free_list (put64 this device s))) (mem (put64 this device s)) (mem s2)" "heap_only (put64 this device s) s2"
    by (rule client_new [OF p1(1) r])
  have f2: "unat (free_list s2) = unat (free_list s) + 108" "unat sb = unat (free_list s) + 16" using s2(3,4) z by simp_all
  have "same_bytes (mem s2) this (mem (put64 this device s)) this 32"
    using th client_base(5) [OF c] by (intro kept_same [OF s2(5)]) (simp_all add: span_def)
  from same_fields_0(4) [OF this] have d2: "ld64 (mem s2) this = device" by (simp add: ld64_st64)
  let ?s3 = "put64 (this + 8) sb s2"
  have s3: "?s3 = s2\<lparr>mem := store_bytes (mem s2) (this + 8) (bytes_of 8 sb)\<rparr>" by (simp add: put64_def st64_def)
  have th2: "span (unat q + 6672) (unat (free_list s2)) this 32" using th f2 by (simp add: span_def)
  note p3 = put_field [OF s2(2) th2 k0(2) [of sb], folded s3]
  have lo: "unat q + 6672 \<le> unat sb" "unat sb + unat sizeof_EXT2SuperBlock \<le> unat (free_list ?s3)"
    "unat (free_list ?s3) + read_cost sizeof_EXT2SuperBlock + 16 \<le> heap_limit"
    using f2 client_base(4) [OF c] z room by (simp_all add: sizeof_EXT2SuperBlock_def)
  have rd: "readable 1024 sizeof_EXT2SuperBlock" by (simp add: readable_def sizeof_EXT2SuperBlock_def)
  obtain t where t: "blk_read V device 1024 sizeof_EXT2SuperBlock sb ?s3 = Some (0, t)" "disk_client R V D live device q t"
    "unat (free_list t) = unat (free_list ?s3) + read_cost sizeof_EXT2SuperBlock"
    "same_bytes (mem t) sb (partition D) 1024 (unat sizeof_EXT2SuperBlock)"
    "\<forall>x. unat q + 6672 \<le> unat x \<and> unat x < unat (free_list ?s3) \<and> unat sizeof_EXT2SuperBlock \<le> unat (x - sb) \<longrightarrow> mem t x = mem ?s3 x"
    "vio_only ?s3 t"
    by (rule disk_read [OF p3(1) lo(1,2) rd lo(3)])
  have "same_bytes (mem t) this (mem ?s3) this 32"
    unfolding same_bytes_def
  proof (intro allI impI)
    fix k :: u64 assume k: "unat k < 32"
    have u: "unat (this + k) = unat this + unat k"
      using th k unat_bound [of "free_list s"] by (simp add: span_def unat_word_ariths)
    have "92 \<le> unat (this + k - sb)"
    proof (rule ccontr)
      assume "\<not> 92 \<le> unat (this + k - sb)"
      then have "unat (this + k) = unat sb + unat (this + k - sb)"
        using f2 unat_bound [of "free_list s2"] by (intro unat_in_range [of _ _ 92]) simp_all
      then show False using u k f2 th by (simp add: span_def)
    qed
    then show "mem t (this + k) = mem ?s3 (this + k)" using t(5) u k f2 th z by (simp add: span_def)
  qed
  from same_fields(4) [OF this, of 8] same_fields_0(4) [OF this]
  have fl: "ld64 (mem t) this = device" "fs_super_block (mem t) this = sb"
    using d2 by (simp_all add: fs_super_block_def fields_apart ld64_st64)
  have v: "vio_only s t"
    using vio_only_trans [OF vio_only_trans [OF vio_only_trans [OF vio_only_intros(3) vio_only_intros(2) [OF s2(6) [unfolded put64_def]]]
      vio_only_intros(3)] t(6) [unfolded put64_def]] .
  show ?thesis
    using that [OF s2(1) t(1,2) f2(2) _ fl] t(3,4) f2(1) z P v by (simp add: sizeof_EXT2SuperBlock_def)
qed

text \<open>The array of descriptor pointers and the block size.\<close>

lemma mount_array:
  fixes t :: "('d, 'a) fsst_scheme"
  assumes c: "disk_client R V D live device q t" and th: "span (unat q + 6672) (unat sb) this 32" and sb: "unat sb + 92 \<le> unat (free_list t)"
    and f: "ld64 (mem t) this = device" "fs_super_block (mem t) this = sb" "same_bytes (mem t) sb P 1024 92"
    and room: "unat (free_list t) + 96 \<le> heap_limit"
  obtains gd s5 u where "operator_new_array 64 t = Some (gd, s5)" "u = put32 (this + 16) bs (put64 (this + 24) gd s5)"
    "mem (put64 (this + 24) gd s5) = st64 (mem s5) (this + 24) gd" "same_bytes (mem (put64 (this + 24) gd s5)) sb P 1024 92"
    "disk_client R V D live device q u" "unat gd = unat (free_list t) + 16" "unat (free_list u) = unat (free_list t) + 80"
    "ld64 (mem u) this = device" "fs_super_block (mem u) this = sb" "ld64 (mem u) (this + 24) = gd" "fs_block_size (mem u) this = bs"
    "same_bytes (mem u) sb P 1024 92" "vio_only t u"
proof -
  have r: "unat (free_list t) + unat (64 :: u64) + 32 \<le> heap_limit" using room by simp
  obtain gd s5 where k: "kalloc 64 t = Some (gd, s5)" "disk_client R V D live device q s5" "unat gd = unat (free_list t) + 16"
    "unat (free_list s5) = unat (free_list t) + 16 + unat (64 :: u64)" "kept (unat q + 6672) (unat (free_list t)) (mem t) (mem s5)" "heap_only t s5"
    by (rule client_kalloc [OF c r])
  have b5: "unat (free_list t) \<le> 2 ^ 64" by (rule client_base(5) [OF c])
  have s5: "same_bytes (mem s5) this (mem t) this 32" "same_bytes (mem s5) sb (mem t) sb 92"
    using th sb by (auto simp: span_def intro!: kept_same [OF k(5) _ _ b5])
  have f5: "ld64 (mem s5) this = device" "ld64 (mem s5) (this + 8) = sb"
    using same_fields_0(4) [OF s5(1)] same_fields(4) [OF s5(1), of 8] f by (simp_all add: fs_super_block_def)
  let ?s6 = "put64 (this + 24) gd s5"
  have e6: "?s6 = s5\<lparr>mem := store_bytes (mem s5) (this + 24) (bytes_of 8 gd)\<rparr>" by (simp add: put64_def st64_def)
  have th5: "span (unat q + 6672) (unat (free_list s5)) this 32" using th sb k(4) by (simp add: span_def)
  have "unat (24 :: u64) + length (bytes_of 8 gd) \<le> 32" by simp
  note p6 = put_field [OF k(2) th5 this, folded e6]
  let ?u = "put32 (this + 16) bs ?s6"
  have e7: "?u = ?s6\<lparr>mem := store_bytes (mem ?s6) (this + 16) (bytes_of 4 bs)\<rparr>" by (simp add: put32_def st32_def)
  have th6: "span (unat q + 6672) (unat (free_list ?s6)) this 32" using th5 by simp
  have "unat (16 :: u64) + length (bytes_of 4 bs) \<le> 32" by simp
  note p7 = put_field [OF p6(1) th6 this, folded e7]
  have m: "mem ?s6 = store_bytes (mem s5) (this + 24) (bytes_of 8 gd)" "mem ?u = store_bytes (mem ?s6) (this + 16) (bytes_of 4 bs)"
    by (simp_all add: put64_def put32_def st64_def st32_def)
  have bound: "unat this + 32 \<le> unat sb" "unat sb + 92 \<le> 2 ^ 64" using th sb b5 by (simp_all add: span_def)
  have s6: "same_bytes (mem ?s6) sb (mem s5) sb 92" unfolding m using bound by (intro kept_same [OF p6(2)]) simp_all
  have s7: "same_bytes (mem ?u) sb (mem ?s6) sb 92" unfolding m(2) using bound by (intro kept_same [OF p7(2)]) simp_all
  note sm = same_bytes_trans [OF s6 same_bytes_trans [OF s5(2) f(3)]]
  have v: "vio_only t ?u"
    using vio_only_trans [OF vio_only_trans [OF vio_only_intros(2) [OF k(6)] vio_only_intros(3)] vio_only_intros(3)]
    unfolding put64_def put32_def by simp
  show ?thesis
  proof (rule that [OF _ refl _ sm p7(1) k(3) _ _ _ _ _ same_bytes_trans [OF s7 sm] v])
    show "operator_new_array 64 t = Some (gd, s5)" using k(1) by (simp add: operator_new_array_def)
    show "mem ?s6 = st64 (mem s5) (this + 24) gd" by (simp add: put64_def)
    show "unat (free_list ?u) = unat (free_list t) + 80" using k(4) by (simp add: put64_def put32_def)
    show "ld64 (mem ?u) this = device" "fs_super_block (mem ?u) this = sb" "ld64 (mem ?u) (this + 24) = gd" "fs_block_size (mem ?u) this = bs"
      using f5 by (simp_all add: put64_def put32_def fs_super_block_def fs_block_size_def fields_apart ld64_st64)
  qed
qed

lemma EXT2_new_ok:
  fixes s :: "('d, 'a) fsst_scheme"
  assumes c: "disk_client R V D live device q s" and P: "P = partition D" and th: "span (unat q + 6672) (unat (free_list s)) this 32"
    and geo: "geometry_ok P" "s_blocks_per_group P 1024 \<noteq> 0" "s_inode_size P 1024 \<noteq> 0"
    and room: "unat (free_list s) + mount_cost P + 48 \<le> heap_limit"
  obtains s' where "EXT2_new V this device s = Some s'" "mounted R V D live device q this (unat (free_list s')) s'" "ext2_instance s' = this"
    "unat (free_list s') = unat (free_list s) + mount_cost P"
proof -
  let ?bs = "disk_block_size P" and ?n = "unat (disk_groups P)"
  have n: "?n \<le> 8" using geo(1) by (simp add: geometry_ok_def)
  have r1: "unat (free_list s) + 108 + read_cost 92 + 16 \<le> heap_limit" using room by (simp add: mount_cost_def)
  obtain sb s2 t where t: "new_zeroed sizeof_EXT2SuperBlock (put64 this device s) = Some (sb, s2)"
    "blk_read V device 1024 sizeof_EXT2SuperBlock sb (put64 (this + 8) sb s2) = Some (0, t)" "disk_client R V D live device q t"
    "unat sb = unat (free_list s) + 16" "unat (free_list t) = unat (free_list s) + 108 + read_cost 92"
    "ld64 (mem t) this = device" "fs_super_block (mem t) this = sb" "same_bytes (mem t) sb P 1024 92" "vio_only s t"
    by (rule mount_superblock [OF c P th r1])
  have th2: "span (unat q + 6672) (unat sb) this 32" and sb: "unat sb + 92 \<le> unat (free_list t)"
    and r2: "unat (free_list t) + 96 \<le> heap_limit" using th t(4,5) room by (simp_all add: span_def mount_cost_def)
  obtain gd s5 u where u: "operator_new_array 64 t = Some (gd, s5)" "u = put32 (this + 16) ?bs (put64 (this + 24) gd s5)"
    "mem (put64 (this + 24) gd s5) = st64 (mem s5) (this + 24) gd" "same_bytes (mem (put64 (this + 24) gd s5)) sb P 1024 92"
    "disk_client R V D live device q u" "unat gd = unat (free_list t) + 16" "unat (free_list u) = unat (free_list t) + 80"
    "ld64 (mem u) this = device" "fs_super_block (mem u) this = sb" "ld64 (mem u) (this + 24) = gd" "fs_block_size (mem u) this = ?bs"
    "same_bytes (mem u) sb P 1024 92" "vio_only t u"
    by (rule mount_array [OF t(3) th2 sb t(6-8) r2])
  have a: "unat q + 6672 \<le> unat this" "unat this + 32 \<le> unat gd" "unat gd + 64 \<le> unat (free_list u)" "unat sb + 92 \<le> unat gd"
    "unat (free_list u) + 48 * (?n - 0) + 32 \<le> heap_limit"
    using th t(4,5) u(6,7) room by (simp_all add: span_def mount_cost_def algebra_simps)
  obtain v where v: "make_groups this (of_nat 0) (of_nat ?n) u = Some v" "disk_client R V D live device q v"
    "unat (free_list v) = unat (free_list u) + 48 * (?n - 0)"
    "\<forall>j. 0 \<le> j \<and> j < ?n \<longrightarrow> unat (ld64 (mem v) (gd + 8 * of_nat j)) = unat (free_list u) + 16 + 48 * (j - 0)"
    "kept (unat q + 6672) (unat gd + 8 * 0) (mem u) (mem v)" "vio_only u v"
    using make_groups_ok [OF u(5,10) a(1-3) _ n a(5)] by blast
  have sv: "same_bytes (mem v) this (mem u) this 32" "same_bytes (mem v) sb (mem u) sb 92"
    using a t(4) unat_bound [of gd] client_base(4) [OF c] by (auto intro!: kept_same [OF v(5)])
  have fv: "ld64 (mem v) this = device" "fs_super_block (mem v) this = sb" "ld64 (mem v) (this + 24) = gd" "fs_block_size (mem v) this = ?bs"
    using same_fields_0(4) [OF sv(1)] same_fields(3,4) [OF sv(1)] u(8-11) by (simp_all add: fs_super_block_def fs_block_size_def)
  let ?B = "unat gd + 64"
  have gv: "\<forall>j < ?n. unat (fs_group_desc (mem v) this (of_nat j)) = unat (free_list u) + 16 + 48 * j"
    using v(4) fv(3) by (simp add: fs_group_desc_def)
  have b: "span (unat q + 6672) ?B this 32" "span (unat q + 6672) ?B (ld64 (mem v) (this + 24)) 64" "?B \<le> unat (free_list u) + 16"
    "unat (free_list u) + 16 + 48 * ?n \<le> unat (free_list v) + 16" "unat (free_list v) + (?n - 0) * read_cost 32 + 16 \<le> heap_limit"
    using a fv(3) u(6,7) v(3) t(5) room by (simp_all add: span_def mount_cost_def algebra_simps)
  obtain w where w: "read_groups V this (of_nat 0) (of_nat ?n) v = Some w" "disk_client R V D live device q w"
    "kept (unat q + 6672) ?B (mem v) (mem w)" "unat (free_list w) = unat (free_list v) + (?n - 0) * read_cost 32"
    "\<forall>j < ?n. same_bytes (mem w) (fs_group_desc (mem w) this (of_nat j)) P (group_pos P j) 32" "vio_only v w"
    using read_groups_ok [OF v(2) P geo(1) b(1,2) fv(1,4) gv b(3,4) _ n b(5)] by blast
  have B: "?B \<le> 2 ^ 64" using a(3) unat_bound [of "free_list u"] by simp
  note fw = fs_fields_kept [OF w(3) B b(1,2)]
  have sw: "same_bytes (mem w) sb P 1024 92"
  proof -
    have "same_bytes (mem w) sb (mem v) sb 92" using a t(4) client_base(4) [OF c] by (intro kept_same [OF w(3) _ _ B]) simp_all
    then show ?thesis using same_bytes_trans sv(2) u(12) by blast
  qed
  define y where "y = fs_block_size (mem w) this div ucast (s_inode_size (mem w) (fs_super_block (mem w) this))"
  let ?x = "put32 (this + 20) y w"
  let ?s' = "?x\<lparr>ext2_instance := this\<rparr>"
  have ex: "?x = w\<lparr>mem := store_bytes (mem w) (this + 20) (bytes_of 4 y)\<rparr>" by (simp add: put32_def st32_def)
  have fl: "unat (free_list w) = unat (free_list s) + mount_cost P"
    using w(4) v(3) u(7) t(5) by (simp add: mount_cost_def algebra_simps)
  have thw: "span (unat q + 6672) (unat (free_list w)) this 32" using th fl by (simp add: span_def)
  have "unat (20 :: u64) + length (bytes_of 4 y) \<le> 32" by simp
  note px = put_field [OF w(2) thw this, folded ex]
  have mx: "mem ?s' = store_bytes (mem w) (this + 20) (bytes_of 4 y)" "mem ?s' = st32 (mem w) (this + 20) y" "free_list ?s' = free_list w"
    by (simp_all add: put32_def st32_def)
  have kx: "same_bytes (mem ?s') p (mem w) p k" if "unat this + 32 \<le> unat p" "unat p + k \<le> 2 ^ 64" for p k
    unfolding mx(1) by (rule kept_same [OF px(2) that order_refl])
  have c': "disk_client R V D live device q ?s'" by (rule client_cong [OF _ _ _ _ _ _ _ px(1)]) simp_all
  have fx: "ld64 (mem ?s') this = device" "fs_super_block (mem ?s') this = sb" "ld64 (mem ?s') (this + 24) = gd" "fs_block_size (mem ?s') this = ?bs"
    unfolding mx(2) fs_super_block_def fs_block_size_def fields_apart
    using fw fv by (simp_all add: fs_super_block_def fs_block_size_def)
  have wx: "fs_group_desc (mem ?s') this (of_nat j) = fs_group_desc (mem w) this (of_nat j)"
    "unat (fs_group_desc (mem w) this (of_nat j)) = unat (free_list u) + 16 + 48 * j" if "j < ?n" for j
  proof -
    have gs: "same_bytes (mem ?s') gd (mem w) gd 64" using a(2) B by (intro kx) simp_all
    have "unat (8 * of_nat j :: u64) + 8 \<le> 64" using small_index(2) [OF that n] that n by linarith
    then have "ld64 (mem ?s') (gd + 8 * of_nat j) = ld64 (mem w) (gd + 8 * of_nat j)" by (rule same_fields(4) [OF gs])
    then show "fs_group_desc (mem ?s') this (of_nat j) = fs_group_desc (mem w) this (of_nat j)"
      using fw(2) fv(3) fx(3) by (simp add: fs_group_desc_def)
    show "unat (fs_group_desc (mem w) this (of_nat j)) = unat (free_list u) + 16 + 48 * j"
      using gv fw(5) that n by simp
  qed
  have fb: "unat (free_list w) < 2 ^ 64" "unat (free_list u) + 48 * ?n \<le> unat (free_list w)" using unat_bound [of "free_list w"] w(4) v(3) by simp_all
  have "fs_image P (mem ?s') device this (unat q + 6672) (unat (free_list ?s'))"
    unfolding fs_image_def fx mx(3)
  proof (intro conjI allI impI refl)
    show "span (unat q + 6672) (unat (free_list w)) this 32" by (rule thw)
    show "span (unat q + 6672) (unat (free_list w)) sb 92" "span (unat q + 6672) (unat (free_list w)) gd 64"
      using a t(4) client_base(4) [OF c] fb(2) by (simp_all add: span_def)
    show "same_bytes (mem ?s') sb P 1024 92"
      using th2 sb unat_bound [of "free_list t"] by (intro same_bytes_trans [OF kx sw]) (simp_all add: span_def)
    fix j assume j: "j < ?n"
    then have j48: "48 * j + 48 \<le> 48 * ?n" by simp
    then have hb: "unat (fs_group_desc (mem w) this (of_nat j)) + 32 \<le> unat (free_list w)" using wx(2) [OF j] fb(2) by linarith
    then show "span (unat q + 6672) (unat (free_list w)) (fs_group_desc (mem ?s') this (of_nat j)) 32"
      using wx [OF j] a by (simp add: span_def)
    show "same_bytes (mem ?s') (fs_group_desc (mem ?s') this (of_nat j)) P (group_pos P j) 32"
      unfolding wx(1) [OF j] using w(5) j hb fb(1) wx(2) [OF j] a by (intro same_bytes_trans [OF kx]) simp_all
  qed
  then have mt: "mounted R V D live device q this (unat (free_list ?s')) ?s'" using c' geo(1) P by (simp add: mounted_def)
  have ft: "s_blocks_count (mem t) sb = s_blocks_count P 1024" "s_blocks_per_group (mem t) sb = s_blocks_per_group P 1024"
    "s_inode_size (mem t) sb = s_inode_size P 1024" "s_log_block_size (mem t) sb = s_log_block_size P 1024"
    using same_fields(2,3) [OF t(8)]
    by (simp_all add: s_blocks_count_def s_blocks_per_group_def s_inode_size_def s_log_block_size_def)
  have lg: "s_log_block_size (mem (put64 (this + 24) gd s5)) sb = s_log_block_size P 1024"
    using same_fields(3) [OF u(4), of 24] by (simp add: s_log_block_size_def)
  have "\<not> 32 \<le> s_log_block_size P 1024" using geo(1) by (simp add: geometry_ok_def word_le_nat_alt word_less_nat_alt)
  then have "EXT2_new V this device s = Some ?s'"
    using t(1,2) u(1) v(1) w(1) geo(2,3) scast_small [OF n]
    by (simp add: EXT2_new_def Let_def t(7) ft lg [unfolded u(3)] u(2) [symmetric] disk_block_size_def [symmetric] disk_groups_def [symmetric] y_def)
  then show ?thesis using that [OF _ mt] fl mx(3) by simp
qed

end
