(* ===== verification/Storage.thy ===== *)
theory Storage
  imports Ext2_Mount
begin

text \<open>
  The storage of the kernel as \<^verbatim>\<open>os_start\<close> brings it up: the block device, its driver and the file
  system on it, and what the file operations promise from then on. The file operations of
  \<^verbatim>\<open>ext2.cpp\<close> are stated here against the volume itself: what a path denotes on the disk.
\<close>

section \<open>Bringing the storage up\<close>

text \<open>The middle part of \<^verbatim>\<open>os_start\<close>; without a block device it stops with an error message.\<close>

definition storage_start :: "'d vio_ops \<Rightarrow> ('d, 'a) fsst_scheme \<Rightarrow> (u64 option \<times> ('d, 'a) fsst_scheme) option" where
  "storage_start V s = do {
     (device, s) \<leftarrow> get_block_device V s;
     if device = 0x0 then Some (None, log ERROR ''Did not find a block device.'' [] s)
     else do {
       (_, s) \<leftarrow> blk_init V device s;
       (ext2, s) \<leftarrow> operator_new 32 s;
       s \<leftarrow> EXT2_new V ext2 device s;
       Some (Some device, s)
     }
   }"

text \<open>
  A disk with contents \<open>D\<close> in slot \<open>i\<close>: it accepts its driver, the initialisation leaves it live,
  and in that state it serves reads.
\<close>

definition disk_at :: "'d vio_ops \<Rightarrow> (nat \<Rightarrow> u8) \<Rightarrow> ('d \<Rightarrow> bool) \<Rightarrow> nat \<Rightarrow> 'd \<Rightarrow> bool" where
  "disk_at V D live i d \<longleftrightarrow> find (offers V 2 2 d) [0..<8] = Some i \<and> (\<exists>stat. accepting V (slot i) stat) \<and> serves V D live (slot i) \<and>
     (\<forall>features desc driver device. live (fold (perform V (slot i)) (init_trace features desc driver device (slot i + 0x100)) d))"

definition storage_cost :: "mem \<Rightarrow> nat" where
  "storage_cost P = 6776 + mount_cost P"

lemma get_block_device_linear:
  fixes s :: "('d, 'a) vio_scheme"
  assumes lin: "linear_heap s" and R: "kernel_image R s" and room: "unat (free_list s) + 56 \<le> heap_limit"
    and i: "find (offers V 2 2 (dev s)) [0..<8] = Some i"
  obtains p s' where "get_block_device V s = Some (p, s')" "linear_heap s'" "kernel_image R s'" "heap_block s' p 24"
    "unat p = unat (free_list s) + 16" "unat (free_list s') = unat (free_list s) + 40" "dev s' = dev s"
    "ld64 (mem s') p = slot i" "ld64 (mem s') (p + 8) = slot i + 0x100"
proof -
  have wf: "heap_wf s" using lin by (simp add: linear_heap_def)
  have fit: "unat (free_list s) + unat (24 :: u64) + 32 \<le> heap_limit" using room by simp
  note rm = linear_room(1) [OF lin fit]
  obtain p t where k: "kalloc 24 s = Some (p, t)" "heap_wf t" "heap_only s t" "unat p = unat (free_list s) + 16" "heap_block t p (unat (24 :: u64))"
    by (rule kalloc_block [OF wf rm])
  note l = kalloc_linear [OF lin fit k(1)]
  have b: "heap_block t p 24" using k(5) by simp
  note f = heap_fields [OF b]
  let ?m = "st64 (st64 (mem t) p (slot i)) (p + 8) (slot i + 0x100)"
  let ?s' = "t\<lparr>mem := ?m, block_device := p\<rparr>"
  have "heap_agree t ?m" using f(1,2) by (intro heap_agree_puts(3) heap_agree_refl)
  then have m: "linear_heap (t\<lparr>mem := ?m\<rparr>)" "kernel_image R (t\<lparr>mem := ?m\<rparr>)"
    using linear_region [OF l(1)] image_region [OF k(2) image_kalloc [OF wf rm k(1) R]] by (simp_all add: heap_agree_def)
  have s': "linear_heap ?s'" "kernel_image R ?s'" by (rule linear_fields(1) [OF _ _ _ _ _ _ m(1)] linear_fields(2) [OF _ _ _ _ _ _ m(2)]; simp)+
  have run: "get_block_device V s = Some (p, ?s')"
    using k(1) i by (simp add: get_block_device_def find_device_eq blk_set_registers_def blk_set_config_def put64_def Let_def)
  have "dev ?s' = dev s" using k(3) by (cases s, cases t) (simp add: heap_only_def)
  moreover have "ld64 ?m p = slot i" by (simp add: ld64_st64_disj disj_def ld64_st64)
  ultimately show ?thesis
    using that [OF run s' _ k(4)] b l(3) by (simp add: heap_block_def ld64_st64)
qed

lemma storage_start_ok:
  fixes s :: "('d, 'a) fsst_scheme"
  assumes lin: "linear_heap s" and R: "kernel_image R s" and P: "P = partition D" and disk: "disk_at V D live i (dev s)"
    and geo: "geometry_ok P" "s_blocks_per_group P 1024 \<noteq> 0" "s_inode_size P 1024 \<noteq> 0"
    and room: "unat (free_list s) + storage_cost P + 48 \<le> heap_limit"
  obtains device q s' where "storage_start V s = Some (Some device, s')"
    "mounted R V D live device q (ext2_instance s') (unat (free_list s')) s'"
    "unat (free_list s') = unat (free_list s) + storage_cost P"
proof -
  have off: "find (offers V 2 2 (dev s)) [0..<8] = Some i" and srv: "serves V D live (slot i)"
    and live: "\<And>f a b c. live (fold (perform V (slot i)) (init_trace f a b c (slot i + 0x100)) (dev s))"
    using disk by (simp_all add: disk_at_def)
  obtain stat where acc: "accepting V (slot i) stat" using disk by (auto simp: disk_at_def)
  have r1: "unat (free_list s) + 56 \<le> heap_limit" using room by (simp add: storage_cost_def)
  obtain p s1 where s1: "get_block_device V s = Some (p, s1)" "linear_heap s1" "kernel_image R s1" "heap_block s1 p 24"
    "unat p = unat (free_list s) + 16" "unat (free_list s1) = unat (free_list s) + 40" "dev s1 = dev s"
    "ld64 (mem s1) p = slot i" "ld64 (mem s1) (p + 8) = slot i + 0x100"
    by (rule get_block_device_linear [OF lin R r1 off])
  have w1: "heap_wf s1" "phys_ok s1" using s1(2) by (simp_all add: linear_heap_def)
  have "unat (free_list s1) + unat (6672 :: u64) + 32 \<le> heap_limit" using room s1(6) by (simp add: storage_cost_def)
  note r2 = linear_room(1) [OF s1(2) this]
  have a2: "accepting V (ld64 (mem s1) p) stat" unfolding s1(8) by (rule acc)
  obtain q features and s2 :: "('d, 'a) fsst_scheme" where s2: "blk_init V p s1 = Some (0, s2)" "driver_ok p q s2"
    "dev s2 = fold (perform V (ld64 (mem s1) p)) (init_trace features (pa s2 q) (pa s2 (avail_addr q)) (pa s2 (used_addr q)) (ld64 (mem s1) (p + 8))) (dev s1)"
    "ld64 (mem s2) p = ld64 (mem s1) p" "q = free_list s1 + 16" "unat (free_list s2) = unat (free_list s1) + 16 + 6672"
    "linear_heap s1 \<longrightarrow> unat (free_list s1) + 6704 \<le> heap_limit \<longrightarrow> linear_heap s2" "\<forall>R. kernel_image R s1 \<longrightarrow> kernel_image R s2"
    by (rule blk_init_ok [OF w1 s1(4) r2 a2])
  have "live (dev s2)" unfolding s2(3) s1(7-9) by (rule live)
  then have "disk_ready V D live p q s2" using s2(2,4) s1(8) srv by (simp add: disk_ready_def)
  moreover have uq: "unat q = unat (free_list s1) + 16" using s2(5) heap_top [OF w1(1)] by (simp add: unat_word_ariths VIRTUAL_HEAP_START_def)
  ultimately have c2: "disk_client R V D live p q s2"
    using s1(2,3,5,6) s2(6,7) s2(8) [rule_format, of R] room heap_base [OF w1(1)] by (simp add: disk_client_def storage_cost_def)
  have "unat (free_list s2) + unat (32 :: u64) + 32 \<le> heap_limit" using room s1(6) s2(6) by (simp add: storage_cost_def)
  then obtain this s3 where s3: "kalloc 32 s2 = Some (this, s3)" "disk_client R V D live p q s3"
    "unat this = unat (free_list s2) + 16" "unat (free_list s3) = unat (free_list s2) + 16 + unat (32 :: u64)"
    by (rule client_kalloc [OF c2])
  have th: "span (unat q + 6672) (unat (free_list s3)) this 32" using s3(3,4) s2(6) uq by (simp add: span_def)
  have "unat (free_list s3) + mount_cost P + 48 \<le> heap_limit" using room s1(6) s2(6) s3(4) by (simp add: storage_cost_def)
  then obtain s' where s': "EXT2_new V this p s3 = Some s'" "mounted R V D live p q this (unat (free_list s')) s'" "ext2_instance s' = this"
    "unat (free_list s') = unat (free_list s3) + mount_cost P"
    by (rule EXT2_new_ok [OF s3(2) P th geo])
  have "p \<noteq> 0" using s1(5) by (metis add_is_0 unat_0 zero_neq_numeral)
  then have "storage_start V s = Some (Some p, s')"
    using s1(1) s2(1) s3(1) s'(1) by (simp add: storage_start_def operator_new_def)
  moreover have "unat (free_list s') = unat (free_list s) + storage_cost P"
    using s'(4) s3(4) s2(6) s1(6) by (simp add: storage_cost_def)
  moreover have "mounted R V D live p q (ext2_instance s') (unat (free_list s')) s'" unfolding s'(3) by (rule s'(2))
  ultimately show ?thesis using that by blast
qed

section \<open>String literals as paths\<close>

definition literal_path :: "image \<Rightarrow> u64 \<Rightarrow> string list \<Rightarrow> bool" where
  "literal_path R p cs \<longleftrightarrow> is_cstr (snd R) p (path_text cs) \<and> unat VIRTUAL_OFFSET \<le> unat p \<and>
     unat p + length (path_text cs) < unat (fst R) \<and> cs \<noteq> [] \<and> list_all component_ok cs"

lemma literal_file_path:
  assumes "mounted R V D live device q this hi s" and l: "literal_path R p cs"
  shows "file_path hi p cs s"
proof -
  have im: "kernel_image R s" using assms(1) by (simp add: mounted_def disk_client_def)
  then have m: "managed_frames_address_start s = fst R" by (simp add: kernel_image_def)
  have b: "unat VIRTUAL_OFFSET \<le> unat p" "unat p + length (path_text cs) < unat (fst R)" "is_cstr (snd R) p (path_text cs)"
    using l by (simp_all add: literal_path_def)
  have "mem s (p + of_nat i) = snd R (p + of_nat i)" if "i \<le> length (path_text cs)" for i
  proof -
    have "unat (p + of_nat i) = unat p + i"
      using that b(2) unat_bound [of "fst R"] by (simp add: unat_word_ariths unat_of_nat)
    then show ?thesis using im that b m by (simp add: kernel_image_def in_image_def)
  qed
  then have "is_cstr (mem s) p (path_text cs)" by (rule is_cstr_cong [OF b(3)])
  then show ?thesis using l m by (simp add: file_path_def stable_def literal_path_def)
qed

section \<open>What a path denotes\<close>

text \<open>
  The volume as its users see it: the inode a path leads to, the size recorded there and the bytes
  from the first block of the file on. \<open>reached\<close> is the last inode on the way of a path that breaks off.
\<close>

definition file_inode_of :: "mem \<Rightarrow> string list \<Rightarrow> u64 option" where
  "file_inode_of P cs = path_lookup P (root_pos P) cs"

definition file_size :: "mem \<Rightarrow> u64 \<Rightarrow> u64" where
  "file_size P pos = ucast (i_size P pos)"

definition file_bytes :: "mem \<Rightarrow> u64 \<Rightarrow> nat \<Rightarrow> u8 list" where
  "file_bytes P pos n = load_bytes P (file_pos P pos) n"

definition reached :: "mem \<Rightarrow> string list \<Rightarrow> u64" where
  "reached P cs = path_reach P (root_pos P) cs"

lemma reached_file: "file_inode_of P cs = Some pos \<Longrightarrow> reached P cs = pos"
  unfolding file_inode_of_def reached_def by (rule path_reach_lookup)

lemma get_file_size_reached:
  fixes s :: "('d, 'a) fsst_scheme"
  assumes mt: "mounted R V D live device q (ext2_instance s) hi s" and path: "file_path hi path cs s"
    and vr: "volume_ready (partition D) cs" and room: "unat (free_list s) + file_cost (partition D) cs + 16 \<le> heap_limit"
  shows "\<exists>s' :: ('d, 'a) fsst_scheme. get_file_size V path s = Some (file_size (partition D) (reached (partition D) cs), s') \<and>
    mounted R V D live device q (ext2_instance s') hi s' \<and> ext2_instance s' = ext2_instance s \<and> vio_only s s' \<and>
    unat (free_list s) \<le> unat (free_list s') \<and> unat (free_list s') \<le> unat (free_list s) + file_cost (partition D) cs \<and>
    kept hi (unat (free_list s)) (mem s) (mem s')"
proof -
  obtain s' where s': "EXT2_get_file_size V (ext2_instance s) path s = Some (file_size (partition D) (reached (partition D) cs), s')"
    "mounted R V D live device q (ext2_instance s) hi s'" "kept hi (unat (free_list s)) (mem s) (mem s')"
    "unat (free_list s) \<le> unat (free_list s')" "unat (free_list s') \<le> unat (free_list s) + file_cost (partition D) cs" "vio_only s s'"
    using get_file_size_ok [OF mt refl path vr room] unfolding file_size_def reached_def by blast
  have "ext2_instance s' = ext2_instance s" using s'(6) by (cases s, cases s') (simp add: vio_only_def)
  then show ?thesis using s' by (intro exI [of _ s']) (simp add: get_file_size_def)
qed

lemma read_file_reached:
  fixes s :: "('d, 'a) fsst_scheme"
  assumes mt: "mounted R V D live device q (ext2_instance s) hi s" and path: "file_path hi path cs s"
    and vr: "volume_ready (partition D) cs"
    and room: "unat (free_list s) + file_cost (partition D) cs + read_cost sz + 16 \<le> heap_limit"
    and data: "span hi (unat (free_list s)) data (unat sz)"
  shows "\<exists>s' :: ('d, 'a) fsst_scheme. read_file V path sz data s = Some (0, s') \<and>
    load_bytes (mem s') data (unat sz) = file_bytes (partition D) (reached (partition D) cs) (unat sz) \<and>
    mounted R V D live device q (ext2_instance s') hi s' \<and> ext2_instance s' = ext2_instance s \<and> vio_only s s' \<and>
    unat (free_list s) \<le> unat (free_list s') \<and> unat (free_list s') \<le> unat (free_list s) + file_cost (partition D) cs + read_cost sz \<and>
    kept hi (unat data) (mem s) (mem s') \<and> kept (unat data + unat sz) (unat (free_list s)) (mem s) (mem s')"
proof -
  have d: "hi \<le> unat data" "unat data + unat sz \<le> unat (free_list s)" using data by (simp_all add: span_def)
  obtain s' where s': "EXT2_read_file V (ext2_instance s) path sz data s = Some (0, s')" "mounted R V D live device q (ext2_instance s) hi s'"
    "same_bytes (mem s') data (partition D) (file_pos (partition D) (reached (partition D) cs)) (unat sz)"
    "kept hi (unat data) (mem s) (mem s')" "kept (unat data + unat sz) (unat (free_list s)) (mem s) (mem s')" "vio_only s s'"
    "unat (free_list s) \<le> unat (free_list s')" "unat (free_list s') \<le> unat (free_list s) + file_cost (partition D) cs + read_cost sz"
    using read_file_ok [OF mt refl path vr room d] unfolding reached_def by blast
  have "ext2_instance s' = ext2_instance s" using s'(6) by (cases s, cases s') (simp add: vio_only_def)
  moreover have "load_bytes (mem s') data (unat sz) = file_bytes (partition D) (reached (partition D) cs) (unat sz)"
    unfolding file_bytes_def using unat_bound [of sz] by (intro same_load_bytes [OF s'(3)]) simp_all
  ultimately show ?thesis using s' by (intro exI [of _ s']) (simp add: read_file_def)
qed

section \<open>Sequences of operations\<close>

text \<open>
  What kernel code does once the volume is mounted, as steps in any order: file operations on paths of
  the volume, allocations, stores into memory obtained after the mount (from \<open>hi\<close> on), and output. A step
  happens where the heap still has the room the operation may need below the limit of the linear heap.
\<close>

inductive fs_step :: "'d vio_ops \<Rightarrow> mem \<Rightarrow> nat \<Rightarrow> ('d, 'a) fsst_scheme \<Rightarrow> ('d, 'a) fsst_scheme \<Rightarrow> bool" for V P hi where
  Size: "\<lbrakk>file_path hi path cs s; volume_ready P cs; unat (free_list s) + file_cost P cs + 16 \<le> heap_limit;
    get_file_size V path s = Some (n, s')\<rbrakk> \<Longrightarrow> fs_step V P hi s s'"
| Read: "\<lbrakk>file_path hi path cs s; volume_ready P cs; unat (free_list s) + file_cost P cs + read_cost sz + 16 \<le> heap_limit;
    span hi (unat (free_list s)) data (unat sz); read_file V path sz data s = Some (r, s')\<rbrakk> \<Longrightarrow> fs_step V P hi s s'"
| Alloc: "\<lbrakk>unat (free_list s) + unat sz + 32 \<le> heap_limit; kalloc sz s = Some (p, s')\<rbrakk> \<Longrightarrow> fs_step V P hi s s'"
| Store: "span hi (unat (free_list s)) a (length bs) \<Longrightarrow> fs_step V P hi s (s\<lparr>mem := store_bytes (mem s) a bs\<rparr>)"
| Print: "fs_step V P hi s (printf fmt args s)"

inductive_cases fs_stepE [consumes 1, case_names Size Read Alloc Store Print]: "fs_step V P hi s s'"

lemma fs_step_mounted:
  fixes s s' :: "('d, 'a) fsst_scheme"
  assumes mt: "mounted R V D live device q (ext2_instance s) hi s" and "fs_step V (partition D) hi s s'"
  shows "mounted R V D live device q (ext2_instance s') hi s' \<and> ext2_instance s' = ext2_instance s \<and> unat (free_list s) \<le> unat (free_list s')"
  using assms(2)
proof (cases rule: fs_stepE)
  case (Size path cs n)
  then show ?thesis using get_file_size_reached [OF mt Size(1-3)] by auto
next
  case (Read path cs sz data r)
  then show ?thesis using read_file_reached [OF mt Read(1-4)] by auto
next
  case (Alloc sz p)
  obtain p' t where t: "kalloc sz s = Some (p', t)" "mounted R V D live device q (ext2_instance s) hi t"
    "unat (free_list t) = unat (free_list s) + 16 + unat sz" "heap_only s t"
    by (rule mounted_kalloc [OF mt Alloc(1)])
  have "ext2_instance t = ext2_instance s" using t(4) by (cases s, cases t) (simp add: heap_only_def)
  then show ?thesis using t Alloc(2) by simp
next
  case (Store a bs)
  then show ?thesis using mounted_store(1) [OF mt, of a bs] by (simp add: span_def)
next
  case (Print fmt args)
  then show ?thesis using mt by (simp add: printf_def vprintf_eq)
qed

section \<open>Properties\<close>


text \<open>
  C5: the well-formedness of the mounted system is kept by every sequence of file operations,
  allocations, stores into memory obtained after the mount, and output, in any order: the device, the
  driver's rings, the superblock and group descriptors in memory, the heap and the kernel image stay
  sound, the instance stays the same object, and every literal of the kernel that is a path stays one.
\<close>

theorem mounted_invariant:
  fixes s s' :: "('d, 'a) fsst_scheme"
  assumes "(fs_step V (partition D) hi)\<^sup>*\<^sup>* s s'" and "mounted R V D live device q (ext2_instance s) hi s"
  shows "mounted R V D live device q (ext2_instance s') hi s' \<and> ext2_instance s' = ext2_instance s \<and>
    unat (free_list s) \<le> unat (free_list s') \<and> (\<forall>p cs. literal_path R p cs \<longrightarrow> file_path hi p cs s')"
proof -
  have "mounted R V D live device q (ext2_instance s') hi s' \<and> ext2_instance s' = ext2_instance s \<and> unat (free_list s) \<le> unat (free_list s')"
    using assms
  proof (induction rule: rtranclp_induct)
    case (step t u)
    then show ?case using fs_step_mounted [of R V D live device q t hi u] by auto
  qed simp
  then show ?thesis using literal_file_path by blast
qed

text \<open>
  C7: \<^verbatim>\<open>get_file_size\<close> of a file that exists on the mounted volume returns the size its inode records
  on the disk, through the superblock, the group descriptors and the directories on the way; the file
  system stays mounted and no memory of the callers changes.
\<close>

theorem get_file_size_correct:
  fixes s :: "('d, 'a) fsst_scheme"
  assumes "mounted R V D live device q (ext2_instance s) hi s" and "file_path hi path cs s"
    and "volume_ready (partition D) cs" and "unat (free_list s) + file_cost (partition D) cs + 16 \<le> heap_limit"
    and "file_inode_of (partition D) cs = Some pos"
  shows "\<exists>s' :: ('d, 'a) fsst_scheme. get_file_size V path s = Some (file_size (partition D) pos, s') \<and>
    mounted R V D live device q (ext2_instance s') hi s' \<and> kept hi (unat (free_list s)) (mem s) (mem s')"
  using get_file_size_reached [OF assms(1-4)] unfolding reached_file [OF assms(5)] by blast

text \<open>
  C3: \<^verbatim>\<open>read_file\<close> of a file that exists on the mounted volume returns 0 and fills the caller's buffer
  with the bytes of the volume from the first block of the file on; the file system stays mounted and
  no other memory of the callers changes.
\<close>

theorem read_file_correct:
  fixes s :: "('d, 'a) fsst_scheme"
  assumes "mounted R V D live device q (ext2_instance s) hi s" and "file_path hi path cs s"
    and "volume_ready (partition D) cs"
    and "unat (free_list s) + file_cost (partition D) cs + read_cost sz + 16 \<le> heap_limit"
    and "span hi (unat (free_list s)) data (unat sz)"
    and "file_inode_of (partition D) cs = Some pos"
  shows "\<exists>s' :: ('d, 'a) fsst_scheme. read_file V path sz data s = Some (0, s') \<and>
    load_bytes (mem s') data (unat sz) = file_bytes (partition D) pos (unat sz) \<and>
    mounted R V D live device q (ext2_instance s') hi s' \<and>
    kept hi (unat data) (mem s) (mem s') \<and> kept (unat data + unat sz) (unat (free_list s)) (mem s) (mem s')"
  using read_file_reached [OF assms(1-5)] unfolding reached_file [OF assms(6)] by blast

text \<open>
  C32: a missing file is not reported. When a name of the path is not in its directory,
  \<^verbatim>\<open>get_file_size\<close> returns the size of the last inode it reached, and \<^verbatim>\<open>read_file\<close> returns 0 and
  delivers the contents of that inode as if they were the file's.
\<close>

theorem missing_file_not_reported:
  fixes s :: "('d, 'a) fsst_scheme"
  assumes "mounted R V D live device q (ext2_instance s) hi s" and "file_path hi path cs s"
    and "volume_ready (partition D) cs"
    and "unat (free_list s) + file_cost (partition D) cs + read_cost sz + 16 \<le> heap_limit"
    and "span hi (unat (free_list s)) data (unat sz)"
    and "file_inode_of (partition D) cs = None"
  shows "(\<exists>s'. get_file_size V path s = Some (file_size (partition D) (reached (partition D) cs), s')) \<and>
    (\<exists>s'. read_file V path sz data s = Some (0, s') \<and>
      load_bytes (mem s') data (unat sz) = file_bytes (partition D) (reached (partition D) cs) (unat sz)) \<and>
    (\<exists>i < length cs. file_inode_of (partition D) (take i cs) = Some (reached (partition D) cs) \<and>
      dir_lookup (partition D) (reached (partition D) cs) (cs ! i) = None)"
proof -
  have "unat (free_list s) + file_cost (partition D) cs + 16 \<le> heap_limit" using assms(4) by simp
  note g = get_file_size_reached [OF assms(1-3) this]
  note r = read_file_reached [OF assms(1-5)]
  have "\<exists>i < length cs. path_lookup P pos (take i cs) = Some (path_reach P pos cs) \<and> dir_lookup P (path_reach P pos cs) (cs ! i) = None"
    if "path_lookup P pos cs = None" for P pos
    using that
  proof (induction P pos cs rule: path_lookup.induct)
    case (2 P pos xs xss)
    show ?case
    proof (cases "dir_lookup P pos xs")
      case None
      then show ?thesis by (intro exI [of _ 0]) simp
    next
      case (Some pos')
      then obtain i where "i < length xss" "path_lookup P pos' (take i xss) = Some (path_reach P pos' xss)"
        "dir_lookup P (path_reach P pos' xss) (xss ! i) = None" using "2.IH" "2.prems" by auto
      then show ?thesis using Some by (intro exI [of _ "Suc i"]) simp
    qed
  qed simp
  from this [OF assms(6) [unfolded file_inode_of_def]] g r show ?thesis
    unfolding file_inode_of_def reached_def by blast
qed

end
