(* ===== verification/Vfs.thy ===== *)
theory Vfs
  imports Storage
begin

text \<open>
  The virtual file system layer, \<^verbatim>\<open>kernel/vfs.cpp\<close> and \<^verbatim>\<open>vfs.h\<close>. A
  \<^verbatim>\<open>VFS\<close> object is ten file pointers (80 bytes), the next descriptor and a file-system
  pointer.
\<close>

record 'd vfsst = "'d fsst" +
  vfs_instance :: u64

definition next_descriptor_addr :: "u64 \<Rightarrow> u64" where
  "next_descriptor_addr this = this + 80"

definition sizeof_VFS :: u64 where
  "sizeof_VFS = 96"

definition VFS_new :: "u64 \<Rightarrow> ('d, 'a) vfsst_scheme \<Rightarrow> ('d, 'a) vfsst_scheme" where
  "VFS_new this s = (put64 (next_descriptor_addr this) 3 s)\<lparr>vfs_instance := this\<rparr>"

definition get_next_descriptor :: "u64 \<Rightarrow> 'a kio_scheme \<Rightarrow> u32 \<times> 'a kio_scheme" where
  "get_next_descriptor this s =
     (let n = ld64 (mem s) (next_descriptor_addr this)
      in (ucast n, put64 (next_descriptor_addr this) (n + 1) s))"

definition open_file ::
  "'d vio_ops \<Rightarrow> u64 \<Rightarrow> u64 \<Rightarrow> ('d, 'a) vfsst_scheme \<Rightarrow> (int \<times> ('d, 'a) vfsst_scheme) option" where
  "open_file V this file_name s = do {
     let ext2 = ext2_instance s;
     (inode, s) \<leftarrow> new_zeroed sizeof_EXT2Inode s;
     s \<leftarrow> get_root_inode V ext2 inode s;
     (_, s) \<leftarrow> get_inode_from_dir V ext2 inode file_name s;
     let (_, s) = get_next_descriptor this s;
     Some (3, s)
   }"

end
