(* ===== verification/Process.thy ===== *)
theory Process
  imports Vfs
begin

text \<open>
  Processes and their working directory, \<^verbatim>\<open>kernel/process/process.cpp\<close> and
  \<^verbatim>\<open>process.h\<close>. A \<^verbatim>\<open>Path\<close> is one pointer; a \<^verbatim>\<open>Process\<close> is 48 bytes:
  id, state, working directory, stack pointer, heap start, entry.

  String literals live where the compiler puts them; \<open>literals\<close> holds their addresses, and the
  theorems that depend on their contents assume \<open>is_cstr\<close> for them.
\<close>

record literals =
  lit_home_user :: u64
  lit_testfile :: u64
  lit_folder_file :: u64
  lit_shell :: u64

section \<open>Path\<close>

definition path_string :: "mem \<Rightarrow> u64 \<Rightarrow> u64" where
  "path_string m this = ld64 m this"

definition Path_new :: "u64 \<Rightarrow> u64 \<Rightarrow> ('d, 'a) vfsst_scheme \<Rightarrow> ('d, 'a) vfsst_scheme option" where
  "Path_new this path s = do {
     sz \<leftarrow> strlen_loop path 0 (mem s);
     (path_buffer, s) \<leftarrow> kalloc sz s;
     let s = snd (memcpy path_buffer path sz s);
     Some (put64 this path_buffer s)
   }"

text \<open>The destination is the caller's; storing to a page that is not mapped is a fault.\<close>

definition copy_into :: "u64 \<Rightarrow> u64 \<Rightarrow> 'a paging_scheme \<Rightarrow> 'a paging_scheme option" where
  "copy_into this buffer s = do {
     let s = printf (''copying'' @ [CHR 0x0A]) [] s;
     sz \<leftarrow> strlen_loop (path_string (mem s) this) 0 (mem s);
     let s = printf (''size: %i'' @ [CHR 0x0A]) [VInt sz] s;
     if \<not> mapped_range s buffer (unat sz) then None
     else Some (snd (memcpy buffer (path_string (mem s) this) sz s))
   }"

section \<open>Process\<close>

datatype ProcessState = READY | BLOCKED

fun state_code :: "ProcessState \<Rightarrow> u32" where
  "state_code READY = 0"
| "state_code BLOCKED = 1"

definition sizeof_Process :: u64 where
  "sizeof_Process = 48"

definition get_id :: "mem \<Rightarrow> u64 \<Rightarrow> u64" where
  "get_id m this = ld64 m this"

definition is_ready :: "mem \<Rightarrow> u64 \<Rightarrow> bool" where
  "is_ready m this \<longleftrightarrow> ld32 m (this + 8) = state_code READY"

definition get_cwd :: "mem \<Rightarrow> u64 \<Rightarrow> u64" where
  "get_cwd m this = ld64 m (this + 16)"

definition get_stack_pointer :: "mem \<Rightarrow> u64 \<Rightarrow> u64" where
  "get_stack_pointer m this = ld64 m (this + 24)"

definition get_heap_start_address :: "mem \<Rightarrow> u64 \<Rightarrow> u64" where
  "get_heap_start_address m this = ld64 m (this + 32)"

definition get_entry_address :: "mem \<Rightarrow> u64 \<Rightarrow> u64" where
  "get_entry_address m this = ld64 m (this + 40)"

definition Process_new ::
  "literals \<Rightarrow> u64 \<Rightarrow> u64 \<Rightarrow> u64 \<Rightarrow> u64 \<Rightarrow> u64 \<Rightarrow> ('d, 'a) vfsst_scheme \<Rightarrow> ('d, 'a) vfsst_scheme option" where
  "Process_new L this process_id start_address stack heap_begin s = do {
     let s = put64 this process_id s;
     let s = put64 (this + 32) heap_begin s;
     let s = put64 (this + 24) stack s;
     let s = put64 (this + 40) start_address s;
     let s = put32 (this + 8) (state_code READY) s;
     (path, s) \<leftarrow> operator_new 8 s;
     s \<leftarrow> Path_new path (lit_home_user L) s;
     Some (put64 (this + 16) path s)
   }"

section \<open>Properties\<close>

text \<open>A string literal: below the heap and outside the pool of frames.\<close>

definition rodata :: "'a vheap_scheme \<Rightarrow> u64 \<Rightarrow> string \<Rightarrow> bool" where
  "rodata s path xs \<longleftrightarrow> is_cstr (mem s) path xs \<and> unat path + length xs < unat VIRTUAL_HEAP_START \<and>
     (\<forall>i \<le> length xs. \<not> in_pool s (path + of_nat i))"

lemma kalloc_rodata:
  assumes wf: "heap_wf s" and room: "kalloc_cost sz \<le> frames_left s" and "kalloc sz s = Some (p, s')"
    and ro: "rodata s path xs"
  shows "rodata s' path xs"
proof -
  obtain t where t: "kalloc sz s = Some (free_list s + 16, t)" "heap_wf t"
    "\<And>x. \<not> in_pool s x \<Longrightarrow> 16 \<le> unat (x - free_list s) \<Longrightarrow> 8 \<le> unat (x - free_list t) \<Longrightarrow> mem t x = mem s x"
    "in_pool t = in_pool s"
    using kalloc_step [OF wf room] by metis
  have t': "t = s'" using t(1) assms(3) by simp
  have "mem s' (path + of_nat i) = mem s (path + of_nat i)" if "i \<le> length xs" for i
  proof -
    have "unat (path + of_nat i) < unat VIRTUAL_HEAP_START"
      using that ro by (simp add: rodata_def unat_word_ariths unat_of_nat VIRTUAL_HEAP_START_def)
    then show ?thesis
      using t(3) [of "path + of_nat i"] below_heap [OF wf, of "path + of_nat i"]
        below_heap [OF t(2), of "path + of_nat i"] ro that t' by (simp add: rodata_def)
  qed
  then show ?thesis
    using ro t(4) t' is_cstr_cong [of "mem s" path xs "mem s'"] by (auto simp: rodata_def)
qed

text \<open>The byte after the last block is the low byte of the free item, whose mark bit is set.\<close>

lemma free_item_byte:
  assumes "heap_wf s"
  shows "mem s (free_list s) \<noteq> 0"
proof -
  have "bit (ld64 (mem s) (free_list s)) 0"
    using assms by (simp add: heap_wf_def heap_node_def is_last_iff)
  then have "bit (mem s (free_list s)) 0"
    by (simp add: ld64_def bit_le_word)
  then show ?thesis by auto
qed

text \<open>
  C37: \<^verbatim>\<open>Path::Path\<close> copies the characters of its argument into a new block and keeps its
  address, but not the terminator: the byte after the copy belongs to the allocator and is not zero,
  so the copy is not a C string, and \<^verbatim>\<open>Path::copy_into\<close> reads past it.
\<close>

theorem Path_new_unterminated:
  fixes s :: "('d, 'a) vfsst_scheme"
  assumes wf: "heap_wf s" and ro: "rodata s path xs" and th: "heap_block s this 8"
    and room: "kalloc_cost (of_nat (length xs)) \<le> frames_left s"
  shows "\<exists>s' :: ('d, 'a) vfsst_scheme. Path_new this path s = Some s' \<and> heap_wf s' \<and>
    load_bytes (mem s') (path_string (mem s') this) (length xs) = map byte_of_char xs \<and>
    mem s' (path_string (mem s') this + of_nat (length xs)) \<noteq> 0"
proof -
  let ?n = "of_nat (length xs) :: u64"
  have cs: "is_cstr (mem s) path xs" using ro by (simp add: rodata_def)
  note un = unat_length_cstr [OF cs]
  obtain p and t :: "('d, 'a) vfsst_scheme" where k: "kalloc ?n s = Some (p, t)" "heap_wf t" "unat p = unat (free_list s) + 16"
    "heap_block t p (unat ?n)" "\<forall>a n. heap_block s a n \<longrightarrow> heap_block t a n"
    by (rule kalloc_block [OF wf room])
  have fl: "free_list t = p + ?n" "unat (free_list t) = unat p + length xs"
  proof -
    obtain t' where "kalloc ?n s = Some (free_list s + 16, t')" "free_list t' = free_list s + 16 + ?n"
      "unat (free_list t') = unat (free_list s) + 16 + unat ?n"
      using kalloc_step [OF wf room] by metis
    then show "free_list t = p + ?n" "unat (free_list t) = unat p + length xs" using k(1,3) un by auto
  qed
  have ro': "rodata t path xs" by (rule kalloc_rodata [OF wf room k(1) ro])
  then have ld: "load_bytes (mem t) path (length xs) = map byte_of_char xs"
    by (auto intro!: nth_equalityI simp: rodata_def is_cstr_def)
  have dj: "disj p (unat ?n) path (unat ?n)"
  proof (cases "length xs = 0")
    case False
    then show ?thesis
      using ro' heap_block_bound [OF k(2,4)] k(4) un
      by (intro disj_nat) (simp_all add: rodata_def heap_block_def VIRTUAL_HEAP_START_def)
  qed (simp add: disj_def)
  let ?bs = "map byte_of_char xs"
  let ?u = "t\<lparr>mem := store_bytes (mem t) p ?bs\<rparr>"
  let ?s' = "put64 this p ?u"
  have ex: "Path_new this path s = Some ?s'"
    using k(1) strlen_cstr [OF cs] by (simp add: Path_new_def memcpy_store [OF dj] un ld)
  have w: "heap_wf ?u"
    using heap_store(1) [OF k(2), of p ?bs] k(4) un by (simp add: heap_block_def)
  have tb: "heap_block ?u this 8" using k(5) th by (simp add: heap_block_def)
  have w': "heap_wf ?s'" by (rule heap_wf_put64 [OF w tb])
  have far: "8 \<le> unat (x - this)" if "unat p \<le> unat x" for x
    using that th k(3) by (auto simp: heap_block_def unat_sub_if')
  have eq: "mem ?s' (p + of_nat i) = mem ?u (p + of_nat i)" if "i \<le> length xs" for i
  proof -
    have "unat (p + of_nat i) = unat p + i"
      using that heap_block_bound [OF k(2,4)] un by (simp add: unat_word_ariths unat_of_nat)
    then show ?thesis using far [of "p + of_nat i"] by (simp add: st64_out)
  qed
  have "mem ?u (p + ?n) \<noteq> 0"
    using free_item_byte [OF w] fl(1) by simp
  then have "mem ?s' (p + ?n) \<noteq> 0" using eq [of "length xs"] by simp
  moreover have "load_bytes (mem ?s') p (length xs) = ?bs"
  proof -
    have "load_bytes (mem ?s') p (length xs) = load_bytes (mem ?u) p (length xs)"
      by (rule nth_equalityI) (use eq in simp_all)
    also have "\<dots> = ?bs" using un unat_bound [of ?n] by (simp add: load_store_same)
    finally show ?thesis .
  qed
  moreover have "path_string (mem ?s') this = p" by (simp add: path_string_def ld64_st64)
  ultimately show ?thesis
    using ex w' by (intro exI [of _ ?s']) simp
qed

end
