(* ===== verification/Scheduler.thy ===== *)
theory Scheduler
  imports Process
begin

text \<open>
  The scheduler and the program loader, \<^verbatim>\<open>kernel/process/scheduler.cpp\<close>,
  \<^verbatim>\<open>scheduler.h\<close>, \<^verbatim>\<open>elf.h\<close>, and the status-register writes of
  \<^verbatim>\<open>process.s\<close>.

  A \<^verbatim>\<open>Scheduler\<close> is 24 bytes (running process, next id, first list item), a
  \<^verbatim>\<open>ProcessListItem\<close> is 24 bytes (next, previous, process). Copying a segment to user
  pages faults when a page of the destination is not mapped; the kernel does not survive a page
  fault, so \<open>None\<close> covers it.
\<close>

record 'd ker = "'d vfsst" +
  created :: bool
  sched_instance :: u64
  sstatus :: u64

section \<open>ELF headers\<close>

definition e_entry :: "mem \<Rightarrow> u64 \<Rightarrow> u64" where
  "e_entry m h = ld64 m (h + 24)"

definition e_phoff :: "mem \<Rightarrow> u64 \<Rightarrow> u64" where
  "e_phoff m h = ld64 m (h + 32)"

definition e_phnum :: "mem \<Rightarrow> u64 \<Rightarrow> u16" where
  "e_phnum m h = ld16 m (h + 56)"

definition p_type :: "mem \<Rightarrow> u64 \<Rightarrow> u32" where
  "p_type m ph = ld32 m ph"

definition p_offset :: "mem \<Rightarrow> u64 \<Rightarrow> u64" where
  "p_offset m ph = ld64 m (ph + 8)"

definition p_vaddr :: "mem \<Rightarrow> u64 \<Rightarrow> u64" where
  "p_vaddr m ph = ld64 m (ph + 16)"

definition p_filesz :: "mem \<Rightarrow> u64 \<Rightarrow> u64" where
  "p_filesz m ph = ld64 m (ph + 32)"

definition p_memsz :: "mem \<Rightarrow> u64 \<Rightarrow> u64" where
  "p_memsz m ph = ld64 m (ph + 40)"

definition sizeof_Phdr :: u64 where
  "sizeof_Phdr = 56"

section \<open>The status register\<close>

definition set_sum_bit :: "('d, 'a) ker_scheme \<Rightarrow> ('d, 'a) ker_scheme" where
  "set_sum_bit s = s\<lparr>sstatus := push_bit 18 1 OR sstatus s\<rparr>"

definition set_spp_zero :: "('d, 'a) ker_scheme \<Rightarrow> ('d, 'a) ker_scheme" where
  "set_spp_zero s = s\<lparr>sstatus := sstatus s AND NOT (push_bit 8 1)\<rparr>"

section \<open>The list of processes\<close>

definition current_process_addr :: "u64 \<Rightarrow> u64" where
  "current_process_addr this = this"

definition next_id_addr :: "u64 \<Rightarrow> u64" where
  "next_id_addr this = this + 8"

definition first_process_addr :: "u64 \<Rightarrow> u64" where
  "first_process_addr this = this + 16"

definition item_next :: "mem \<Rightarrow> u64 \<Rightarrow> u64" where
  "item_next m item = ld64 m item"

definition item_process :: "mem \<Rightarrow> u64 \<Rightarrow> u64" where
  "item_process m item = ld64 m (item + 16)"

text \<open>The walk to the last item.\<close>

partial_function (option) last_item :: "u64 \<Rightarrow> mem \<Rightarrow> u64 option" where
  "last_item item m = (if item_next m item \<noteq> 0 then last_item (item_next m item) m else Some item)"

definition add_new_process :: "u64 \<Rightarrow> u64 \<Rightarrow> ('d, 'a) ker_scheme \<Rightarrow> ('d, 'a) ker_scheme option" where
  "add_new_process this process s = do {
     (newItem, s) \<leftarrow> new_zeroed 24 s;
     let s = put64 newItem 0x0 s;
     let s = put64 (newItem + 16) process s;
     let first = ld64 (mem s) (first_process_addr this);
     if first \<noteq> 0 then do {
       item \<leftarrow> last_item first (mem s);
       let s = put64 item newItem s;
       Some (put64 (newItem + 8) item s)
     } else Some (put64 (first_process_addr this) newItem s)
   }"

definition Scheduler_new :: "u64 \<Rightarrow> ('d, 'a) ker_scheme \<Rightarrow> ('d, 'a) ker_scheme" where
  "Scheduler_new this s =
     (let s = printf ''is in constructor'' [] s;
          s = put64 (next_id_addr this) 0 s
      in put64 (first_process_addr this) 0x0 s)"

definition get_next_process_id :: "u64 \<Rightarrow> ('d, 'a) ker_scheme \<Rightarrow> u64 \<times> ('d, 'a) ker_scheme" where
  "get_next_process_id this s =
     (let n = ld64 (mem s) (next_id_addr this) in (n, put64 (next_id_addr this) (n + 1) s))"

definition get_instance :: "('d, 'a) ker_scheme \<Rightarrow> (u64 \<times> ('d, 'a) ker_scheme) option" where
  "get_instance s =
     (if \<not> created s then do {
        (p, s) \<leftarrow> operator_new 24 s;
        let s = Scheduler_new p s;
        let s = s\<lparr>sched_instance := p\<rparr>;
        let s = s\<lparr>created := True\<rparr>;
        Some (sched_instance s, s)
      } else Some (sched_instance s, s))"

definition get_running_process :: "mem \<Rightarrow> u64 \<Rightarrow> u64" where
  "get_running_process m this = ld64 m (current_process_addr this)"

text \<open>
  The search for a ready process. Following a null pointer is a page fault. Every step over a
  blocked process prints a word.
\<close>

partial_function (option) find_ready :: "u64 \<Rightarrow> ('d, 'a) ker_scheme \<Rightarrow> (u64 \<times> ('d, 'a) ker_scheme) option" where
  "find_ready item s =
     (if item = 0 then None
      else if \<not> is_ready (mem s) (item_process (mem s) item)
      then find_ready (item_next (mem s) item) (printf ''iterating'' [] s)
      else Some (item, s))"

text \<open>\<^verbatim>\<open>run_next_process\<close> ends in user mode: the program counter, the stack pointer and the heap start it is entered with.\<close>

record user_entry =
  u_pc :: u64
  u_sp :: u64
  u_heap :: u64

definition run_next_process :: "u64 \<Rightarrow> ('d, 'a) ker_scheme \<Rightarrow> (user_entry \<times> ('d, 'a) ker_scheme) option" where
  "run_next_process this s = do {
     (item, s) \<leftarrow> find_ready (ld64 (mem s) (first_process_addr this)) s;
     let process = item_process (mem s) item;
     let s = log PROCESS ''Running next process with id %i'' [VInt (get_id (mem s) process)] s;
     let s = put64 (current_process_addr this) process s;
     Some (\<lparr>u_pc = get_entry_address (mem s) process, u_sp = get_stack_pointer (mem s) process,
            u_heap = get_heap_start_address (mem s) process\<rparr>, s)
   }"

section \<open>Loading a program\<close>

text \<open>
  Memory is indexed by virtual addresses. When a page gets a frame, the bytes seen through the page
  become the bytes of the frame, which the direct map shows. The loader may give a page a second
  frame, so it needs this; a page of the kernel heap is mapped once, and what it holds before it
  is written is unknown anyway.
\<close>

definition map_user_page :: "u64 \<Rightarrow> u64 \<Rightarrow> ('d, 'a) ker_scheme \<Rightarrow> ('d, 'a) ker_scheme option" where
  "map_user_page page frame s = do {
     s \<leftarrow> map_page page frame 0x1F s;
     Some (s\<lparr>mem := store_bytes (mem s) page (load_bytes (mem s) (frame + VIRTUAL_OFFSET) 4096)\<rparr>)
   }"

text \<open>The inner loop: \<open>n\<close> times a fresh frame for the same page.\<close>

fun map_segment :: "nat \<Rightarrow> u64 \<Rightarrow> ('d, 'a) ker_scheme \<Rightarrow> ('d, 'a) ker_scheme option" where
  "map_segment 0 page s = Some s"
| "map_segment (Suc n) page s = do {
     (frame, s) \<leftarrow> kalloc_frame s;
     s \<leftarrow> map_user_page page frame s;
     map_segment n page s
   }"

definition load_segment :: "u64 \<Rightarrow> u64 \<Rightarrow> u64 \<Rightarrow> ('d, 'a) ker_scheme \<Rightarrow> (u64 \<times> ('d, 'a) ker_scheme) option" where
  "load_segment contents ph data_end s =
     (if p_type (mem s) ph \<noteq> 0x1 then Some (data_end, s)
      else do {
        let amount_pages_to_map = p_memsz (mem s) ph div PAGE_SIZE + 1;
        let vaddr = p_vaddr (mem s) ph;
        let virtual_address_start_address = vaddr - vaddr mod PAGE_SIZE;
        s \<leftarrow> map_segment (unat amount_pages_to_map) virtual_address_start_address s;
        let dest = virtual_address_start_address + vaddr mod PAGE_SIZE;
        if \<not> mapped_range s dest (unat (p_filesz (mem s) ph)) then None
        else do {
          let s = snd (memcpy dest (contents + p_offset (mem s) ph) (p_filesz (mem s) ph) s);
          let seg_end = p_vaddr (mem s) ph + p_memsz (mem s) ph;
          Some (if data_end < seg_end then seg_end else data_end, s)
        }
      })"

fun load_segments :: "u64 \<Rightarrow> u64 \<Rightarrow> nat \<Rightarrow> u64 \<Rightarrow> ('d, 'a) ker_scheme \<Rightarrow> (u64 \<times> ('d, 'a) ker_scheme) option" where
  "load_segments contents ph 0 data_end s = Some (data_end, s)"
| "load_segments contents ph (Suc n) data_end s = do {
     (data_end, s) \<leftarrow> load_segment contents ph data_end s;
     load_segments contents (ph + sizeof_Phdr) n data_end s
   }"

definition submit_new_process ::
  "'d vio_ops \<Rightarrow> literals \<Rightarrow> u64 \<Rightarrow> u64 \<Rightarrow> ('d, 'a) ker_scheme \<Rightarrow> (int \<times> ('d, 'a) ker_scheme) option" where
  "submit_new_process V L this file s = do {
     let s = log PROCESS ''Creating process %s'' [VStr (cstr (mem s) file)] s;
     (_, s) \<leftarrow> kalloc_frame s;
     (file_size, s) \<leftarrow> get_file_size V file s;
     (contents, s) \<leftarrow> kalloc file_size s;
     (_, s) \<leftarrow> read_file V file file_size contents s;
     let n = unat (e_phnum (mem s) contents);
     let ph = contents + e_phoff (mem s) contents;
     let s = set_sum_bit s;
     (data_end, s) \<leftarrow> load_segments contents ph n 0x0 s;
     let data_end = data_end + PAGE_SIZE - data_end mod PAGE_SIZE;
     (heap_frame, s) \<leftarrow> kalloc_frame s;
     s \<leftarrow> map_user_page data_end heap_frame s;
     (stack_frame, s) \<leftarrow> kalloc_frame s;
     let stack_page = 0x100000;
     s \<leftarrow> map_user_page stack_page stack_frame s;
     let stack_pointer = stack_page + 4000;
     let s = set_spp_zero s;
     (process, s) \<leftarrow> operator_new sizeof_Process s;
     let (process_id, s) = get_next_process_id this s;
     s \<leftarrow> Process_new L process process_id (e_entry (mem s) contents) stack_pointer data_end s;
     s \<leftarrow> add_new_process this process s;
     Some (0, s)
   }"

section \<open>The process list as a list\<close>

text \<open>
  \<open>items m p is\<close>: following \<^verbatim>\<open>next\<close> from \<open>p\<close> visits the list items \<open>is\<close> and ends at
  the null pointer. \<open>sched_wf\<close> adds that the scheduler object and the items are separate objects
  on a well-formed heap.
\<close>

fun items :: "mem \<Rightarrow> u64 \<Rightarrow> u64 list \<Rightarrow> bool" where
  "items m p [] \<longleftrightarrow> p = 0"
| "items m p (i # is) \<longleftrightarrow> p = i \<and> i \<noteq> 0 \<and> items m (item_next m i) is"

definition sched_wf :: "'a vheap_scheme \<Rightarrow> u64 \<Rightarrow> u64 list \<Rightarrow> bool" where
  "sched_wf s this is \<longleftrightarrow> heap_wf s \<and> heap_block s this 24 \<and> distinct is \<and>
     (\<forall>i \<in> set is. heap_block s i 24 \<and> apart i 24 this 24 \<and> (\<forall>j \<in> set is. i \<noteq> j \<longrightarrow> apart i 24 j 24)) \<and>
     items (mem s) (ld64 (mem s) (first_process_addr this)) is"

lemma items_cong:
  assumes "items m p is" and "\<And>i. i \<in> set is \<Longrightarrow> item_next m' i = item_next m i"
  shows "items m' p is"
  using assms by (induction "is" arbitrary: p) auto

lemma items_append:
  assumes "items m p (is @ [i])" and "distinct (is @ [i])"
    and "\<And>j. j \<in> set is \<Longrightarrow> item_next m' j = item_next m j"
    and "item_next m' i = q" "q \<noteq> 0" "item_next m' q = 0"
  shows "items m' p (is @ [i, q])"
  using assms by (induction "is" arbitrary: p) auto

lemma items_nonnull: "items m p (is @ [i]) \<Longrightarrow> p \<noteq> 0"
  by (cases "is") auto

lemma last_item_items: "items m p (is @ [i]) \<Longrightarrow> last_item p m = Some i"
proof (induction "is" arbitrary: p)
  case Nil
  then show ?case by (subst last_item.simps) simp
next
  case (Cons a "is")
  then have "last_item p m = last_item (item_next m a) m"
    using items_nonnull [of m "item_next m a" "is" i] by (subst last_item.simps) simp
  with Cons show ?case by simp
qed

lemma find_ready_items:
  assumes "items (mem s) p (ps @ i # qs)" and "\<forall>j \<in> set ps. \<not> is_ready (mem s) (item_process (mem s) j)"
    and "is_ready (mem s) (item_process (mem s) i)"
  shows "\<exists>s'. find_ready p s = Some (i, s') \<and> s' = s\<lparr>out := out s @ concat (replicate (length ps) ''iterating'')\<rparr>"
  using assms
proof (induction ps arbitrary: p s)
  case Nil
  then show ?case by (subst find_ready.simps) simp
next
  case (Cons j ps)
  let ?t = "printf ''iterating'' [] s"
  have t: "?t = s\<lparr>out := out s @ ''iterating''\<rparr>" by (simp add: printf_eq)
  have "find_ready p s = find_ready (item_next (mem s) j) ?t"
    using Cons.prems by (subst find_ready.simps) simp
  moreover have "\<exists>s'. find_ready (item_next (mem s) j) ?t = Some (i, s') \<and>
      s' = ?t\<lparr>out := out ?t @ concat (replicate (length ps) ''iterating'')\<rparr>"
    using Cons.prems by (intro Cons.IH) simp_all
  ultimately show ?case by (simp add: t)
qed

lemma find_ready_none:
  assumes "items (mem s) p is" and "\<forall>j \<in> set is. \<not> is_ready (mem s) (item_process (mem s) j)"
  shows "find_ready p s = None"
  using assms
proof (induction "is" arbitrary: p s)
  case Nil
  then show ?case by (subst find_ready.simps) simp
next
  case (Cons j ps)
  then have "find_ready p s = find_ready (item_next (mem s) j) (printf ''iterating'' [] s)"
    by (subst find_ready.simps) simp
  then show ?case using Cons by simp
qed

lemma sched_frame:
  assumes "sched_wf s this is" and "heap_wf s'" and "\<forall>a n. heap_block s a n \<longrightarrow> heap_block s' a n"
    and "ld64 (mem s') (first_process_addr this) = ld64 (mem s) (first_process_addr this)"
    and "\<forall>i \<in> set is. ld64 (mem s') i = ld64 (mem s) i"
  shows "sched_wf s' this is"
  using assms items_cong [of "mem s" _ "is" "mem s'"] by (auto simp: sched_wf_def item_next_def)

text \<open>The new item before it is linked in.\<close>

lemma new_item_ok:
  assumes wf: "sched_wf s this is" and room: "kalloc_cost 24 \<le> frames_left s"
  obtains q s1 where "new_zeroed 24 s = Some (q, s1)" "sched_wf (put64 (q + 16) p (put64 q 0 s1)) this is"
    "heap_only s (put64 (q + 16) p (put64 q 0 s1))" "heap_block s1 q 24" "unat q = unat (free_list s) + 16"
    "\<forall>a. heap_block s a 8 \<longrightarrow> heap_block s1 a 8 \<and> ld64 (mem (put64 (q + 16) p (put64 q 0 s1))) a = ld64 (mem s) a"
    "ld64 (mem (put64 (q + 16) p (put64 q 0 s1))) q = 0"
    "ld64 (mem (put64 (q + 16) p (put64 q 0 s1))) (q + 16) = p"
    "frames_left s \<le> frames_left (put64 (q + 16) p (put64 q 0 s1)) + kalloc_cost 24"
    "\<forall>a n. heap_block s a n \<longrightarrow> heap_block s1 a n"
proof -
  have hw: "heap_wf s" using wf by (simp add: sched_wf_def)
  obtain q s1 where k: "new_zeroed 24 s = Some (q, s1)" "heap_wf s1" "heap_only s s1"
    "unat q = unat (free_list s) + 16" "heap_block s1 q (unat (24 :: u64))"
    "frames_left s \<le> frames_left s1 + kalloc_cost 24"
    "\<forall>a n. heap_block s a n \<longrightarrow> heap_block s1 a n"
    "\<forall>x. unat VIRTUAL_HEAP_START \<le> unat x \<longrightarrow> unat x < unat (free_list s) \<longrightarrow> mem s1 x = mem s x"
    by (rule new_zeroed_ok [OF hw room])
  have q: "heap_block s1 q 24" using k(5) by simp
  note f = heap_fields [OF q]
  let ?s3 = "put64 (q + 16) p (put64 q 0 s1)"
  have old: "heap_block s1 a 8 \<and> ld64 (mem ?s3) a = ld64 (mem s) a" if a: "heap_block s a 8" for a
  proof -
    have b: "heap_block s1 a 8" using k(7) a by blast
    have "apart q 8 a 8" "apart (q + 16) 8 a 8"
      using a k(4) f(5) by (auto simp: apart_def heap_block_def)
    then have "ld64 (mem ?s3) a = ld64 (mem s1) a"
      using ld64_put64_apart [OF k(2) f(1) b] ld64_put64_apart [OF k(2) f(3) b] by simp
    also have "\<dots> = ld64 (mem s) a" by (rule ld64_block_cong [OF a]) (use k(8) in blast)
    finally show ?thesis using b by blast
  qed
  have w3: "heap_wf ?s3" "frames_left ?s3 = frames_left s1"
    using heap_wf_put64 [OF k(2) f(1)] heap_wf_put64 [of "put64 q 0 s1" "q + 16"] f(3) by simp_all
  have blk: "heap_block s (first_process_addr this) 8" "\<forall>i \<in> set is. heap_block s i 8"
    using wf heap_fields [of s] by (auto simp: sched_wf_def first_process_addr_def)
  have "sched_wf ?s3 this is"
    using old blk k(7) by (intro sched_frame [OF wf w3(1)]) simp_all
  moreover have "ld64 (mem ?s3) q = 0"
    using ld64_put64_apart [OF k(2) f(3,1)] f(5) by (simp add: apart_def ld64_st64)
  moreover have "heap_only s ?s3"
    using k(3) heap_only_put64 heap_only_trans by blast
  ultimately show ?thesis
    using old w3(2) k(6,7) by (intro that [OF k(1) _ _ q k(4)]) (simp_all add: ld64_st64)
qed

lemma add_new_process_ok:
  fixes s :: "('d, 'a) ker_scheme"
  assumes wf: "sched_wf s this is" and room: "kalloc_cost 24 \<le> frames_left s"
  shows "\<exists>s' q. add_new_process this p s = Some s' \<and> sched_wf s' this (is @ [q]) \<and> heap_only s s' \<and>
    item_process (mem s') q = p \<and> (\<forall>i \<in> set is. item_process (mem s') i = item_process (mem s) i) \<and>
    frames_left s \<le> frames_left s' + kalloc_cost 24 \<and> (\<forall>a n. heap_block s a n \<longrightarrow> heap_block s' a n) \<and>
    (\<forall>a. heap_block s a 8 \<and> (\<forall>i \<in> set is. apart i 8 a 8) \<and> apart (first_process_addr this) 8 a 8 \<longrightarrow>
       ld64 (mem s') a = ld64 (mem s) a)"
proof -
  obtain q and s1 :: "('d, 'a) ker_scheme" where k: "new_zeroed 24 s = Some (q, s1)" "sched_wf (put64 (q + 16) p (put64 q 0 s1)) this is"
    "heap_only s (put64 (q + 16) p (put64 q 0 s1))" "heap_block s1 q 24" "unat q = unat (free_list s) + 16"
    "\<forall>a. heap_block s a 8 \<longrightarrow> heap_block s1 a 8 \<and> ld64 (mem (put64 (q + 16) p (put64 q 0 s1))) a = ld64 (mem s) a"
    "ld64 (mem (put64 (q + 16) p (put64 q 0 s1))) q = 0"
    "ld64 (mem (put64 (q + 16) p (put64 q 0 s1))) (q + 16) = p"
    "frames_left s \<le> frames_left (put64 (q + 16) p (put64 q 0 s1)) + kalloc_cost 24"
    "\<forall>a n. heap_block s a n \<longrightarrow> heap_block s1 a n"
    by (rule new_item_ok [OF assms])
  define t where "t = put64 (q + 16) p (put64 q 0 s1)"
  note k = k [folded t_def]
  have tb: "heap_block t a n = heap_block s1 a n" for a n by (simp add: t_def)
  have tw: "heap_wf t" using k(2) by (simp add: sched_wf_def)
  have qb: "heap_block t q 24" using k(4) tb by simp
  note f = heap_fields [OF qb]
  have old: "heap_block t a 8" "ld64 (mem t) a = ld64 (mem s) a" if "heap_block s a 8" for a
    using k(6) that tb by auto
  have fp: "heap_block t (first_process_addr this) 8" "unat (first_process_addr this) = unat this + 16"
    using k(2) heap_fields [of t this] by (auto simp: sched_wf_def first_process_addr_def)
  let ?first = "ld64 (mem t) (first_process_addr this)"
  have qa: "apart q 24 a n" if "heap_block s a n" for a n
    using that k(5) by (auto simp: apart_def heap_block_def)
  have q0: "q \<noteq> 0" using k(5) by (metis add_is_0 unat_0 zero_neq_numeral)
  have it: "items (mem t) ?first is" using k(2) by (simp add: sched_wf_def)
  have ib: "heap_block s i 24" "apart i 24 this 24" if "i \<in> set is" for i
    using wf that by (auto simp: sched_wf_def)
  have thisb: "heap_block s this 24" using wf by (simp add: sched_wf_def)
  note ifd = heap_fields [OF ib(1)]
  have sep: "heap_block s' this 24 \<and> distinct (is @ [q]) \<and>
      (\<forall>i \<in> set (is @ [q]). heap_block s' i 24 \<and> apart i 24 this 24 \<and>
         (\<forall>j \<in> set (is @ [q]). i \<noteq> j \<longrightarrow> apart i 24 j 24))"
    if "free_list s' = free_list t" for s' :: "('d, 'a) ker_scheme"
    using k(2) qb qa [OF thisb] qa [OF ib(1)] k(5) that wf
    by (auto simp: sched_wf_def heap_block_def apart_def)
  show ?thesis
  proof (cases "is" rule: rev_cases)
    case Nil
    let ?s' = "put64 (first_process_addr this) q t"
    have "apart (first_process_addr this) 8 q 8" "apart (first_process_addr this) 8 (q + 16) 8"
      using fp(2) k(5) thisb f(5) by (auto simp: apart_def heap_block_def)
    then have n: "ld64 (mem ?s') q = 0" "ld64 (mem ?s') (q + 16) = p"
      using ld64_put64_apart [OF tw fp(1) f(1)] ld64_put64_apart [OF tw fp(1) f(3)] k(7,8) by simp_all
    have "add_new_process this p s = Some ?s'"
      using k(1) it Nil by (simp add: add_new_process_def Let_def t_def)
    moreover have "sched_wf ?s' this (is @ [q])"
      using sep [of ?s'] heap_wf_put64(1) [OF tw fp(1), of q] Nil n q0
      by (simp add: sched_wf_def item_next_def ld64_st64)
    moreover have "ld64 (mem ?s') a = ld64 (mem s) a"
      if "heap_block s a 8" "apart (first_process_addr this) 8 a 8" for a
      using ld64_put64_apart [OF tw fp(1) old(1) that(2)] old(2) that by simp
    ultimately show ?thesis
      using Nil n heap_only_trans [OF k(3) heap_only_put64] heap_wf_put64(3) [OF tw fp(1)] k(9,10) tb
      by (intro exI [of _ ?s'] exI [of _ q]) (simp add: item_process_def)
  next
    case (snoc js l)
    let ?t1 = "put64 l q t"
    let ?s' = "put64 (q + 8) l ?t1"
    have l: "l \<in> set is" using snoc by simp
    have lb: "heap_block t l 8" using old(1) ifd(1) [OF l] by blast
    have w: "heap_wf ?t1" "heap_wf ?s'" "frames_left ?s' = frames_left t"
      using heap_wf_put64 [OF tw lb] heap_wf_put64 [of ?t1 "q + 8"] f(2) by simp_all
    have ql: "apart (q + 8) 8 l 8" using qa [OF ib(1) [OF l]] f(4) by (auto simp: apart_def)
    have rd: "ld64 (mem ?s') a = ld64 (mem t) a"
      if "heap_block t a 8" "apart l 8 a 8" "apart (q + 8) 8 a 8" for a
      using ld64_put64_apart [OF tw lb that(1,2)] ld64_put64_apart [OF w(1) _ _ that(3)] f(2) that(1) by simp
    have rdl: "ld64 (mem ?s') l = q"
      using ld64_put64_apart [OF w(1) _ _ ql] f(2) lb by (simp add: ld64_st64)
    have "apart l 8 q 8" "apart l 8 (q + 16) 8"
      using qa [OF ib(1) [OF l]] f(5) ib(1) [OF l] k(5) by (auto simp: apart_def heap_block_def)
    then have n: "ld64 (mem ?s') q = 0" "ld64 (mem ?s') (q + 16) = p"
      using rd [OF f(1)] rd [OF f(3)] k(7,8) f(4,5) by (auto simp: apart_def)
    have olds: "ld64 (mem ?s') a = ld64 (mem s) a" if a: "heap_block s a 8" "apart l 8 a 8" for a
    proof -
      have "apart (q + 8) 8 a 8" using qa [OF a(1)] f(4) a(1) k(5) by (auto simp: apart_def heap_block_def)
      then show ?thesis using rd [OF old(1) [OF a(1)] a(2)] old(2) [OF a(1)] by simp
    qed
    have lastp: "last_item ?first (mem t) = Some l" "?first \<noteq> 0"
      using it snoc last_item_items items_nonnull by auto
    have ex: "add_new_process this p s = Some ?s'"
      using k(1) lastp by (simp add: add_new_process_def Let_def t_def)
    have firstsame: "ld64 (mem ?s') (first_process_addr this) = ?first"
    proof -
      have "apart l 8 (first_process_addr this) 8" using ib(2) [OF l] fp(2) by (auto simp: apart_def)
      then show ?thesis
        using olds [of "first_process_addr this"] old(2) heap_fields(3) [OF thisb]
        by (simp add: first_process_addr_def)
    qed
    have js: "ld64 (mem ?s') i = ld64 (mem t) i" if "i \<in> set js" for i
    proof -
      have i: "i \<in> set is" "i \<noteq> l" using that snoc wf by (auto simp: sched_wf_def)
      then have "apart l 8 i 8" using wf l by (fastforce simp: sched_wf_def apart_def)
      then show ?thesis using olds [OF ifd(1) [OF i(1)]] old(2) [OF ifd(1) [OF i(1)]] by simp
    qed
    have "items (mem ?s') ?first (js @ [l, q])"
      using it snoc wf js rdl q0 n(1)
      by (intro items_append [of "mem t"]) (auto simp: sched_wf_def item_next_def)
    then have "sched_wf ?s' this (is @ [q])"
      using sep [of ?s'] w(2) firstsame snoc by (simp add: sched_wf_def)
    moreover have "ld64 (mem ?s') (i + 16) = ld64 (mem s) (i + 16)" if i: "i \<in> set is" for i
    proof -
      have "apart l 8 (i + 16) 8"
        using wf l i ifd(5) [OF i] ifd(5) [OF l] by (fastforce simp: sched_wf_def apart_def)
      then show ?thesis by (rule olds [OF ifd(3) [OF i]])
    qed
    moreover have "heap_only s ?s'"
      using heap_only_trans [OF heap_only_trans [OF k(3) heap_only_put64] heap_only_put64] .
    ultimately show ?thesis
      using ex n w(3) k(9,10) tb olds l by (intro exI [of _ ?s'] exI [of _ q]) (auto simp: item_process_def)
  qed
qed

lemma get_instance_ok:
  fixes s :: "('d, 'a) ker_scheme"
  assumes wf: "heap_wf s" and room: "kalloc_cost 24 \<le> frames_left s" and "\<not> created s"
  obtains p and s' :: "('d, 'a) ker_scheme" where "get_instance s = Some (p, s')" "sched_wf s' p []"
    "ld64 (mem s') (next_id_addr p) = 0" "created s'" "sched_instance s' = p"
    "frames_left s \<le> frames_left s' + kalloc_cost 24" "get_instance s' = Some (p, s')"
    "unat p = unat (free_list s) + 16"
proof -
  obtain p t where k: "kalloc 24 s = Some (p, t)" "heap_wf t" "heap_only s t"
    "p = free_list s + 16" "unat p = unat (free_list s) + 16" "heap_block t p (unat (24 :: u64))"
    "frames_left s \<le> frames_left t + kalloc_cost 24"
    by (rule kalloc_block [OF wf room])
  have p: "heap_block t p 24" using k(6) by simp
  note f = heap_fields [OF p]
  let ?t = "printf ''is in constructor'' [] t"
  have tt: "heap_wf ?t" "free_list ?t = free_list t" "frames_left ?t = frames_left t"
    "heap_block ?t a n = heap_block t a n" for a n
    using k(2) by (simp_all add: printf_eq heap_wf_out frames_left_def state_simps heap_block_def)
  let ?u = "put64 (first_process_addr p) 0 (put64 (next_id_addr p) 0 ?t)"
  let ?s' = "?u\<lparr>sched_instance := p, created := True\<rparr>"
  have w: "heap_wf (put64 (next_id_addr p) 0 ?t)" "frames_left (put64 (next_id_addr p) 0 ?t) = frames_left t"
    using heap_wf_put64 [of ?t "next_id_addr p" 0] tt f by (simp_all add: next_id_addr_def)
  have u: "heap_wf ?u" "frames_left ?u = frames_left t"
    using heap_wf_put64 [of "put64 (next_id_addr p) 0 ?t" "first_process_addr p" 0] w tt f
    by (simp_all add: first_process_addr_def)
  have y: "heap_wf ?s' = heap_wf ?u" "frames_left ?s' = frames_left ?u"
    by (rule heap_wf_cong; simp)+
  have "heap_block ?s' = heap_block t" by (simp add: heap_block_def printf_eq fun_eq_iff)
  note x = y this
  have g: "get_instance s = Some (p, ?s')"
    using assms(3) k(1) by (simp add: get_instance_def operator_new_def Scheduler_new_def Let_def)
  have "ld64 (mem ?s') (next_id_addr p) = 0" "ld64 (mem ?s') (first_process_addr p) = 0"
    using ld64_put64_apart [OF k(2) f(3,2)] f(4,5)
    by (simp_all add: next_id_addr_def first_process_addr_def ld64_st64 apart_def)
  moreover have "sched_wf ?s' p []"
    using calculation(2) x(1,3) u(1) p by (simp add: sched_wf_def)
  moreover have "get_instance ?s' = Some (p, ?s')" by (simp add: get_instance_def)
  ultimately show ?thesis
    using u(2) x(2) k(5,7) by (intro that [OF g]) simp_all
qed

text \<open>A boot state, for the concrete instances.\<close>

definition sample_ker :: "unit ker" where
  "sample_ker = vheap.extend sample_heap \<lparr>dev = (), block_device = 0, console_device = 0, ext2_instance = 0,
     vfs_instance = 0, created = False, sched_instance = 0, sstatus = 0\<rparr>"

lemma sample_ker_boot:
  obtains s t :: "unit ker" where "paging_init sample_ker = Some s" "virtual_allocator_init s = Some t" "heap_wf t"
    "NFRAMES - 6 \<le> frames_left t" "free_list t = VIRTUAL_HEAP_START" "\<not> created t" "quiet t" "out t = []" "logLevel t = 0"
    "\<forall>v. unat v < 2 ^ 47 \<longrightarrow> sv48 t v = None"
proof -
  have "phys_layout sample_ker" "frames_zero sample_ker" "used sample_ker = {}"
    by (simp_all add: sample_ker_def vheap.defs sample_heap_def paging.defs sample_paging_def phys_layout_def phys_base_def
      VIRTUAL_OFFSET_def NFRAMES_def frames_zero_def used_def)
  from boot_heap [OF this] obtain s t :: "unit ker" where t: "paging_init sample_ker = Some s" "virtual_allocator_init s = Some t"
    "heap_wf t" "NFRAMES - 6 \<le> frames_left t" "free_list t = VIRTUAL_HEAP_START"
    "vheap.more t = vheap.more sample_ker" "logLevel t = logLevel sample_ker" "quiet sample_ker \<longrightarrow> out t = out sample_ker"
    "\<forall>v. unat v < 2 ^ 47 \<longrightarrow> sv48 t v = None"
    by metis
  have "logLevel sample_ker = 0" "out sample_ker = []" "quiet sample_ker"
    by (simp_all add: sample_ker_def vheap.defs sample_heap_def paging.defs sample_paging_def quiet_def)
  moreover have "\<not> created t"
    using t(6) by (cases t) (simp add: sample_ker_def vheap.defs)
  ultimately show ?thesis
    using t by (intro that [OF t(1-5)]) (simp_all add: quiet_def)
qed

section \<open>Properties\<close>

theorem Path_new_unterminated_witness:
  "\<exists>(s :: unit ker) this path s'. is_cstr (mem s) path ''/home/user/'' \<and> Path_new this path s = Some s' \<and>
     mem s' (path_string (mem s') this + 11) \<noteq> 0"
proof -
  obtain r t :: "unit ker" where t: "heap_wf t" "NFRAMES - 6 \<le> frames_left t"
    by (rule sample_ker_boot)
  have room: "kalloc_cost 8 \<le> frames_left t" using t(2) by (simp add: kalloc_cost_def NFRAMES_def)
  obtain this and u :: "unit ker" where u: "heap_wf u" "heap_block u this (unat (8 :: u64))"
    "frames_left t \<le> frames_left u + kalloc_cost 8"
    by (rule kalloc_block [OF t(1) room])
  let ?xs = "''/home/user/''" and ?path = "0x8000 :: u64"
  let ?s = "u\<lparr>mem := store_bytes (mem u) ?path (map byte_of_char ?xs @ [0])\<rparr>"
  have "unat ?path + length (map byte_of_char ?xs @ [0]) \<le> 2 ^ 47" by simp
  note ls = low_store [OF u(1) this]
  have cs: "is_cstr (mem ?s) ?path ?xs"
    using is_cstr_store [of ?xs] by simp
  moreover have "\<not> in_pool ?s (?path + of_nat i)" if "i \<le> length ?xs" for i
    using that by (intro low_outside [OF ls(1)]) (simp add: unat_word_ariths unat_of_nat)
  ultimately have ro: "rodata ?s ?path ?xs" by (simp add: rodata_def VIRTUAL_HEAP_START_def)
  have "heap_block ?s this 8" using u(2) by (simp add: heap_block_def)
  moreover have "kalloc_cost (of_nat (length ?xs)) \<le> frames_left ?s"
    unfolding ls(3) using u(3) t(2) by (simp add: kalloc_cost_def NFRAMES_def)
  ultimately obtain s' where "Path_new this ?path ?s = Some s'"
    "mem s' (path_string (mem s') this + of_nat (length ?xs)) \<noteq> 0"
    using Path_new_unterminated [OF ls(1) ro] by blast
  then show ?thesis using cs by (intro exI [of _ ?s] exI [of _ this] exI [of _ ?path] exI [of _ s']) simp
qed

text \<open>
  C14: \<^verbatim>\<open>Scheduler::add_new_process\<close> appends. With a well-formed process list and room for
  one list item, the call returns, the list stays well formed, and read as a list of processes it is
  the old list with the new process at its end.
\<close>

theorem add_new_process_appends:
  assumes "sched_wf s this is" and "kalloc_cost 24 \<le> frames_left s"
  shows "\<exists>s' q. add_new_process this p s = Some s' \<and> sched_wf s' this (is @ [q]) \<and>
    map (item_process (mem s')) (is @ [q]) = map (item_process (mem s)) is @ [p]"
  using add_new_process_ok [OF assms, of p] by (metis (no_types, lifting) list.simps(8,9) map_append map_eq_conv)

text \<open>A scheduler on the booted kernel of the concrete instances.\<close>

lemma sample_scheduler:
  obtains s t sch where "get_instance (s :: unit ker) = Some (sch, t)" "sched_wf t sch []" "kalloc_cost 24 \<le> frames_left s"
    "heap_wf s" "\<not> created s" "NFRAMES - 10 \<le> frames_left t"
proof -
  obtain r s :: "unit ker" where s: "heap_wf s" "NFRAMES - 6 \<le> frames_left s" "\<not> created s"
    by (rule sample_ker_boot)
  then have room: "kalloc_cost 24 \<le> frames_left s" by (simp add: kalloc_cost_def NFRAMES_def)
  obtain sch and t :: "unit ker" where t: "get_instance s = Some (sch, t)" "sched_wf t sch []"
    "frames_left s \<le> frames_left t + kalloc_cost 24"
    by (rule get_instance_ok [OF s(1) room s(3)])
  have "NFRAMES - 10 \<le> frames_left t"
    using t(3) s(2) by (simp add: kalloc_cost_def)
  with t(1,2) room s(1,3) show ?thesis by (intro that)
qed

theorem add_new_process_appends_witness:
  "\<exists>(s :: unit ker) t u sch q. get_instance s = Some (sch, t) \<and> add_new_process sch 0x1234 t = Some u \<and>
     sched_wf u sch [q] \<and> item_process (mem u) q = 0x1234"
proof -
  obtain s t sch where t: "get_instance (s :: unit ker) = Some (sch, t)" "sched_wf t sch []"
    "NFRAMES - 10 \<le> frames_left t"
    by (rule sample_scheduler)
  then have "kalloc_cost 24 \<le> frames_left t" by (simp add: kalloc_cost_def NFRAMES_def)
  from add_new_process_appends [OF t(2) this, of "0x1234"] t(1) show ?thesis by fastforce
qed

lemma run_next_process_ok:
  assumes wf: "sched_wf s this (ps @ i # qs)" and bl: "\<forall>j \<in> set ps. \<not> is_ready (mem s) (item_process (mem s) j)"
    and rd: "is_ready (mem s) (item_process (mem s) i)"
    and pr: "heap_block s (item_process (mem s) i) 48" "apart this 24 (item_process (mem s) i) 48"
  shows "\<exists>s'. run_next_process this s = Some (\<lparr>u_pc = get_entry_address (mem s) (item_process (mem s) i),
      u_sp = get_stack_pointer (mem s) (item_process (mem s) i),
      u_heap = get_heap_start_address (mem s) (item_process (mem s) i)\<rparr>, s') \<and>
    get_running_process (mem s') this = item_process (mem s) i \<and> sched_wf s' this (ps @ i # qs)"
proof -
  let ?p = "item_process (mem s) i"
  have hw: "heap_wf s" "heap_block s this 24" using wf by (simp_all add: sched_wf_def)
  note tf = heap_fields [OF hw(2)]
  obtain r where r: "find_ready (ld64 (mem s) (first_process_addr this)) s = Some (i, r)"
    "r = s\<lparr>out := out s @ concat (replicate (length ps) ''iterating'')\<rparr>"
    using find_ready_items [of s _ ps i qs] wf bl rd by (auto simp: sched_wf_def)
  let ?l = "log PROCESS ''Running next process with id %i'' [VInt (get_id (mem s) ?p)] r"
  let ?s' = "put64 (current_process_addr this) ?p ?l"
  have far: "ld64 (mem ?s') (?p + of_nat k) = ld64 (mem s) (?p + of_nat k)" if "k + 8 \<le> 48" for k
  proof -
    note o = heap_block_offset [OF pr(1), of k 8, OF that]
    have "apart this 8 (?p + of_nat k) 8" using pr(2) o(2) that by (auto simp: apart_def)
    then show ?thesis
      using ld64_put64_apart [OF hw(1) tf(1) o(1)] r(2) by (simp add: current_process_addr_def)
  qed
  have m: "mem ?l = mem s" using r(2) by simp
  have w: "heap_wf ?s'" "heap_block ?s' = heap_block s"
  proof -
    have "heap_wf ?l" using hw(1) r(2) by (simp add: log_eq heap_wf_out)
    moreover have hb: "heap_block ?l = heap_block s" using r(2) by (simp add: log_eq heap_block_def fun_eq_iff)
    ultimately show "heap_wf ?s'" using heap_wf_put64(1) [of ?l "current_process_addr this"] tf(1) by (simp add: current_process_addr_def)
    show "heap_block ?s' = heap_block s" using hb by (simp add: fun_eq_iff)
  qed
  have eq: "ld64 (mem ?s') a = ld64 (mem s) a" if "heap_block s a 8" "apart this 8 a 8" for a
    using ld64_put64_apart [OF hw(1) tf(1) that] m by (simp add: current_process_addr_def)
  have "sched_wf ?s' this (ps @ i # qs)"
  proof (rule sched_frame [OF wf w(1)])
    show "ld64 (mem ?s') (first_process_addr this) = ld64 (mem s) (first_process_addr this)"
      using tf by (intro eq) (simp_all add: first_process_addr_def apart_def)
    show "\<forall>i \<in> set (ps @ i # qs). ld64 (mem ?s') i = ld64 (mem s) i"
    proof
      fix j assume "j \<in> set (ps @ i # qs)"
      then have "heap_block s j 24" "apart j 24 this 24" using wf by (auto simp: sched_wf_def)
      then show "ld64 (mem ?s') j = ld64 (mem s) j"
        using heap_fields(1) [of s j] by (intro eq) (auto simp: apart_def)
    qed
  qed (simp add: w(2))
  moreover have "run_next_process this s = Some (\<lparr>u_pc = get_entry_address (mem ?s') ?p,
      u_sp = get_stack_pointer (mem ?s') ?p, u_heap = get_heap_start_address (mem ?s') ?p\<rparr>, ?s')"
    using r by (simp add: run_next_process_def Let_def)
  moreover have "get_running_process (mem ?s') this = ?p"
    by (simp add: get_running_process_def current_process_addr_def ld64_st64)
  ultimately show ?thesis
    using far [of 40] far [of 24] far [of 32]
    by (simp add: get_entry_address_def get_stack_pointer_def get_heap_start_address_def)
qed

text \<open>
  C19: \<^verbatim>\<open>Scheduler::run_next_process\<close> runs the first ready process. When the list holds a
  ready process, the search passes the blocked ones before it, the running process becomes the
  first ready one, user mode is entered with the entry address, stack pointer and heap start stored
  in that process, and the list stays well formed.
\<close>

theorem run_next_process_first_ready:
  assumes "sched_wf s this (ps @ i # qs)" and "\<forall>j \<in> set ps. \<not> is_ready (mem s) (item_process (mem s) j)"
    and "is_ready (mem s) (item_process (mem s) i)"
    and "heap_block s (item_process (mem s) i) 48" and "apart this 24 (item_process (mem s) i) 48"
  shows "\<exists>s'. run_next_process this s = Some (\<lparr>u_pc = get_entry_address (mem s) (item_process (mem s) i),
      u_sp = get_stack_pointer (mem s) (item_process (mem s) i),
      u_heap = get_heap_start_address (mem s) (item_process (mem s) i)\<rparr>, s') \<and>
    get_running_process (mem s') this = item_process (mem s) i \<and> sched_wf s' this (ps @ i # qs)"
  using run_next_process_ok [OF assms] .

text \<open>A scheduler with one fresh, zeroed process object.\<close>

lemma sample_process:
  obtains p sch q and u :: "unit ker" where "sched_wf u sch [q]" "item_process (mem u) q = p"
    "heap_block u p 48" "apart sch 24 p 48" "is_ready (mem u) p" "get_entry_address (mem u) p = 0"
proof -
  obtain s t sch where t: "get_instance (s :: unit ker) = Some (sch, t)" "sched_wf t sch []"
    "NFRAMES - 10 \<le> frames_left t"
    by (rule sample_scheduler)
  have tw: "heap_wf t" "heap_block t sch 24" using t(2) by (simp_all add: sched_wf_def)
  have "kalloc_cost 48 \<le> frames_left t" using t(3) by (simp add: kalloc_cost_def NFRAMES_def)
  then obtain p and u :: "unit ker" where k: "heap_wf u" "unat p = unat (free_list t) + 16"
    "heap_block u p (unat (48 :: u64))" "frames_left t \<le> frames_left u + kalloc_cost 48"
    "\<forall>a n. heap_block t a n \<longrightarrow> heap_block u a n"
    "\<forall>x. unat VIRTUAL_HEAP_START \<le> unat x \<longrightarrow> unat x < unat (free_list t) \<longrightarrow> mem u x = mem t x"
    "load_bytes (mem u) p (unat (48 :: u64)) = replicate (unat (48 :: u64)) 0"
    by (rule new_zeroed_ok [OF tw(1)])
  have p: "heap_block u p 48" using k(3) by simp
  have ap: "apart sch 24 p 48" using tw(2) k(2) by (auto simp: apart_def heap_block_def)
  have z: "ld64 (mem u) (p + of_nat j) = 0" if "j + 8 \<le> 48" for j
  proof (rule ld64_zero)
    fix x assume x: "unat (x - (p + of_nat j)) < 8"
    define d where "d = unat (x - (p + of_nat j))"
    have "x = p + of_nat (j + d)"
      using unat_offset_eq_iff [of d x "p + of_nat j"] x by (simp add: d_def add.assoc)
    moreover have "j + d < 48" using x that by (simp add: d_def)
    ultimately show "mem u x = 0"
      using arg_cong [OF k(7), of "\<lambda>l. l ! (j + d)"] by simp
  qed
  have "sched_wf u sch []"
    using sched_frame [OF t(2) k(1,5)] ld64_block_cong [OF _ k(6) [rule_format]] heap_fields(3) [OF tw(2)]
    by (simp add: first_process_addr_def)
  moreover have "kalloc_cost 24 \<le> frames_left u"
    using k(4) t(3) by (simp add: kalloc_cost_def NFRAMES_def)
  ultimately obtain v q where v: "sched_wf v sch [q]" "item_process (mem v) q = p" "heap_only u v"
    "\<forall>a. heap_block u a 8 \<and> apart (first_process_addr sch) 8 a 8 \<longrightarrow> ld64 (mem v) a = ld64 (mem u) a"
    "\<forall>a n. heap_block u a n \<longrightarrow> heap_block v a n"
    using add_new_process_ok [of u sch "[]" p] by auto
  have same: "ld64 (mem v) (p + of_nat j) = 0" if "j + 8 \<le> 48" for j
  proof -
    note o = heap_block_offset [OF p that]
    have "apart (first_process_addr sch) 8 (p + of_nat j) 8"
      using o(2) k(2) heap_fields(5) [OF tw(2)] tw(2) by (auto simp: apart_def first_process_addr_def heap_block_def)
    then show ?thesis using v(4) o(1) z [OF that] by simp
  qed
  have "heap_block v p 48"
    using p v(5) by blast
  then show ?thesis
    using that [OF v(1,2) _ ap] same [of 8] same [of 40]
    by (simp add: is_ready_def ld32_of_ld64 get_entry_address_def)
qed

theorem run_next_process_first_ready_witness:
  "\<exists>(s :: unit ker) t sch p. run_next_process sch s = Some (\<lparr>u_pc = 0, u_sp = get_stack_pointer (mem s) p,
     u_heap = get_heap_start_address (mem s) p\<rparr>, t) \<and> get_running_process (mem t) sch = p"
proof -
  obtain p sch q and u :: "unit ker" where u: "sched_wf u sch [q]" "item_process (mem u) q = p"
    "heap_block u p 48" "apart sch 24 p 48" "is_ready (mem u) p" "get_entry_address (mem u) p = 0"
    by (rule sample_process)
  have "\<exists>t. run_next_process sch u = Some (\<lparr>u_pc = 0, u_sp = get_stack_pointer (mem u) p,
     u_heap = get_heap_start_address (mem u) p\<rparr>, t) \<and> get_running_process (mem t) sch = p"
    using run_next_process_first_ready [of u sch "[]" q "[]"] u by auto
  then show ?thesis by blast
qed



end
