(* ===== verification/Loader.thy ===== *)
theory Loader
  imports Scheduler
begin

text \<open>
  What the program loader of \<^verbatim>\<open>kernel/process/scheduler.cpp\<close> does with the segments of an
  ELF file: the definitions are in theory \<open>Scheduler\<close>. A segment that lies in one page is
  copied to its address; one that reaches into a second page is not loaded, because the inner loop
  maps the first page again and again.
\<close>

section \<open>Mapping user pages\<close>

definition page_aligned :: "u64 \<Rightarrow> bool" where
  "page_aligned page \<longleftrightarrow> 4096 dvd unat page \<and> unat page + 4096 \<le> 2 ^ 47"

lemma page_store_out:
  assumes "page_aligned page" and "drop_bit 12 x \<noteq> drop_bit 12 page" and "length bs = 4096"
  shows "store_bytes m page bs x = m x"
proof (rule store_bytes_out, rule ccontr)
  assume "\<not> length bs \<le> unat (x - page)"
  then have "unat x = unat page + unat (x - page)" "unat (x - page) < 4096"
    using assms(1,3) by (auto simp: page_aligned_def intro!: unat_in_range [of _ _ 4096])
  then have "drop_bit 12 x = drop_bit 12 page"
    using same_page_range [of page x] assms(1)
    by (auto simp: page_aligned_def word_le_nat_alt word_less_nat_alt unat_word_ariths)
  with assms(2) show False by simp
qed

lemma map_user_page_ok:
  fixes s :: "('d, 'a) ker_scheme"
  assumes wf: "heap_wf s" and room: "4 \<le> frames_left s" and page: "page_aligned page"
  obtains f and s1 s' :: "('d, 'a) ker_scheme" where "kalloc_frame s = Some (f, s1)" "map_user_page page f s1 = Some s'"
    "heap_wf s'" "memory_only s s'" "frames_left s \<le> frames_left s' + 4" "in_pool s' = in_pool s"
    "\<forall>x. \<not> in_pool s x \<and> drop_bit 12 x \<noteq> drop_bit 12 page \<longrightarrow> mem s' x = mem s x"
    "\<forall>v. drop_bit 12 v \<noteq> drop_bit 12 page \<longrightarrow> sv48 s' v = sv48 s v"
    "\<forall>v. drop_bit 12 v = drop_bit 12 page \<longrightarrow> (\<exists>p. sv48 s' v = Some (p, 0x1F))"
proof -
  have low: "unat page < 2 ^ 47" using page by (simp add: page_aligned_def)
  have "(0x1F :: u16) < 0x400" "bit (0x1F :: u16) 1" by simp_all
  from user_page_ok [OF wf room low this] obtain f and s1 s2 :: "('d, 'a) ker_scheme" where k:
    "kalloc_frame s = Some (f, s1)" "map_page page f 0x1F s1 = Some s2" "heap_wf s2"
    "memory_only s s2" "frames_left s \<le> frames_left s2 + 4" "in_pool s2 = in_pool s"
    "\<forall>x. \<not> in_pool s x \<longrightarrow> mem s2 x = mem s x"
    "\<forall>v. sv48 s2 v = (if drop_bit 12 v = drop_bit 12 page
       then Some (f OR take_bit 12 v, (1 OR ucast (0x1F :: u16)) AND 0x1F) else sv48 s v)"
    by metis
  let ?bs = "load_bytes (mem s2) (f + VIRTUAL_OFFSET) 4096"
  let ?s' = "s2\<lparr>mem := store_bytes (mem s2) page ?bs\<rparr>"
  have "unat page + length ?bs \<le> 2 ^ 47" using page by (simp add: page_aligned_def)
  note ls = low_store [OF k(3) this]
  have "map_user_page page f s1 = Some ?s'" using k(2) by (simp add: map_user_page_def)
  moreover have "memory_only s ?s'" by (rule memory_only_trans [OF k(4) memory_only_mem])
  moreover have "mem ?s' x = mem s x" if "\<not> in_pool s x" "drop_bit 12 x \<noteq> drop_bit 12 page" for x
    using page_store_out [OF page that(2), of ?bs] k(7) that by simp
  moreover have "sv48 ?s' v = Some (f OR take_bit 12 v, 0x1F)" if "drop_bit 12 v = drop_bit 12 page" for v
    unfolding ls(2) using k(8) that by simp
  moreover have "sv48 ?s' v = sv48 s v" if "drop_bit 12 v \<noteq> drop_bit 12 page" for v
    unfolding ls(2) using k(8) that by simp
  ultimately show ?thesis
    using k(5,6) ls(1,3) by (intro that [OF k(1), of ?s']) (simp_all add: state_simps)
qed

text \<open>The inner loop of the loader: whatever its count, only one page changes its translation.\<close>

lemma map_segment_ok:
  fixes s :: "('d, 'a) ker_scheme"
  assumes "heap_wf s" and "4 * n \<le> frames_left s" and "page_aligned page"
  shows "\<exists>s' :: ('d, 'a) ker_scheme. map_segment n page s = Some s' \<and> heap_wf s' \<and> memory_only s s' \<and> in_pool s' = in_pool s \<and>
    frames_left s \<le> frames_left s' + 4 * n \<and>
    (\<forall>x. \<not> in_pool s x \<and> drop_bit 12 x \<noteq> drop_bit 12 page \<longrightarrow> mem s' x = mem s x) \<and>
    (\<forall>v. drop_bit 12 v \<noteq> drop_bit 12 page \<longrightarrow> sv48 s' v = sv48 s v) \<and>
    (0 < n \<longrightarrow> (\<forall>v. drop_bit 12 v = drop_bit 12 page \<longrightarrow> (\<exists>p. sv48 s' v = Some (p, 0x1F))))"
  using assms(1,2)
proof (induction n arbitrary: s)
  case 0
  then show ?case by simp
next
  case (Suc n)
  then have "4 \<le> frames_left s" by simp
  then obtain f and s1 t :: "('d, 'a) ker_scheme" where t: "kalloc_frame s = Some (f, s1)" "map_user_page page f s1 = Some t"
    "heap_wf t" "memory_only s t" "frames_left s \<le> frames_left t + 4" "in_pool t = in_pool s"
    "\<forall>x. \<not> in_pool s x \<and> drop_bit 12 x \<noteq> drop_bit 12 page \<longrightarrow> mem t x = mem s x"
    "\<forall>v. drop_bit 12 v \<noteq> drop_bit 12 page \<longrightarrow> sv48 t v = sv48 s v"
    "\<forall>v. drop_bit 12 v = drop_bit 12 page \<longrightarrow> (\<exists>p. sv48 t v = Some (p, 0x1F))"
    by (rule map_user_page_ok [OF Suc.prems(1) _ assms(3)])
  have "4 * n \<le> frames_left t" using t(5) Suc.prems(2) by simp
  from Suc.IH [OF t(3) this] obtain u :: "('d, 'a) ker_scheme" where u: "map_segment n page t = Some u" "heap_wf u" "memory_only t u"
    "in_pool u = in_pool t" "frames_left t \<le> frames_left u + 4 * n"
    "\<forall>x. \<not> in_pool t x \<and> drop_bit 12 x \<noteq> drop_bit 12 page \<longrightarrow> mem u x = mem t x"
    "\<forall>v. drop_bit 12 v \<noteq> drop_bit 12 page \<longrightarrow> sv48 u v = sv48 t v"
    "0 < n \<longrightarrow> (\<forall>v. drop_bit 12 v = drop_bit 12 page \<longrightarrow> (\<exists>p. sv48 u v = Some (p, 0x1F)))" by blast
  have "map_segment (Suc n) page s = Some u" using t(1,2) u(1) by simp
  moreover have "memory_only s u" using memory_only_trans [OF t(4) u(3)] .
  moreover have "n = 0 \<Longrightarrow> u = t" using u(1) by simp
  ultimately show ?case
    using t u by (intro exI [of _ u]) (cases n, simp_all)
qed

section \<open>One segment\<close>

text \<open>The kernel heap is outside the pool and outside every user page.\<close>

lemma heap_addr_out:
  assumes "heap_wf s" and "page_aligned page" and "unat VIRTUAL_HEAP_START \<le> unat x"
  shows "\<not> in_pool s x" "drop_bit 12 x \<noteq> drop_bit 12 page"
proof -
  show "\<not> in_pool s x"
    using assms(1,3) heap_not_in_pool [of s x] by (simp add: heap_wf_def pt_wf_def)
  show "drop_bit 12 x \<noteq> drop_bit 12 page"
  proof
    assume "drop_bit 12 x = drop_bit 12 page"
    then have "x < page + 4096"
      using same_page_range [of page x] assms(2) by (simp add: page_aligned_def)
    with assms(2,3) show False
      by (simp add: page_aligned_def word_less_nat_alt unat_word_ariths VIRTUAL_HEAP_START_def)
  qed
qed

lemma vaddr_page:
  fixes v :: u64
  assumes "unat v < 2 ^ 47"
  shows "page_aligned (v - v mod PAGE_SIZE)" "drop_bit 12 v = drop_bit 12 (v - v mod PAGE_SIZE)"
    "unat (v - v mod PAGE_SIZE) = 4096 * (unat v div 4096)" "unat (v mod PAGE_SIZE) = unat v mod 4096"
proof -
  show m: "unat (v mod PAGE_SIZE) = unat v mod 4096"
    by (simp add: PAGE_SIZE_def unat_mod)
  have "v mod PAGE_SIZE \<le> v" by (simp add: word_le_nat_alt m)
  then have "unat (v - v mod PAGE_SIZE) = unat v - unat (v mod PAGE_SIZE)" by (rule unat_sub)
  then show p: "unat (v - v mod PAGE_SIZE) = 4096 * (unat v div 4096)"
    unfolding m by (simp only: minus_mod_eq_mult_div)
  show a: "page_aligned (v - v mod PAGE_SIZE)"
    using assms unfolding page_aligned_def p by auto
  show "drop_bit 12 v = drop_bit 12 (v - v mod PAGE_SIZE)"
    by (simp add: word_unat_eq_iff drop_bit_eq_div unat_div p)
qed

lemma div_page: "a mod 4096 + i < 4096 \<Longrightarrow> (a + i) div 4096 = a div (4096 :: nat)"
  using mult_div_mod_eq [of 4096 a] by (intro div_nat_eqI) (unfold mult_Suc_right, linarith+)

text \<open>A program header on the kernel heap reads the same while user pages are mapped and filled.\<close>

definition phdr :: "mem \<Rightarrow> u64 \<Rightarrow> u32 \<times> u64 \<times> u64 \<times> u64 \<times> u64" where
  "phdr m ph = (p_type m ph, p_offset m ph, p_vaddr m ph, p_filesz m ph, p_memsz m ph)"

lemma phdr_cong:
  assumes "heap_block s ph 56" and "\<forall>x. unat VIRTUAL_HEAP_START \<le> unat x \<longrightarrow> m x = mem s x"
  shows "phdr m ph = phdr (mem s) ph"
proof -
  have "ld64 m (ph + of_nat k) = ld64 (mem s) (ph + of_nat k)" if "k + 8 \<le> 56" for k
    by (rule ld64_block_cong [OF heap_block_offset(1) [OF assms(1) that]]) (use assms(2) in blast)
  from this [of 0] this [of 8] this [of 16] this [of 32] this [of 40] show ?thesis
    by (simp add: phdr_def p_type_def p_offset_def p_vaddr_def p_filesz_def p_memsz_def ld32_of_ld64)
qed

text \<open>What has happened when the copy starts.\<close>

lemma load_segment_mapped:
  fixes s :: "('d, 'a) ker_scheme"
  assumes wf: "heap_wf s" and ph: "heap_block s ph 56" and ty: "p_type (mem s) ph = 1"
    and low: "unat (p_vaddr (mem s) ph) < 2 ^ 47"
    and room: "4 * unat (p_memsz (mem s) ph div PAGE_SIZE + 1) \<le> frames_left s"
  obtains t :: "('d, 'a) ker_scheme" where "heap_wf t" "memory_only s t"
    "\<forall>x. unat VIRTUAL_HEAP_START \<le> unat x \<longrightarrow> mem t x = mem s x" "phdr (mem t) ph = phdr (mem s) ph"
    "\<forall>v. drop_bit 12 v \<noteq> drop_bit 12 (p_vaddr (mem s) ph) \<longrightarrow> sv48 t v = sv48 s v"
    "p_memsz (mem s) ph div PAGE_SIZE + 1 \<noteq> 0 \<longrightarrow>
       (\<forall>v. drop_bit 12 v = drop_bit 12 (p_vaddr (mem s) ph) \<longrightarrow> (\<exists>p. sv48 t v = Some (p, 0x1F)))"
    "load_segment contents ph data_end s =
       (if \<not> mapped_range t (p_vaddr (mem s) ph) (unat (p_filesz (mem s) ph)) then None
        else let u = snd (memcpy (p_vaddr (mem s) ph) (contents + p_offset (mem s) ph) (p_filesz (mem s) ph) t);
                 seg_end = p_vaddr (mem u) ph + p_memsz (mem u) ph
             in Some (if data_end < seg_end then seg_end else data_end, u))"
proof -
  let ?v = "p_vaddr (mem s) ph" and ?n = "p_memsz (mem s) ph div PAGE_SIZE + 1"
  note pg = vaddr_page [OF low]
  obtain t :: "('d, 'a) ker_scheme" where t: "map_segment (unat ?n) (?v - ?v mod PAGE_SIZE) s = Some t" "heap_wf t"
    "memory_only s t" "in_pool t = in_pool s"
    "\<forall>x. \<not> in_pool s x \<and> drop_bit 12 x \<noteq> drop_bit 12 ?v \<longrightarrow> mem t x = mem s x"
    "\<forall>v. drop_bit 12 v \<noteq> drop_bit 12 ?v \<longrightarrow> sv48 t v = sv48 s v"
    "0 < unat ?n \<longrightarrow> (\<forall>v. drop_bit 12 v = drop_bit 12 ?v \<longrightarrow> (\<exists>p. sv48 t v = Some (p, 0x1F)))"
    using map_segment_ok [OF wf room pg(1)] unfolding pg(2) [symmetric] by (elim exE conjE)
  have hp: "\<forall>x. unat VIRTUAL_HEAP_START \<le> unat x \<longrightarrow> mem t x = mem s x"
    using heap_addr_out [OF wf pg(1)] t(5) unfolding pg(2) [symmetric] by blast
  have h: "phdr (mem t) ph = phdr (mem s) ph" by (rule phdr_cong [OF ph hp])
  have "0 < unat ?n" if "?n \<noteq> 0" using that by (simp add: unat_gt_0)
  moreover have "load_segment contents ph data_end s =
       (if \<not> mapped_range t ?v (unat (p_filesz (mem s) ph)) then None
        else let u = snd (memcpy ?v (contents + p_offset (mem s) ph) (p_filesz (mem s) ph) t);
                 seg_end = p_vaddr (mem u) ph + p_memsz (mem u) ph
             in Some (if data_end < seg_end then seg_end else data_end, u))"
    using ty t(1) h by (simp add: load_segment_def phdr_def Let_def)
  ultimately show ?thesis using t(2,3,6,7) hp h by (intro that [of t]) blast+
qed

section \<open>Properties\<close>

text \<open>A booted kernel with one program header on its heap, for the concrete instances.\<close>

definition sample_phdr :: "u64 \<Rightarrow> u8 list" where
  "sample_phdr sz = bytes_of 4 (1 :: u32) @ bytes_of 4 (0 :: u32) @ bytes_of 8 (0 :: u64) @
     bytes_of 8 (0x10000 :: u64) @ bytes_of 8 (0 :: u64) @ bytes_of 8 sz @ bytes_of 8 sz @ bytes_of 8 (0 :: u64)"

lemma sample_phdr_fields:
  "p_type (store_bytes m ph (sample_phdr sz)) ph = 1" "p_offset (store_bytes m ph (sample_phdr sz)) ph = 0"
  "p_vaddr (store_bytes m ph (sample_phdr sz)) ph = 0x10000"
  "p_filesz (store_bytes m ph (sample_phdr sz)) ph = sz" "p_memsz (store_bytes m ph (sample_phdr sz)) ph = sz"
proof -
  have 8: "ld64 (store_bytes m ph (sample_phdr sz)) (ph + of_nat k) = le_word (take 8 (drop k (sample_phdr sz)))"
    if "k + 8 \<le> 56" for k
    using that unfolding ld64_def by (subst load_store_sub) (simp_all add: sample_phdr_def)
  have "ld32 (store_bytes m ph (sample_phdr sz)) (ph + of_nat 0) = le_word (take 4 (drop 0 (sample_phdr sz)))"
    unfolding ld32_def by (subst load_store_sub) (simp_all add: sample_phdr_def)
  then show "p_type (store_bytes m ph (sample_phdr sz)) ph = 1"
    by (simp add: p_type_def sample_phdr_def le_word_bytes_of)
  show "p_offset (store_bytes m ph (sample_phdr sz)) ph = 0" "p_vaddr (store_bytes m ph (sample_phdr sz)) ph = 0x10000"
    "p_filesz (store_bytes m ph (sample_phdr sz)) ph = sz" "p_memsz (store_bytes m ph (sample_phdr sz)) ph = sz"
    using 8 [of 8] 8 [of 16] 8 [of 32] 8 [of 40]
    by (simp_all add: p_offset_def p_vaddr_def p_filesz_def p_memsz_def sample_phdr_def le_word_bytes_of take_bit_word_eq_self)
qed

lemma sample_segment:
  obtains ph and s :: "unit ker" where "heap_wf s" "heap_block s ph 56" "p_type (mem s) ph = 1"
    "p_offset (mem s) ph = 0" "p_vaddr (mem s) ph = 0x10000" "p_filesz (mem s) ph = sz" "p_memsz (mem s) ph = sz"
    "NFRAMES - 10 \<le> frames_left s" "sv48 s 0x11000 = None"
proof -
  obtain r t :: "unit ker" where t: "heap_wf t" "NFRAMES - 6 \<le> frames_left t" "\<forall>v. unat v < 2 ^ 47 \<longrightarrow> sv48 t v = None"
    by (rule sample_ker_boot)
  have room: "kalloc_cost 56 \<le> frames_left t" using t(2) by (simp add: kalloc_cost_def NFRAMES_def)
  obtain ph and u :: "unit ker" where k: "kalloc 56 t = Some (ph, u)" "heap_wf u" "heap_block u ph (unat (56 :: u64))"
    "frames_left t \<le> frames_left u + kalloc_cost 56"
    by (rule kalloc_block [OF t(1) room])
  let ?s = "u\<lparr>mem := store_bytes (mem u) ph (sample_phdr sz)\<rparr>"
  have len: "length (sample_phdr sz) = 56" by (simp add: sample_phdr_def)
  have st: "heap_wf ?s" "sv48 ?s = sv48 u" "frames_left ?s = frames_left u"
    using heap_store [OF k(2), of ph "sample_phdr sz"] k(3) len by (simp_all add: heap_block_def)
  have "sv48 ?s 0x11000 = None"
    using kalloc_sv48_low [OF t(1) room k(1), of "0x11000"] t(3) unfolding st(2) by simp
  moreover have "NFRAMES - 10 \<le> frames_left ?s"
    using st(3) k(4) t(2) by (simp add: kalloc_cost_def)
  moreover have "heap_block ?s ph 56" using k(3) by (simp add: heap_block_def)
  ultimately show ?thesis
    using st(1) sample_phdr_fields [of "mem u" ph sz] by (intro that [of ?s ph]) simp_all
qed

text \<open>
  C20: a loadable segment whose file bytes fit in one page. With enough frames (four for each of the
  \<^verbatim>\<open>p_memsz / PAGE_SIZE + 1\<close> rounds) \<^verbatim>\<open>submit_new_process\<close> gets through the
  segment: its bytes stand at \<^verbatim>\<open>p_vaddr\<close>, every address of the page is mapped for the user,
  readable, writable and executable, no other translation changes, the kernel heap stays well formed
  and the end of the data is raised to the end of the segment.
\<close>

theorem load_segment_one_page:
  fixes s :: "('d, 'a) ker_scheme"
  assumes "heap_wf s" and "heap_block s ph 56" and "p_type (mem s) ph = 1"
    and low: "unat (p_vaddr (mem s) ph) < 2 ^ 47"
    and "4 * unat (p_memsz (mem s) ph div PAGE_SIZE + 1) \<le> frames_left s"
    and fit: "unat (p_vaddr (mem s) ph) mod 4096 + unat (p_filesz (mem s) ph) \<le> 4096"
    and src: "heap_block s (contents + p_offset (mem s) ph) (unat (p_filesz (mem s) ph))"
  shows "\<exists>s' :: ('d, 'a) ker_scheme. load_segment contents ph data_end s =
      Some (max data_end (p_vaddr (mem s) ph + p_memsz (mem s) ph), s') \<and> heap_wf s' \<and>
    load_bytes (mem s') (p_vaddr (mem s) ph) (unat (p_filesz (mem s) ph)) =
      load_bytes (mem s) (contents + p_offset (mem s) ph) (unat (p_filesz (mem s) ph)) \<and>
    (\<forall>v. if drop_bit 12 v = drop_bit 12 (p_vaddr (mem s) ph) then \<exists>p. sv48 s' v = Some (p, 0x1F)
         else sv48 s' v = sv48 s v)"
proof -
  let ?v = "p_vaddr (mem s) ph" and ?n = "unat (p_filesz (mem s) ph)"
    and ?c = "contents + p_offset (mem s) ph"
  obtain t :: "('d, 'a) ker_scheme" where t: "heap_wf t" "\<forall>x. unat VIRTUAL_HEAP_START \<le> unat x \<longrightarrow> mem t x = mem s x"
    "phdr (mem t) ph = phdr (mem s) ph" "\<forall>v. drop_bit 12 v \<noteq> drop_bit 12 ?v \<longrightarrow> sv48 t v = sv48 s v"
    "p_memsz (mem s) ph div PAGE_SIZE + 1 \<noteq> 0 \<longrightarrow>
       (\<forall>v. drop_bit 12 v = drop_bit 12 ?v \<longrightarrow> (\<exists>p. sv48 t v = Some (p, 0x1F)))"
    "load_segment contents ph data_end s = (if \<not> mapped_range t ?v ?n then None
        else let u = snd (memcpy ?v ?c (p_filesz (mem s) ph) t);
                 seg_end = p_vaddr (mem u) ph + p_memsz (mem u) ph
             in Some (if data_end < seg_end then seg_end else data_end, u))"
    by (rule load_segment_mapped [OF assms(1-5), of contents data_end])
  have "unat (p_memsz (mem s) ph div PAGE_SIZE) < 2 ^ 52"
    using unat_bound [of "p_memsz (mem s) ph"] by (simp add: PAGE_SIZE_def unat_div less_mult_imp_div_less)
  then have "unat (p_memsz (mem s) ph div PAGE_SIZE + 1) \<noteq> 0" by (simp add: unat_word_ariths)
  then have pg: "\<exists>p. sv48 t v = Some (p, 0x1F)" if "drop_bit 12 v = drop_bit 12 ?v" for v
    using t(5) that by (metis unat_0)
  have same: "drop_bit 12 (?v + of_nat i) = drop_bit 12 ?v" if "i < ?n" for i
  proof -
    have "unat (?v + of_nat i) = unat ?v + i"
      using that fit low by (simp add: unat_word_ariths unat_of_nat)
    moreover have "(unat ?v + i) div 4096 = unat ?v div 4096"
      using that fit by (intro div_page) simp
    ultimately show ?thesis by (simp add: word_unat_eq_iff drop_bit_eq_div unat_div)
  qed
  have mr: "mapped_range t ?v ?n" using pg same unfolding mapped_range_def by fastforce
  have np: "unat ?v + ?n \<le> 2 ^ 47"
  proof -
    have "4096 * (unat ?v div 4096) + 4096 \<le> 2 ^ 47"
      using vaddr_page(1,3) [OF low] by (simp add: page_aligned_def)
    then show ?thesis using fit mult_div_mod_eq [of 4096 "unat ?v"] by linarith
  qed
  have dj: "disj ?v ?n ?c ?n"
  proof (cases "?n = 0")
    case False
    then show ?thesis
      using np src heap_block_bound [OF assms(1) src]
      by (intro disj_nat) (simp_all add: heap_block_def VIRTUAL_HEAP_START_def)
  qed (simp add: disj_def)
  let ?u = "t\<lparr>mem := store_bytes (mem t) ?v (load_bytes (mem t) ?c ?n)\<rparr>"
  have cp: "snd (memcpy ?v ?c (p_filesz (mem s) ph) t) = ?u" by (rule memcpy_store [OF dj])
  have "unat ?v + length (load_bytes (mem t) ?c ?n) \<le> 2 ^ 47" using np by simp
  note ls = low_store [OF t(1) this]
  have hp: "\<forall>x. unat VIRTUAL_HEAP_START \<le> unat x \<longrightarrow> mem ?u x = mem s x"
  proof (intro allI impI)
    fix x :: u64 assume x: "unat VIRTUAL_HEAP_START \<le> unat x"
    then have "?n \<le> unat (x - ?v)"
      using np by (simp add: unat_sub_if' VIRTUAL_HEAP_START_def)
    with t(2) x show "mem ?u x = mem s x" by (simp add: store_bytes_out)
  qed
  have ph': "phdr (mem ?u) ph = phdr (mem s) ph" by (rule phdr_cong [OF assms(2) hp])
  have ld: "load_bytes (mem t) ?c ?n = load_bytes (mem s) ?c ?n"
  proof (rule nth_equalityI)
    fix i assume "i < length (load_bytes (mem t) ?c ?n)"
    then have "i < ?n" by simp
    moreover from this have "unat VIRTUAL_HEAP_START \<le> unat (?c + of_nat i)"
      using heap_block_offset(2) [OF src, of i 0] src by (simp add: heap_block_def)
    ultimately show "load_bytes (mem t) ?c ?n ! i = load_bytes (mem s) ?c ?n ! i" using t(2) by simp
  qed simp
  have "load_segment contents ph data_end s = Some (max data_end (?v + p_memsz (mem s) ph), ?u)"
  proof -
    have "(if d < e then e else d) = max d e" for d e :: u64 by (auto simp: max_def)
    then show ?thesis using t(6) mr ph' unfolding cp by (simp add: phdr_def Let_def)
  qed
  moreover have "load_bytes (mem ?u) ?v ?n = load_bytes (mem s) ?c ?n"
    using np by (simp add: ld load_store_same)
  ultimately show ?thesis
    using ls(1,2) pg t(4) by (intro exI [of _ ?u]) simp
qed

theorem load_segment_one_page_witness:
  "\<exists>(s :: unit ker) ph s'. load_segment ph ph 0x4000 s = Some (0x10020, s') \<and>
     load_bytes (mem s') 0x10000 32 = load_bytes (mem s) ph 32 \<and> (\<exists>p. sv48 s' 0x10ABC = Some (p, 0x1F))"
proof -
  obtain ph and s :: "unit ker" where s: "heap_wf s" "heap_block s ph 56" "p_type (mem s) ph = 1"
    "p_offset (mem s) ph = 0" "p_vaddr (mem s) ph = 0x10000" "p_filesz (mem s) ph = 32" "p_memsz (mem s) ph = 32"
    "NFRAMES - 10 \<le> frames_left s"
    by (rule sample_segment)
  have h: "unat (p_vaddr (mem s) ph) < 2 ^ 47"
    "4 * unat (p_memsz (mem s) ph div PAGE_SIZE + 1) \<le> frames_left s"
    "unat (p_vaddr (mem s) ph) mod 4096 + unat (p_filesz (mem s) ph) \<le> 4096"
    "heap_block s (ph + p_offset (mem s) ph) (unat (p_filesz (mem s) ph))"
    using s heap_block_offset [OF s(2), of 0 32] by (simp_all add: PAGE_SIZE_def NFRAMES_def)
  from load_segment_one_page [OF s(1-3) h, of "0x4000"] obtain s' where s':
    "load_segment ph ph 0x4000 s = Some (0x10020, s')" "load_bytes (mem s') 0x10000 32 = load_bytes (mem s) ph 32"
    "\<forall>v. if drop_bit 12 v = drop_bit 12 (0x10000 :: u64) then \<exists>p. sv48 s' v = Some (p, 0x1F)
         else sv48 s' v = sv48 s v"
    using s(4-7) by (auto simp: max_def)
  have "drop_bit 12 (0x10ABC :: u64) = drop_bit 12 0x10000" by simp
  with s' show ?thesis by metis
qed



end
