(* ===== verification/Syscall.thy ===== *)
theory Syscall
  imports Loader
begin

text \<open>
  System calls and traps: \<^verbatim>\<open>kernel/syscalls/syscall.cpp\<close>,
  \<^verbatim>\<open>kernel/exception.cpp\<close>, \<^verbatim>\<open>exception.h\<close> and the return path of
  \<^verbatim>\<open>exception.s\<close>.

  A trap either ends in the handler's endless loop (\<open>Halted\<close>, with the state it dies in) or
  goes back to user mode (\<open>Resumed\<close>, with the program counter and the value of register
  \<^verbatim>\<open>a0\<close>). \<^verbatim>\<open>handle_syscall\<close> returns nothing, and what
  \<^verbatim>\<open>machine_exception_handler\<close> then reads from \<^verbatim>\<open>a0\<close> is what the compiled
  code happened to leave there: the parameter \<open>left_in_a0\<close>.

  A system call that touches a page of the user that is not mapped faults inside the kernel,
  which does not survive it: \<open>None\<close>. The null-terminated path of \<^verbatim>\<open>open\<close> is taken to
  be readable.
\<close>

record SyscallParameters =
  par_a0 :: u64
  par_a1 :: u64
  par_a2 :: u64
  par_a3 :: u64
  par_a4 :: u64
  par_a5 :: u64
  par_a7 :: u64

section \<open>System calls\<close>

definition sys_read :: "u64 \<Rightarrow> u64 \<Rightarrow> ('d, 'a) ker_scheme \<Rightarrow> ('d, 'a) ker_scheme option" where
  "sys_read buffer len s = do {
     (n, s') \<leftarrow> read buffer len s;
     if \<not> mapped_range s buffer (min (unat n + 1) (unat len)) then None else Some s'
   }"

definition sys_write :: "u64 \<Rightarrow> u64 \<Rightarrow> ('d, 'a) ker_scheme \<Rightarrow> ('d, 'a) ker_scheme option" where
  "sys_write src len s = do {
     (buffer, s) \<leftarrow> kalloc (len + 1) s;
     if \<not> mapped_range s src (unat len) then None
     else do {
       let s = snd (memcpy buffer src len s);
       let s = put8 (buffer + len) 0 s;
       Some (printf ''%s'' [VStr (cstr (mem s) buffer)] s)
     }
   }"

definition sys_open :: "'d vio_ops \<Rightarrow> u64 \<Rightarrow> ('d, 'a) ker_scheme \<Rightarrow> ('d, 'a) ker_scheme option" where
  "sys_open V pathname s = do {
     let s = printf (''syscall open'' @ [CHR 0x0A]) [] s;
     (_, s) \<leftarrow> open_file V (vfs_instance s) pathname s;
     Some s
   }"

definition sys_getcwd :: "u64 \<Rightarrow> ('d, 'a) ker_scheme \<Rightarrow> ('d, 'a) ker_scheme option" where
  "sys_getcwd buffer s = do {
     let s = printf (''got getcwd syscall'' @ [CHR 0x0A]) [] s;
     (scheduler, s) \<leftarrow> get_instance s;
     let s = printf (''a'' @ [CHR 0x0A]) [] s;
     let current_process = get_running_process (mem s) scheduler;
     let s = printf (''b'' @ [CHR 0x0A]) [] s;
     let path = get_cwd (mem s) current_process;
     let s = printf (''c'' @ [CHR 0x0A]) [] s;
     s \<leftarrow> copy_into path buffer s;
     Some (printf (''d'' @ [CHR 0x0A]) [] s)
   }"

definition handle_syscall ::
  "'d vio_ops \<Rightarrow> SyscallParameters \<Rightarrow> ('d, 'a) ker_scheme \<Rightarrow> ('d, 'a) ker_scheme option" where
  "handle_syscall V p s =
     (let s = log SYSCALL ''Handling system call with parameter %i'' [VInt (par_a7 p)] s in
      if par_a7 p = 0 then sys_read (par_a1 p) (par_a2 p) s
      else if par_a7 p = 1 then sys_write (par_a1 p) (par_a2 p) s
      else if par_a7 p = 2 then sys_open V (par_a0 p) s
      else if par_a7 p = 79 then sys_getcwd (par_a0 p) s
      else Some s)"

section \<open>Traps\<close>

datatype 's trap_end = Halted 's | Resumed u64 u64 's

text \<open>The return to user mode: the previous-privilege bit is cleared, execution goes on after the \<^verbatim>\<open>ecall\<close>.\<close>

definition jump_back_to_userspace :: "u64 \<Rightarrow> u64 \<Rightarrow> ('d, 'a) ker_scheme \<Rightarrow> ('d, 'a) ker_scheme trap_end" where
  "jump_back_to_userspace address ret_value s = Resumed (address + 4) ret_value (set_spp_zero s)"

definition machine_exception_handler ::
  "'d vio_ops \<Rightarrow> (('d, 'a) ker_scheme \<Rightarrow> u64) \<Rightarrow> SyscallParameters \<Rightarrow> u64 \<Rightarrow> u64 \<Rightarrow> u64 \<Rightarrow>
   ('d, 'a) ker_scheme \<Rightarrow> ('d, 'a) ker_scheme trap_end option" where
  "machine_exception_handler V left_in_a0 p cause mtval mepc_value s =
     (if cause = 0x0 then Some (Halted (log EXCEPTION ''Instruction address misaligned'' [] s))
      else if cause = 0x1 then Some (Halted (log EXCEPTION ''Instruction access fault'' [] s))
      else if cause = 0x2 then Some (Halted (log EXCEPTION ''Illegal instruction'' [] s))
      else if cause = 0x8 then do {
        s \<leftarrow> handle_syscall V p s;
        let ret_value = left_in_a0 s;
        Some (jump_back_to_userspace mepc_value ret_value s)
      }
      else if cause = 0xC then Some (Halted (log EXCEPTION ''Instruction page fault at 0x%x'' [VInt mtval] s))
      else if cause = 0xD then Some (Halted (log EXCEPTION ''Load page fault at 0x%x'' [VInt mtval] s))
      else if cause = 0xF then Some (Halted (log EXCEPTION ''Store/AMO page fault at 0x%x'' [VInt mtval] s))
      else Some (Halted (log EXCEPTION ''Got an unknown exception: %i'' [VInt cause] s)))"

definition supervisor_exception_handler :: "'a kio_scheme \<Rightarrow> 'a kio_scheme trap_end" where
  "supervisor_exception_handler s =
     Halted (printf (''is in supervisor exception handler'' @ [CHR 0x0A]) [] s)"

section \<open>Writing to the console\<close>

lemma sys_write_ok:
  assumes wf: "heap_wf s" and q: "quiet s" and room: "kalloc_cost (len + 1) \<le> frames_left s"
    and low: "unat src + unat len \<le> 2 ^ 47" and mapped: "mapped_range s src (unat len)"
    and tx: "load_bytes (mem s) src (unat len) = map byte_of_char text" "CHR 0x00 \<notin> set text"
  shows "\<exists>s'. sys_write src len s = Some s' \<and> out s' = out s @ text \<and> heap_wf s' \<and> heap_only s (s'\<lparr>out := out s\<rparr>) \<and>
    frames_left s \<le> frames_left s' + kalloc_cost (len + 1) \<and>
    (\<forall>x. unat x < 2 ^ 47 \<longrightarrow> mem s' x = mem s x \<and> sv48 s' x = sv48 s x)"
proof -
  obtain s1 where k: "kalloc (len + 1) s = Some (free_list s + 16, s1)" "heap_wf s1" "heap_only s s1"
    "unat (free_list s1) = unat (free_list s) + 16 + unat (len + 1)"
    "frames_left s \<le> frames_left s1 + kalloc_cost (len + 1)"
    using kalloc_step [OF wf room] by metis
  let ?b = "free_list s + 16" and ?bs = "map byte_of_char text"
  have lt: "length text = unat len" using arg_cong [OF tx(1), of length] by simp
  have ul: "unat (len + 1) = unat len + 1"
    using low unat_bound [of len] by (simp add: unat_word_ariths)
  have ub: "unat ?b = unat (free_list s) + 16"
    using heap_top [OF wf] by (simp add: unat_word_ariths VIRTUAL_HEAP_START_def)
  note hb = heap_base [OF wf] heap_top [OF k(2)]
  have low1: "mem s1 x = mem s x \<and> sv48 s1 x = sv48 s x" if "unat x < 2 ^ 47" for x
    using kalloc_keeps_low [OF wf room k(1) that] kalloc_sv48_low [OF wf room k(1) that] by simp
  have in_low: "unat (src + of_nat i) < 2 ^ 47" if "i < unat len" for i
    using that low by (simp add: unat_word_ariths unat_of_nat)
  note eq1 = low1 [OF in_low]
  have ld: "load_bytes (mem s1) src (unat len) = ?bs"
    unfolding tx(1) [symmetric] by (rule nth_equalityI) (simp_all add: eq1)
  have mr: "mapped_range s1 src (unat len)"
    using mapped by (simp add: mapped_range_def eq1)
  have dj: "disj ?b (unat len) src (unat len)"
  proof (cases "unat len = 0")
    case False
    then show ?thesis
      using low hb ub k(4) ul by (intro disj_nat) (simp_all add: VIRTUAL_HEAP_START_def, linarith?)
  qed (simp add: disj_def)
  let ?m = "store_bytes (mem s1) ?b (?bs @ [0])"
  have mem2: "put8 (?b + len) 0 (snd (memcpy ?b src len s1)) = s1\<lparr>mem := ?m\<rparr>"
    using store_bytes_snoc [of ?bs 0 "mem s1" ?b] lt low by (simp add: memcpy_store [OF dj] put8_def ld)
  have "is_cstr ?m ?b text"
    using lt low tx(2) by (intro is_cstr_store) simp_all
  then have cs: "cstr ?m ?b = text" by (rule cstr_is_cstr)
  have res: "sys_write src len s = Some (s1\<lparr>mem := ?m, out := out s1 @ text\<rparr>)"
    using k(1) mr cs by (simp add: sys_write_def mem2 Let_def printf_eq convert_text_def)
  have "unat ?b + length (?bs @ [0]) \<le> unat (free_list s1)" using k(4) ul lt ub by simp
  note hs = heap_store [OF k(2) _ this]
  have b: "unat VIRTUAL_HEAP_START \<le> unat ?b" using hb ub by simp
  have "mem (s1\<lparr>mem := ?m, out := out s1 @ text\<rparr>) x = mem s x \<and>
      sv48 (s1\<lparr>mem := ?m, out := out s1 @ text\<rparr>) x = sv48 s x" if "unat x < 2 ^ 47" for x
  proof -
    have "?m x = mem s1 x"
    proof (rule store_bytes_out, rule ccontr)
      assume "\<not> length (?bs @ [0]) \<le> unat (x - ?b)"
      then have "unat x = unat ?b + unat (x - ?b)"
        using lt hb ub k(4) ul by (intro unat_in_range [of _ _ "length (?bs @ [0])"]) (simp_all add: VIRTUAL_HEAP_START_def)
      with that b show False by (simp add: VIRTUAL_HEAP_START_def)
    qed
    then show ?thesis using low1 [OF that] hs(2) [OF b] by (simp add: state_simps)
  qed
  moreover have "out s1 = out s" using k(3) q by (simp add: heap_only_def)
  moreover have "heap_only s ((s1\<lparr>mem := ?m, out := out s1 @ text\<rparr>)\<lparr>out := out s\<rparr>)"
    using k(3) unfolding heap_only_def by (cases s, cases s1) simp
  ultimately show ?thesis
    using res hs(1,3) [OF b] k(5)
    by (intro exI [of _ "s1\<lparr>mem := ?m, out := out s1 @ text\<rparr>"]) (simp add: state_simps frames_left_def heap_wf_out)
qed
section \<open>Properties\<close>

text \<open>
  C10: the write system call, from trap to return. A user text without null characters in mapped user
  memory, with room on the kernel heap and the memory manager's messages hidden: the trap resumes the
  program after its \<^verbatim>\<open>ecall\<close> in user mode, the console shows the log line of the call and then
  exactly the text, the kernel heap stays well formed, and no byte of user memory changes.
\<close>

theorem write_syscall_prints:
  fixes s :: "('d, 'a) ker_scheme"
  assumes "heap_wf s" and "quiet s" and "kalloc_cost (par_a2 p + 1) \<le> frames_left s" and "par_a7 p = 1"
    and "unat (par_a1 p) + unat (par_a2 p) \<le> 2 ^ 47" and "mapped_range s (par_a1 p) (unat (par_a2 p))"
    and "load_bytes (mem s) (par_a1 p) (unat (par_a2 p)) = map byte_of_char txt" and "CHR 0x00 \<notin> set txt"
  shows "\<exists>r (s' :: ('d, 'a) ker_scheme).
    machine_exception_handler V left_in_a0 p 0x8 mtval pc s = Some (Resumed (pc + 4) r s') \<and>
    out s' = out s @ log_text (logLevel s) SYSCALL ''Handling system call with parameter %i'' [VInt 1] @ txt \<and>
    heap_wf s' \<and> \<not> bit (sstatus s') 8 \<and> (\<forall>x. unat x < 2 ^ 47 \<longrightarrow> mem s' x = mem s x)"
proof -
  let ?l = "log SYSCALL ''Handling system call with parameter %i'' [VInt (par_a7 p)] s"
  have l: "heap_wf ?l" "quiet ?l" "kalloc_cost (par_a2 p + 1) \<le> frames_left ?l"
    "mapped_range ?l (par_a1 p) (unat (par_a2 p))" "mem ?l = mem s"
    using assms(1-3,6) by (simp_all add: log_eq heap_wf_out quiet_def frames_left_def mapped_range_def state_simps)
  obtain t :: "('d, 'a) ker_scheme" where t: "sys_write (par_a1 p) (par_a2 p) ?l = Some t" "out t = out ?l @ txt" "heap_wf t"
    "\<forall>x. unat x < 2 ^ 47 \<longrightarrow> mem t x = mem s x"
    using sys_write_ok [OF l(1-3) assms(5) l(4) _ assms(8)] assms(7) l(5) by auto
  have "handle_syscall V p s = Some t"
    using t(1) assms(4) by (simp add: handle_syscall_def Let_def)
  then have "machine_exception_handler V left_in_a0 p 0x8 mtval pc s =
      Some (Resumed (pc + 4) (left_in_a0 t) (set_spp_zero t))"
    by (simp add: machine_exception_handler_def jump_back_to_userspace_def)
  moreover have "heap_wf (set_spp_zero t)"
    using t(3) heap_wf_cong(1) [of "set_spp_zero t" t] by (simp add: set_spp_zero_def)
  moreover have "\<not> bit (sstatus (set_spp_zero t)) 8"
    by (simp add: set_spp_zero_def bit_simps)
  moreover have "mem (set_spp_zero t) = mem t" "out (set_spp_zero t) = out t" by (simp_all add: set_spp_zero_def)
  ultimately show ?thesis
    using t(2,4) assms(4) by (simp add: log_eq)
qed

lemma sample_ker_ok: "phys_layout sample_ker" "frames_zero sample_ker" "used sample_ker = {}" "quiet sample_ker"
  by (simp_all add: sample_ker_def vheap.defs sample_heap_def paging.defs sample_paging_def phys_layout_def phys_base_def
    VIRTUAL_OFFSET_def NFRAMES_def frames_zero_def used_def quiet_def)

theorem write_syscall_prints_witness:
  "\<exists>(s :: unit ker) V r s'. machine_exception_handler V (\<lambda>_. 7)
     \<lparr>par_a0 = 1, par_a1 = 0x400000, par_a2 = 2, par_a3 = 0, par_a4 = 0, par_a5 = 0, par_a7 = 1\<rparr>
     0x8 0x1000 0x1000 s = Some (Resumed 0x1004 r s') \<and> out s' = out s @ ''hi''"
proof -
  obtain s :: "unit ker" where s: "heap_wf s" "NFRAMES - 10 \<le> frames_left s" "logLevel s = logLevel sample_ker"
    "load_bytes (mem s) 0x400000 (length (map byte_of_char ''hi'')) = map byte_of_char ''hi''"
    "\<forall>v. drop_bit 12 v = drop_bit 12 0x400000 \<longrightarrow> sv48 s v \<noteq> None"
    by (rule boot_user_page [OF sample_ker_ok, of "map byte_of_char ''hi''"]) simp_all
  let ?p = "\<lparr>par_a0 = 1, par_a1 = 0x400000, par_a2 = 2, par_a3 = 0, par_a4 = 0, par_a5 = 0, par_a7 = 1\<rparr>"
  have l0: "logLevel s = 0"
    using s(3) by (simp add: sample_ker_def vheap.defs sample_heap_def paging.defs sample_paging_def)
  have s4: "load_bytes (mem s) 0x400000 2 = map byte_of_char ''hi''"
    using s(4) by (simp add: numeral_2_eq_2)
  have "sv48 s (0x400000 + of_nat i) \<noteq> None" if "i < 2" for i
  proof -
    have "i = 0 \<or> i = 1" using that by auto
    then show ?thesis using s(5) by auto
  qed
  then have "\<exists>r s'. machine_exception_handler V (\<lambda>_. 7) ?p 0x8 0x1000 0x1000 s = Some (Resumed (0x1000 + 4) r s') \<and>
      out s' = out s @ log_text (logLevel s) SYSCALL ''Handling system call with parameter %i'' [VInt 1] @ ''hi'' \<and>
    heap_wf s' \<and> \<not> bit (sstatus s') 8 \<and> (\<forall>x. unat x < 2 ^ 47 \<longrightarrow> mem s' x = mem s x)" for V
    using s(1,2) s4 l0 by (intro write_syscall_prints)
      (simp_all add: quiet_def kalloc_cost_def NFRAMES_def mapped_range_def)
  then show ?thesis using l0 by (simp add: log_text_def) blast
qed

text \<open>
  Only system calls come back. A trap is resumed exactly when its cause is 8 and the system call
  itself returns, after the trapping instruction and with the previous-privilege bit cleared; every
  other cause ends in the handler's endless loop, with the message printed and nothing else changed.
\<close>

theorem trap_outcome:
  "case machine_exception_handler V left_in_a0 p cause mtval pc s of
     None \<Rightarrow> cause = 0x8 \<and> handle_syscall V p s = None
   | Some (Resumed pc' r s') \<Rightarrow> cause = 0x8 \<and> pc' = pc + 4 \<and> \<not> bit (sstatus s') 8 \<and>
       (\<exists>t. handle_syscall V p s = Some t \<and> s' = set_spp_zero t \<and> r = left_in_a0 t)
   | Some (Halted s') \<Rightarrow> cause \<noteq> 0x8 \<and> (\<exists>tx. s' = s\<lparr>out := out s @ tx\<rparr>)"
  by (auto simp: machine_exception_handler_def jump_back_to_userspace_def set_spp_zero_def log_eq bit_simps
      split: option.split bind_split)

end
