(* ===== verification/Os.thy ===== *)
theory Os
  imports Uart Syscall
begin

text \<open>
  Start-up, \<^verbatim>\<open>kernel/os.cpp\<close>: \<open>os_start\<close> brings the components up in the order of the
  source, prints two files and enters the shell. The UART and the virtio devices are the
  parameters \<open>U\<close> and \<open>V\<close>, the symbols of the linker script \<open>K\<close>, the addresses of the
  string literals \<open>L\<close>. It either returns -1 (no block device) or ends in user mode.
\<close>

datatype 's start_end = Boot_failed 's | User_mode user_entry 's

definition default_log_level :: u64 where
  "default_log_level = level_bit SYSCALL OR level_bit EXCEPTION OR level_bit SYSTEM OR level_bit ERROR
     OR level_bit WARNING OR level_bit PROCESS OR level_bit FS"

definition print_bytes :: "u64 \<Rightarrow> nat \<Rightarrow> 'a kio_scheme \<Rightarrow> 'a kio_scheme" where
  "print_bytes p n s = fold (\<lambda>b. printf ''%c'' [VInt (ucast b)]) (load_bytes (mem s) p n) s"

definition memory_start :: "linker \<Rightarrow> ('d, 'a) ker_scheme \<Rightarrow> ('d, 'a) ker_scheme option" where
  "memory_start K s = do {
     let s = set_log_level default_log_level s;
     let s = log SYSTEM ''Booted to OS'' [] s;
     let s = physical_allocator_init K s;
     s \<leftarrow> paging_init s;
     virtual_allocator_init s
   }"

text \<open>
  The two files that the start-up prints. \<open>show_file\<close> is the pair of \<^verbatim>\<open>read_file\<close> and the printing
  loop that occurs twice; the second file is read with the size and into the buffer of the first.
\<close>

definition show_file :: "'d vio_ops \<Rightarrow> u64 \<Rightarrow> u64 \<Rightarrow> u64 \<Rightarrow> ('d, 'a) fsst_scheme \<Rightarrow> ('d, 'a) fsst_scheme option" where
  "show_file V path testfile_size buffer1 s = do {
     (_, s) \<leftarrow> read_file V path testfile_size buffer1 s;
     Some (print_bytes buffer1 (unat testfile_size) s)
   }"

definition show_testfile :: "'d vio_ops \<Rightarrow> literals \<Rightarrow> ('d, 'a) fsst_scheme \<Rightarrow> (u64 \<times> u64 \<times> ('d, 'a) fsst_scheme) option" where
  "show_testfile V L s = do {
     (testfile_size, s) \<leftarrow> get_file_size V (lit_testfile L) s;
     (buffer1, s) \<leftarrow> kalloc testfile_size s;
     s \<leftarrow> show_file V (lit_testfile L) testfile_size buffer1 s;
     Some (testfile_size, buffer1, s)
   }"

definition show_folder_file :: "'d vio_ops \<Rightarrow> literals \<Rightarrow> u64 \<Rightarrow> u64 \<Rightarrow> ('d, 'a) fsst_scheme \<Rightarrow> ('d, 'a) fsst_scheme option" where
  "show_folder_file V L testfile_size buffer1 s = do {
     (testfile2_size, s) \<leftarrow> get_file_size V (lit_folder_file L) s;
     (_, s) \<leftarrow> kalloc testfile2_size s;
     show_file V (lit_folder_file L) testfile_size buffer1 s
   }"

definition processes_start :: "'d vio_ops \<Rightarrow> literals \<Rightarrow> ('d, 'a) ker_scheme \<Rightarrow> (user_entry \<times> ('d, 'a) ker_scheme) option" where
  "processes_start V L s = do {
     (vfs, s) \<leftarrow> operator_new sizeof_VFS s;
     let s = VFS_new vfs s;
     (scheduler, s) \<leftarrow> get_instance s;
     (_, s) \<leftarrow> submit_new_process V L scheduler (lit_shell L) s;
     let s = printf (''submitted process'' @ [CHR 0x0A]) [] s;
     run_next_process scheduler s
   }"

definition os_start ::
  "'e uart_dev \<Rightarrow> 'd vio_ops \<Rightarrow> linker \<Rightarrow> literals \<Rightarrow> 'e \<times> ('d, 'a) ker_scheme \<Rightarrow>
   ('e \<times> ('d, 'a) ker_scheme start_end) option" where
  "os_start U V K L = (\<lambda>(u, s). do {
     let u = uart_init U u;
     s \<leftarrow> memory_start K s;
     (device, s) \<leftarrow> storage_start V s;
     if device = None then Some (u, Boot_failed s)
     else do {
       (testfile_size, buffer1, s) \<leftarrow> show_testfile V L s;
       s \<leftarrow> show_folder_file V L testfile_size buffer1 s;
       (e, s) \<leftarrow> processes_start V L s;
       Some (u, User_mode e s)
     }
   })"

section \<open>The files the start-up prints\<close>

definition testfile_path :: "string list" where
  "testfile_path = [''testfile.txt'']"

definition folder_file_path :: "string list" where
  "folder_file_path = [''folder1'', ''folder2'', ''folder3'', ''file.txt'']"

lemma print_bytes_eq: "print_bytes p n s = s\<lparr>out := out s @ map char_of_byte (load_bytes (mem s) p n)\<rparr>"
proof -
  have p: "printf ''%c'' [VInt (ucast b)] s = s\<lparr>out := out s @ [char_of_byte b]\<rparr>" for b and s :: "'a kio_scheme"
    by (simp add: printf_eq convert_text_def)
  have "fold (\<lambda>b. printf ''%c'' [VInt (ucast b)]) bs s = s\<lparr>out := out s @ map char_of_byte bs\<rparr>" for bs and s :: "'a kio_scheme"
    by (induction bs arbitrary: s) (simp_all add: p)
  then show ?thesis by (simp add: print_bytes_def)
qed

definition file_text :: "mem \<Rightarrow> u64 \<Rightarrow> u64 \<Rightarrow> string" where
  "file_text P pos n = map char_of_byte (file_bytes P pos (unat n))"

lemma show_file_ok:
  fixes s :: "('d, 'a) fsst_scheme"
  assumes mt: "mounted R V D live device q (ext2_instance s) hi s" and lit: "literal_path R path cs"
    and vr: "volume_ready (partition D) cs" and pos: "file_inode_of (partition D) cs = Some pos"
    and buf: "span hi (unat (free_list s)) data (unat n)"
    and room: "unat (free_list s) + file_cost (partition D) cs + read_cost n + 16 \<le> heap_limit"
  obtains s' where "show_file V path n data s = Some s'" "mounted R V D live device q (ext2_instance s') hi s'"
    "\<exists>l. out s' = l @ file_text (partition D) pos n" "vio_only s s'" "unat (free_list s) \<le> unat (free_list s')"
    "unat (free_list s') \<le> unat (free_list s) + file_cost (partition D) cs + read_cost n"
proof -
  obtain t :: "('d, 'a) fsst_scheme" where t: "read_file V path n data s = Some (0, t)"
    "load_bytes (mem t) data (unat n) = file_bytes (partition D) (reached (partition D) cs) (unat n)"
    "mounted R V D live device q (ext2_instance t) hi t" "vio_only s t" "unat (free_list s) \<le> unat (free_list t)"
    "unat (free_list t) \<le> unat (free_list s) + file_cost (partition D) cs + read_cost n"
    using read_file_reached [OF mt literal_file_path [OF mt lit] vr room buf] by blast
  let ?s' = "print_bytes data (unat n) t"
  have "show_file V path n data s = Some ?s'" using t(1) by (simp add: show_file_def)
  moreover have "\<exists>l. out ?s' = l @ file_text (partition D) pos n"
    using t(2) unfolding reached_file [OF pos] by (simp add: print_bytes_eq file_text_def)
  moreover have "vio_only s ?s'" unfolding print_bytes_eq by (rule vio_only_trans [OF t(4) vio_only_intros(4)])
  ultimately show ?thesis using that t(3,5,6) by (simp add: print_bytes_eq)
qed

lemma show_testfile_ok:
  fixes s :: "('d, 'a) fsst_scheme"
  assumes mt: "mounted R V D live device q (ext2_instance s) hi s" and lit: "literal_path R (lit_testfile L) testfile_path"
    and vr: "volume_ready (partition D) testfile_path" and pos: "file_inode_of (partition D) testfile_path = Some pos"
    and n: "n = file_size (partition D) pos"
    and room: "unat (free_list s) + 2 * file_cost (partition D) testfile_path + unat n + read_cost n + 48 \<le> heap_limit"
  obtains buffer1 s' where "show_testfile V L s = Some (n, buffer1, s')" "mounted R V D live device q (ext2_instance s') hi s'"
    "\<exists>l. out s' = l @ file_text (partition D) pos n" "span hi (unat (free_list s')) buffer1 (unat n)"
    "unat (free_list s') \<le> unat (free_list s) + 2 * file_cost (partition D) testfile_path + unat n + read_cost n + 16"
proof -
  let ?P = "partition D" and ?c = "file_cost (partition D) testfile_path"
  have "unat (free_list s) + ?c + 16 \<le> heap_limit" using room by simp
  then obtain s1 :: "('d, 'a) fsst_scheme" where s1: "get_file_size V (lit_testfile L) s = Some (n, s1)"
    "mounted R V D live device q (ext2_instance s1) hi s1" "unat (free_list s1) \<le> unat (free_list s) + ?c"
    using get_file_size_reached [OF mt literal_file_path [OF mt lit] vr] unfolding reached_file [OF pos] n by blast
  have "unat (free_list s1) + unat n + 32 \<le> heap_limit" using room s1(3) by simp
  then obtain b s2 where s2: "kalloc n s1 = Some (b, s2)" "mounted R V D live device q (ext2_instance s1) hi s2"
    "unat b = unat (free_list s1) + 16" "unat (free_list s2) = unat (free_list s1) + 16 + unat n" "free_list s2 = b + n"
    "kept hi (unat (free_list s1)) (mem s1) (mem s2)" "heap_only s1 s2"
    by (rule mounted_kalloc [OF s1(2)])
  have "ext2_instance s2 = ext2_instance s1" using s2(7) by (cases s1, cases s2) (simp add: heap_only_def)
  with s2(2) have m2: "mounted R V D live device q (ext2_instance s2) hi s2" by simp
  have h: "span hi (unat (free_list s2)) b (unat n)" "unat (free_list s2) + ?c + read_cost n + 16 \<le> heap_limit"
    using s2(3,4) mounted_top(2) [OF s1(2)] room s1(3) by (simp_all add: span_def)
  obtain s' where s': "show_file V (lit_testfile L) n b s2 = Some s'" "mounted R V D live device q (ext2_instance s') hi s'"
    "\<exists>l. out s' = l @ file_text ?P pos n" "vio_only s2 s'" "unat (free_list s2) \<le> unat (free_list s')"
    "unat (free_list s') \<le> unat (free_list s2) + ?c + read_cost n"
    by (rule show_file_ok [OF m2 lit vr pos h])
  have "show_testfile V L s = Some (n, b, s')" using s1(1) s2(1) s'(1) by (simp add: show_testfile_def)
  then show ?thesis using that s'(2,3,5,6) h(1) s2(4) s1(3) by (simp add: span_def)
qed

lemma show_folder_file_ok:
  fixes s :: "('d, 'a) fsst_scheme"
  assumes mt: "mounted R V D live device q (ext2_instance s) hi s" and lit: "literal_path R (lit_folder_file L) folder_file_path"
    and vr: "volume_ready (partition D) folder_file_path" and pos: "file_inode_of (partition D) folder_file_path = Some pos"
    and buf: "span hi (unat (free_list s)) buffer1 (unat n)"
    and room: "unat (free_list s) + 2 * file_cost (partition D) folder_file_path + unat (file_size (partition D) pos) + read_cost n + 48 \<le> heap_limit"
  obtains s' where "show_folder_file V L n buffer1 s = Some s'" "mounted R V D live device q (ext2_instance s') hi s'"
    "\<exists>l. out s' = l @ file_text (partition D) pos n"
proof -
  let ?P = "partition D" and ?c = "file_cost (partition D) folder_file_path"
  let ?n = "file_size ?P pos"
  have "unat (free_list s) + ?c + 16 \<le> heap_limit" using room by simp
  then obtain s1 :: "('d, 'a) fsst_scheme" where s1: "get_file_size V (lit_folder_file L) s = Some (?n, s1)"
    "mounted R V D live device q (ext2_instance s1) hi s1" "unat (free_list s) \<le> unat (free_list s1)" "unat (free_list s1) \<le> unat (free_list s) + ?c"
    using get_file_size_reached [OF mt literal_file_path [OF mt lit] vr] unfolding reached_file [OF pos] by blast
  have "unat (free_list s1) + unat ?n + 32 \<le> heap_limit" using room s1(4) by simp
  then obtain b s2 where s2: "kalloc ?n s1 = Some (b, s2)" "mounted R V D live device q (ext2_instance s1) hi s2"
    "unat b = unat (free_list s1) + 16" "unat (free_list s2) = unat (free_list s1) + 16 + unat ?n" "free_list s2 = b + ?n"
    "kept hi (unat (free_list s1)) (mem s1) (mem s2)" "heap_only s1 s2"
    by (rule mounted_kalloc [OF s1(2)])
  have "ext2_instance s2 = ext2_instance s1" using s2(7) by (cases s1, cases s2) (simp add: heap_only_def)
  with s2(2) have m2: "mounted R V D live device q (ext2_instance s2) hi s2" by simp
  have h: "span hi (unat (free_list s2)) buffer1 (unat n)" "unat (free_list s2) + ?c + read_cost n + 16 \<le> heap_limit"
    using buf s2(4) room s1(3,4) by (simp_all add: span_def)
  obtain s' where s': "show_file V (lit_folder_file L) n buffer1 s2 = Some s'" "mounted R V D live device q (ext2_instance s') hi s'"
    "\<exists>l. out s' = l @ file_text ?P pos n"
    by (rule show_file_ok [OF m2 lit vr pos h])
  have "show_folder_file V L n buffer1 s = Some s'" using s1(1) s2(1) s'(1) by (simp add: show_folder_file_def)
  then show ?thesis using that s'(2,3) by blast
qed

text \<open>
  A volume the start-up can work with: sound as far as the two paths go, both files present, and small
  enough for what the start-up allocates to fit into the first two megabytes of the heap.
\<close>

definition boot_volume :: "mem \<Rightarrow> u64 \<Rightarrow> u64 \<Rightarrow> bool" where
  "boot_volume P pos pos2 \<longleftrightarrow> geometry_ok P \<and> s_blocks_per_group P 1024 \<noteq> 0 \<and> s_inode_size P 1024 \<noteq> 0 \<and>
     volume_ready P testfile_path \<and> file_inode_of P testfile_path = Some pos \<and>
     volume_ready P folder_file_path \<and> file_inode_of P folder_file_path = Some pos2 \<and>
     storage_cost P + 2 * file_cost P testfile_path + 2 * file_cost P folder_file_path + unat (file_size P pos) +
       unat (file_size P pos2) + 2 * read_cost (file_size P pos) + 64 \<le> 2 ^ 21"

lemma storage_files_ok:
  fixes s :: "('d, 'a) ker_scheme"
  assumes lin: "linear_heap s" and R: "kernel_image R s" and fl: "free_list s = VIRTUAL_HEAP_START" and disk: "disk_at V D live i (dev s)"
    and bv: "boot_volume (partition D) pos pos2"
    and lit: "literal_path R (lit_testfile L) testfile_path" "literal_path R (lit_folder_file L) folder_file_path"
  defines "n \<equiv> file_size (partition D) pos"
  obtains device q hi s2 buffer1 s3 s4 where "storage_start V s = Some (Some device, s2)"
    "show_testfile V L s2 = Some (n, buffer1, s3)" "\<exists>l. out s3 = l @ file_text (partition D) pos n"
    "show_folder_file V L n buffer1 s3 = Some s4" "\<exists>l. out s4 = l @ file_text (partition D) pos2 n"
    "mounted R V D live device q (ext2_instance s4) hi s4"
proof -
  let ?P = "partition D"
  note b = bv [unfolded boot_volume_def, folded n_def]
  have g: "geometry_ok ?P" "s_blocks_per_group ?P 1024 \<noteq> 0" "s_inode_size ?P 1024 \<noteq> 0" "volume_ready ?P testfile_path"
    "file_inode_of ?P testfile_path = Some pos" "volume_ready ?P folder_file_path" "file_inode_of ?P folder_file_path = Some pos2"
    using b by blast+
  have cost: "unat (free_list s) + storage_cost ?P + 2 * file_cost ?P testfile_path + 2 * file_cost ?P folder_file_path + unat n +
       unat (file_size ?P pos2) + 2 * read_cost n + 64 \<le> heap_limit" using b fl by (simp add: heap_limit_def)
  then have r1: "unat (free_list s) + storage_cost ?P + 48 \<le> heap_limit" by simp
  obtain device q s2 where s2: "storage_start V s = Some (Some device, s2)"
    "mounted R V D live device q (ext2_instance s2) (unat (free_list s2)) s2" "unat (free_list s2) = unat (free_list s) + storage_cost ?P"
    by (rule storage_start_ok [OF lin R refl disk g(1-3) r1])
  have r2: "unat (free_list s2) + 2 * file_cost ?P testfile_path + unat n + read_cost n + 48 \<le> heap_limit" using cost s2(3) by simp
  obtain buffer1 s3 where s3: "show_testfile V L s2 = Some (n, buffer1, s3)"
    "mounted R V D live device q (ext2_instance s3) (unat (free_list s2)) s3"
    "\<exists>l. out s3 = l @ file_text ?P pos n" "span (unat (free_list s2)) (unat (free_list s3)) buffer1 (unat n)"
    "unat (free_list s3) \<le> unat (free_list s2) + 2 * file_cost ?P testfile_path + unat n + read_cost n + 16"
    by (rule show_testfile_ok [OF s2(2) lit(1) g(4,5) meta_eq_to_obj_eq [OF n_def] r2])
  have r3: "unat (free_list s3) + 2 * file_cost ?P folder_file_path + unat (file_size ?P pos2) + read_cost n + 48 \<le> heap_limit"
    using cost s2(3) s3(5) by simp
  obtain s4 where s4: "show_folder_file V L n buffer1 s3 = Some s4" "mounted R V D live device q (ext2_instance s4) (unat (free_list s2)) s4"
    "\<exists>l. out s4 = l @ file_text ?P pos2 n"
    by (rule show_folder_file_ok [OF s3(2) lit(2) g(6,7) s3(4) r3])
  show ?thesis by (rule that [OF s2(1) s3(1,3) s4(1,3,2)])
qed

end
