(* ===== verification/Tlibc.thy ===== *)
theory Tlibc
  imports Syscall
begin

text \<open>
  The C library of user programs, \<^verbatim>\<open>tlibc/\<close>: start-up, \<^verbatim>\<open>malloc\<close>,
  \<^verbatim>\<open>strcmp\<close>, \<^verbatim>\<open>printf\<close> and the system-call wrappers.

  A user program runs on the same memory as the kernel; its statics extend the state. A system
  call is a trap with cause 8 into \<open>machine_exception_handler\<close>; when the kernel halts the
  program never continues (\<open>None\<close>). \<open>env\<close> gives what a program is compiled and run with:
  the devices, what the kernel leaves in \<^verbatim>\<open>a0\<close>, the address of the \<^verbatim>\<open>ecall\<close>
  and of the string literals.
\<close>

record 'd user = "'d ker" +
  heap_start :: u64
  HEAP_START :: u64
  first_item :: u64
  print_buffer :: u64

record ('d, 's) user_env =
  devices :: "'d vio_ops"
  left_a0 :: "'s \<Rightarrow> u64"
  ecall_pc :: u64
  lit_home :: u64
  lit_pwd :: u64
  lit_ls :: u64

section \<open>System calls\<close>

definition syscall ::
  "('d, ('d, 'a) user_scheme) user_env \<Rightarrow> u64 \<Rightarrow> u64 \<Rightarrow> u64 \<Rightarrow> u64 \<Rightarrow> ('d, 'a) user_scheme \<Rightarrow>
   (u64 \<times> ('d, 'a) user_scheme) option" where
  "syscall env number x y z s = do {
     r \<leftarrow> machine_exception_handler (devices env) (left_a0 env)
       \<lparr>par_a0 = x, par_a1 = y, par_a2 = z, par_a3 = 0, par_a4 = 0, par_a5 = 0, par_a7 = number\<rparr>
       0x8 (ecall_pc env) (ecall_pc env) s;
     case r of Halted _ \<Rightarrow> None | Resumed pc ret s \<Rightarrow> Some (ret, s)
   }"

definition user_write where
  "user_write env fd buf count s = do { (_, s) \<leftarrow> syscall env 1 fd buf count s; Some (0 :: int, s) }"

definition user_read where
  "user_read env fd buf nbyte s = do { (_, s) \<leftarrow> syscall env 0 fd buf nbyte s; Some (0 :: int, s) }"

text \<open>The result of \<^verbatim>\<open>open\<close> is a \<^verbatim>\<open>long\<close> returned as an \<^verbatim>\<open>int\<close>.\<close>

definition user_open where
  "user_open env pathname flags mode s = do {
     (r, s) \<leftarrow> syscall env 2 pathname flags mode s;
     Some (ucast r :: u32, s)
   }"

definition getcwd where
  "getcwd env buf sz s = do { (_, s) \<leftarrow> syscall env 79 buf sz 0 s; Some (0 :: u64, s) }"

definition get_heap_start :: "('d, 'a) user_scheme \<Rightarrow> u64" where
  "get_heap_start s = heap_start s"

definition sbrk :: "u64 \<Rightarrow> ('d, 'a) user_scheme \<Rightarrow> u64" where
  "sbrk increment s = get_heap_start s"

section \<open>malloc\<close>

text \<open>
  A \<^verbatim>\<open>FreeItem\<close>: size at 0, \<^verbatim>\<open>is_last\<close> at 8, \<^verbatim>\<open>is_first\<close> at 10, next at 16.
  An \<^verbatim>\<open>AllocationItem\<close>: header at 0, size at 8. Both are 32 bytes.
\<close>

definition MAGIC_STRING :: u64 where
  "MAGIC_STRING = 0xDEADBEEF"

definition sizeof_AllocationItem :: u64 where
  "sizeof_AllocationItem = 32"

definition item_size :: "mem \<Rightarrow> u64 \<Rightarrow> u64" where
  "item_size m i = ld64 m i"

definition item_is_last :: "mem \<Rightarrow> u64 \<Rightarrow> bool" where
  "item_is_last m i \<longleftrightarrow> ld16 m (i + 8) \<noteq> 0"

definition next_item :: "mem \<Rightarrow> u64 \<Rightarrow> u64" where
  "next_item m i = ld64 m (i + 16)"

definition malloc_init :: "('d, 'a) user_scheme \<Rightarrow> ('d, 'a) user_scheme" where
  "malloc_init s =
     (let s = s\<lparr>HEAP_START := sbrk 0 s\<rparr>;
          s = s\<lparr>first_item := HEAP_START s\<rparr>;
          s = put64 (first_item s) PAGE_SIZE s;
          s = put64 (first_item s + 16) 0x0 s;
          s = put64 (first_item s + 16) 0x0 s;
          s = put16 (first_item s + 8) 1 s
      in put16 (first_item s + 10) 1 s)"

partial_function (option) find_item :: "u64 \<Rightarrow> u64 \<Rightarrow> mem \<Rightarrow> u64 option" where
  "find_item current sz m =
     (if item_size m current < sz \<and> \<not> item_is_last m current
      then find_item (next_item m current) sz m else Some current)"

definition malloc :: "u64 \<Rightarrow> ('d, 'a) user_scheme \<Rightarrow> (u64 \<times> ('d, 'a) user_scheme) option" where
  "malloc sz s = do {
     current \<leftarrow> find_item (first_item s) sz (mem s);
     let newItem = current;
     let s = put64 newItem MAGIC_STRING s;
     let s = put64 (newItem + 8) sz s;
     let newFreeItem = newItem + sizeof_AllocationItem + sz;
     let s = put64 newFreeItem (item_size (mem s) current - (sz + sizeof_AllocationItem)) s;
     let s = s\<lparr>first_item := newFreeItem\<rparr>;
     Some (newItem + sizeof_AllocationItem, s)
   }"

section \<open>strcmp\<close>

partial_function (option) strcmp :: "u64 \<Rightarrow> u64 \<Rightarrow> mem \<Rightarrow> int option" where
  "strcmp s1 s2 m =
     (if m s1 \<noteq> 0 \<and> m s2 \<noteq> 0 then
        if m s1 \<noteq> m s2 then (if m s1 < m s2 then Some (- 1) else Some 1)
        else strcmp (s1 + 1) (s2 + 1) m
      else if m s1 \<noteq> 0 \<and> m s2 = 0 then Some 1
      else if m s1 = 0 \<and> m s2 \<noteq> 0 then Some (- 1)
      else Some 0)"

section \<open>printf\<close>

text \<open>\<^verbatim>\<open>buffer[curr] = c; curr++\<close>.\<close>

definition emit :: "char \<Rightarrow> u64 \<times> ('d, 'a) user_scheme \<Rightarrow> u64 \<times> ('d, 'a) user_scheme" where
  "emit c = (\<lambda>(curr, s). (curr + 1, put8 (print_buffer s + curr) (byte_of_char c) s))"

fun emit_back_to_front :: "string \<Rightarrow> u64 \<times> ('d, 'a) user_scheme \<Rightarrow> u64 \<times> ('d, 'a) user_scheme" where
  "emit_back_to_front [] b = b"
| "emit_back_to_front (c # cs) b = emit c (emit_back_to_front cs b)"

definition user_convert ::
  "char \<Rightarrow> va list \<Rightarrow> u64 \<times> ('d, 'a) user_scheme \<Rightarrow> (va list \<times> u64 \<times> ('d, 'a) user_scheme) option" where
  "user_convert d args b =
     (if d = CHR ''d'' \<or> d = CHR ''i'' then
        (let (w, args') = va_int args;
             (i, chars) = dec_loop (sint (ucast w :: 32 word)) []
         in Some (args', emit_back_to_front chars (emit (char_of (i + 48)) b)))
      else if d = CHR ''x'' then
        (let (w, args') = va_int args
         in Some (args', emit_back_to_front (map hex_char (hex_loop w [])) b))
      else if d = CHR ''s'' then
        (let (t, args') = va_str args in Some (args', fold emit t b))
      else if d = CHR ''c'' then
        (let (w, args') = va_int args in Some (args', emit (char_of_byte (ucast w)) b))
      else None)"

fun format_loop :: "string \<Rightarrow> va list \<Rightarrow> u64 \<times> ('d, 'a) user_scheme \<Rightarrow> u64 \<times> ('d, 'a) user_scheme" where
  "format_loop [] args b = b"
| "format_loop (c # fmt) args b =
     (if c = CHR ''%'' then
        (case fmt of
           [] \<Rightarrow> b
         | d # rest \<Rightarrow>
             (case user_convert d args b of
                Some (args', b') \<Rightarrow> format_loop rest args' b'
              | None \<Rightarrow> format_loop fmt args b))
      else format_loop fmt args (emit c b))"

definition user_vprintf where
  "user_vprintf env fmt args s = do {
     let (curr, s) = format_loop fmt args (0, s);
     (_, s) \<leftarrow> user_write env 1 (print_buffer s) curr s;
     Some (0 :: int, s)
   }"

definition user_printf where
  "user_printf env fmt args s = user_vprintf env fmt args s"

definition init_printf :: "('d, 'a) user_scheme \<Rightarrow> ('d, 'a) user_scheme option" where
  "init_printf s = do { (p, s) \<leftarrow> malloc 200 s; Some (s\<lparr>print_buffer := p\<rparr>) }"

section \<open>Start-up\<close>

text \<open>Register \<^verbatim>\<open>a2\<close> holds the heap start when the process is entered.\<close>

definition initialize_standard_library :: "u64 \<Rightarrow> ('d, 'a) user_scheme \<Rightarrow> ('d, 'a) user_scheme option" where
  "initialize_standard_library a2 s = do {
     let s = s\<lparr>heap_start := a2\<rparr>;
     let s = malloc_init s;
     init_printf s
   }"

section \<open>What printf puts into its buffer\<close>

lemma emit_back_to_front_fold: "emit_back_to_front cs b = fold emit (rev cs) b"
  by (induction cs arbitrary: b) simp_all

lemma user_convert_eq:
  "user_convert d args b = map_option (\<lambda>(t, args'). (args', fold emit t b)) (convert_text d args)"
  by (simp add: user_convert_def convert_text_def emit_back_to_front_fold dec_text_def hex_text_def split_beta)

lemma format_loop_eq: "format_loop fmt args b = fold emit (fmt_text fmt args) b"
proof (induction fmt args arbitrary: b rule: fmt_text.induct)
  case (1 args)
  then show ?case by simp
next
  case (2 c fmt args)
  show ?case
  proof (cases fmt)
    case Nil
    then show ?thesis by simp
  next
    case (Cons d rest)
    with 2 show ?thesis
      by (subst format_loop.simps, subst fmt_text.simps)
        (auto simp: user_convert_eq split: option.split simp del: format_loop.simps fmt_text.simps)
  qed
qed

lemma fold_emit:
  assumes "length t \<le> 2 ^ 64"
  shows "fold emit t (0, s) =
    (of_nat (length t), s\<lparr>mem := store_bytes (mem s) (print_buffer s) (map byte_of_char t)\<rparr>)"
  using assms
proof (induction t rule: rev_induct)
  case Nil
  then show ?case by simp
next
  case (snoc c t)
  then show ?case
    using store_bytes_snoc [of "map byte_of_char t" "byte_of_char c" "mem s" "print_buffer s"]
    by (simp add: emit_def put8_def add.commute)
qed

section \<open>strcmp against the lexicographic order\<close>

lemma is_cstr_Cons:
  assumes "is_cstr m a (x # xs)"
  shows "m a = byte_of_char x" "x \<noteq> CHR 0x00" "is_cstr m (a + 1) xs"
proof -
  show "m a = byte_of_char x" "x \<noteq> CHR 0x00" using assms by (force simp: is_cstr_def)+
  have "m (a + 1 + of_nat i) = byte_of_char (xs ! i)" if "i < length xs" for i
  proof -
    have "m (a + of_nat (Suc i)) = byte_of_char ((x # xs) ! Suc i)"
      using assms that unfolding is_cstr_def by (metis Suc_less_eq length_Cons)
    then show ?thesis by (simp add: add.assoc)
  qed
  moreover have "m (a + 1 + of_nat (length xs)) = 0"
    using assms by (simp add: is_cstr_def add.assoc)
  ultimately show "is_cstr m (a + 1) xs" using assms by (simp add: is_cstr_def)
qed

definition char_less :: "(char \<times> char) set" where
  "char_less = {(c, d). byte_of_char c < byte_of_char d}"

lemma strcmp_eq:
  assumes "is_cstr m a xs" and "is_cstr m b ys"
  shows "strcmp a b m = Some (if xs = ys then 0 else if (xs, ys) \<in> lexord char_less then - 1 else 1)"
  using assms
proof (induction xs arbitrary: a b ys)
  case Nil
  show ?case
  proof (cases ys)
    case Nil
    with \<open>is_cstr m a []\<close> \<open>is_cstr m b ys\<close> show ?thesis
      by (subst strcmp.simps) (simp add: is_cstr_def)
  next
    case (Cons y ys')
    with \<open>is_cstr m a []\<close> is_cstr_Cons [of m b y ys'] \<open>is_cstr m b ys\<close> show ?thesis
      by (subst strcmp.simps) (simp add: is_cstr_def)
  qed
next
  case (Cons x xs)
  note x = is_cstr_Cons [OF Cons.prems(1)]
  show ?case
  proof (cases ys)
    case Nil
    with x Cons.prems(2) show ?thesis
      by (subst strcmp.simps) (simp add: is_cstr_def)
  next
    case ys: (Cons y ys')
    note y = is_cstr_Cons [OF Cons.prems(2) [unfolded ys]]
    have "strcmp a b m = (if x \<noteq> y then if byte_of_char x < byte_of_char y then Some (- 1) else Some 1
        else strcmp (a + 1) (b + 1) m)"
      using x y by (subst strcmp.simps) simp
    then show ?thesis
      using Cons.IH [OF x(3) y(3)] by (simp add: ys char_less_def)
  qed
qed

section \<open>Properties\<close>

text \<open>
  C28: \<^verbatim>\<open>strcmp\<close> on two C strings returns, and its result is 0 for equal strings, -1 when the
  first is smaller in the lexicographic order of their bytes, 1 otherwise.
\<close>

theorem strcmp_lexicographic:
  assumes "is_cstr m a xs" and "is_cstr m b ys"
  shows "strcmp a b m = Some (if xs = ys then 0 else if (xs, ys) \<in> lexord char_less then - 1 else 1)"
  using strcmp_eq [OF assms] .

theorem strcmp_lexicographic_witness:
  "\<exists>m. is_cstr m 0x1000 ''ls'' \<and> is_cstr m 0x2000 ''pwd'' \<and> strcmp 0x1000 0x2000 m = Some (- 1)"
proof -
  let ?m = "store_bytes (store_bytes (\<lambda>_. 0) 0x1000 (map byte_of_char ''ls'' @ [0])) 0x2000 (map byte_of_char ''pwd'' @ [0])"
  have b: "is_cstr ?m 0x2000 ''pwd''" by (rule is_cstr_store) simp_all
  have a: "is_cstr ?m 0x1000 ''ls''"
  proof (rule is_cstr_cong)
    show "is_cstr (store_bytes (\<lambda>_. 0) 0x1000 (map byte_of_char ''ls'' @ [0])) 0x1000 ''ls''"
      by (rule is_cstr_store) simp_all
  next
    fix i assume "i \<le> length ''ls''"
    then have "i = 0 \<or> i = 1 \<or> i = 2" by auto
    then show "?m (0x1000 + of_nat i) = store_bytes (\<lambda>_. 0) 0x1000 (map byte_of_char ''ls'' @ [0]) (0x1000 + of_nat i)"
      by (elim disjE) (simp_all add: store_bytes_out)
  qed
  have "(''ls'', ''pwd'') \<in> lexord char_less" by (simp add: char_less_def byte_of_char_def)
  then show ?thesis using a b strcmp_lexicographic [OF a b] by (intro exI [of _ ?m]) simp
qed

text \<open>
  C36: \<^verbatim>\<open>malloc\<close> when the first item is the last or large enough. The block follows the header
  at the first item, the free space starts right after the block, and no byte outside the headers
  changes; but the size recorded for the remaining free space is \<^verbatim>\<open>0xDEADBEEF\<close> less the
  request, whatever the free space was before: the size is read from the word that already holds the
  magic number.
\<close>

theorem malloc_records_wrong_size:
  assumes "item_is_last (mem s) (first_item s) \<or> sz \<le> item_size (mem s) (first_item s)"
    and "unat (first_item s) + 32 + unat sz + 8 \<le> 2 ^ 64"
  shows "\<exists>s'. malloc sz s = Some (first_item s + 32, s') \<and> first_item s' = first_item s + 32 + sz \<and>
    item_size (mem s') (first_item s') = 0xDEADBEEF - (sz + 32) \<and>
    (\<forall>x. 16 \<le> unat (x - first_item s) \<and> 8 \<le> unat (x - first_item s') \<longrightarrow> mem s' x = mem s x)"
proof -
  let ?c = "first_item s"
  let ?f = "?c + 32 + sz"
  have f: "find_item ?c sz (mem s) = Some ?c"
    using assms(1) by (subst find_item.simps) (auto simp: not_less)
  have u: "unat ?f = unat ?c + 32 + unat sz" "unat (?c + 8) = unat ?c + 8"
    using assms(2) by (simp_all add: unat_word_ariths)
  have "disj (?c + 8) 8 ?c 8" by (rule disj_nat) (use assms(2) u in auto)
  then have "ld64 (st64 (st64 (mem s) ?c MAGIC_STRING) (?c + 8) sz) ?c = MAGIC_STRING"
    by (simp add: ld64_st64_disj ld64_st64)
  then have e: "malloc sz s = Some (?c + 32, (put64 ?f (0xDEADBEEF - (sz + 32))
      (put64 (?c + 8) sz (put64 ?c MAGIC_STRING s)))\<lparr>first_item := ?f\<rparr>)"
    using f by (simp add: malloc_def Let_def sizeof_AllocationItem_def item_size_def MAGIC_STRING_def)
  have "st64 (st64 (st64 (mem s) ?c MAGIC_STRING) (?c + 8) sz) ?f v x = mem s x"
    if "16 \<le> unat (x - ?c)" "8 \<le> unat (x - ?f)" for x v
  proof -
    have "8 \<le> unat (x - (?c + 8))"
      using that(1) unat_sub_if' [of "x - ?c" 8] by (simp add: diff_diff_eq2 diff_diff_eq)
    with that show ?thesis by (simp add: st64_out)
  qed
  then show ?thesis
    unfolding e by (simp add: item_size_def ld64_st64)
qed

definition sample_user :: "unit user" where
  "sample_user = ker.extend sample_ker \<lparr>heap_start = 0x11000, HEAP_START = 0, first_item = 0, print_buffer = 0x400000\<rparr>"

lemma malloc_init_last: "item_is_last (mem (malloc_init s)) (first_item (malloc_init s))"
proof -
  let ?h = "heap_start s"
  have "disj (?h + 10) 2 (?h + 8) 2" by (simp add: disj_def unsigned_minus_1_eq_mask mask_eq_exp_minus_1)
  then have "ld16 (st16 (st16 m (?h + 8) 1) (?h + 10) 1) (?h + 8) = 1" for m
    by (simp add: ld16_def st16_def load_store_disj load_store_same le_word_bytes_of take_bit_word_eq_self)
  then show ?thesis
    by (simp add: malloc_init_def Let_def item_is_last_def put16_def put64_def sbrk_def get_heap_start_def)
qed

theorem malloc_records_wrong_size_witness:
  "\<exists>s'. malloc 200 (malloc_init sample_user) = Some (0x11020, s') \<and>
     item_size (mem (malloc_init sample_user)) 0x11000 = 4096 \<and> item_size (mem s') (first_item s') = 0xDEADBE07"
proof -
  have f: "first_item (malloc_init sample_user) = 0x11000"
    by (simp add: malloc_init_def Let_def put16_def put64_def sbrk_def get_heap_start_def sample_user_def ker.defs)
  have sz: "item_size (mem (malloc_init s)) (heap_start s) = 4096" for s :: "unit user"
  proof -
    let ?h = "heap_start s"
    have "disj (?h + 16) 8 ?h 8" "disj (?h + 8) 2 ?h 8" "disj (?h + 10) 2 ?h 8"
      by (simp_all add: disj_def)
    then show ?thesis
      by (simp add: malloc_init_def Let_def item_size_def put16_def put64_def sbrk_def get_heap_start_def
        st16_def st64_def ld64_def load_store_disj load_store_same le_word_bytes_of take_bit_word_eq_self PAGE_SIZE_def)
  qed
  have "item_size (mem (malloc_init sample_user)) 0x11000 = 4096"
    using sz [of sample_user] by (simp add: sample_user_def ker.defs)
  moreover have "unat (first_item (malloc_init sample_user)) + 32 + unat (200 :: u64) + 8 \<le> 2 ^ 64"
    by (simp add: f)
  ultimately show ?thesis
    using malloc_records_wrong_size [OF disjI1 [OF malloc_init_last [of sample_user]], of 200] f by auto
qed

end
