(* ===== verification/Shell.thy ===== *)
theory Shell
  imports Tlibc
begin

text \<open>
  The shell, \<^verbatim>\<open>userspace/shell/shell.c\<close> and \<^verbatim>\<open>builtins.c\<close>. \<open>main\<close> is the state in
  which the program enters its final endless loop.
\<close>

definition pwd where
  "pwd env s = do {
     (buffer, s) \<leftarrow> malloc 40 s;
     (_, s) \<leftarrow> getcwd env buffer 40 s;
     (_, s) \<leftarrow> user_printf env ''%s'' [VStr (cstr (mem s) buffer)] s;
     Some s
   }"

definition ls where
  "ls env s = do {
     (fd, s) \<leftarrow> user_open env (lit_home env) 0 0 s;
     (_, s) \<leftarrow> user_printf env (''got file descriptor: %i'' @ [CHR 0x0A]) [VInt (ucast fd)] s;
     Some s
   }"

definition main where
  "main env s = do {
     (buffer, s) \<leftarrow> malloc 20 s;
     (_, s) \<leftarrow> user_printf env (''test from userspace'' @ [CHR 0x0A]) [] s;
     (_, s) \<leftarrow> user_printf env (''second test, lets see if this works'' @ [CHR 0x0A]) [] s;
     (_, s) \<leftarrow> user_printf env (''and a third time'' @ [CHR 0x0A]) [] s;
     (_, s) \<leftarrow> user_printf env (''calling ls'' @ [CHR 0x0A]) [] s;
     s \<leftarrow> ls env s;
     (_, s) \<leftarrow> user_printf env (''after ls'' @ [CHR 0x0A]) [] s;
     (_, s) \<leftarrow> user_read env 0 buffer 20 s;
     (_, s) \<leftarrow> user_printf env (''got input in userspace: %s'' @ [CHR 0x0A]) [VStr (cstr (mem s) buffer)] s;
     r \<leftarrow> strcmp buffer (lit_pwd env) (mem s);
     s \<leftarrow> (if r = 0 then pwd env s else Some s);
     r \<leftarrow> strcmp buffer (lit_ls env) (mem s);
     (if r = 0 then ls env s else Some s)
   }"

end
