(* ===== verification/Sample_Volume.thy ===== *)
theory Sample_Volume
  imports Storage
begin

text \<open>
  A concrete machine: a disk with a small EXT2 volume, a kernel image with two path literals, and the
  state of the kernel after the memory managers and the storage have come up on it. The volume has the
  two files that \<^verbatim>\<open>os_start\<close> prints.
\<close>

section \<open>The volume\<close>

definition le16 :: "nat \<Rightarrow> u8 list" where
  "le16 n = [of_nat n, of_nat (n div 256)]"

definition le32 :: "nat \<Rightarrow> u8 list" where
  "le32 n = le16 n @ le16 (n div 65536)"

definition inode_bytes :: "nat \<Rightarrow> nat \<Rightarrow> nat \<Rightarrow> u8 list" where
  "inode_bytes mode n block = le16 mode @ [0, 0] @ le32 n @ replicate 32 0 @ le32 block"

definition entry_bytes :: "nat \<Rightarrow> nat \<Rightarrow> string \<Rightarrow> u8 list" where
  "entry_bytes ino len name = le32 ino @ le16 len @ [of_nat (length name), 0] @ map byte_of_char name"

text \<open>Blocks of 2048 bytes, one group of 64 blocks, 16 inodes of 256 bytes from block 2 on.\<close>

definition volume :: "(nat \<times> u8 list) list" where
  "volume =
    [(1028, le32 64), (1048, le32 1), (1056, le32 64), (1064, le32 16), (1112, le16 256), (2056, le32 2),
     (4352, inode_bytes 0x4000 2048 5), (4608, inode_bytes 0x8000 5 6), (4864, inode_bytes 0x4000 2048 7),
     (5120, inode_bytes 0x4000 2048 8), (5376, inode_bytes 0x4000 2048 9), (5632, inode_bytes 0x8000 6 10),
     (10240, entry_bytes 3 20 ''testfile.txt'' @ entry_bytes 4 2028 ''folder1''),
     (12288, map byte_of_char ''hello''),
     (14336, entry_bytes 5 2048 ''folder2''), (16384, entry_bytes 6 2048 ''folder3''),
     (18432, entry_bytes 7 2048 ''file.txt''), (20480, map byte_of_char ''tetras'')]"

definition disk_byte :: "nat \<Rightarrow> u8" where
  "disk_byte n = (case find (\<lambda>(p, bs). p + 2 ^ 20 \<le> n \<and> n < p + 2 ^ 20 + length bs) volume of
     None \<Rightarrow> 0 | Some (p, bs) \<Rightarrow> bs ! (n - (p + 2 ^ 20)))"

abbreviation PV :: mem where
  "PV \<equiv> partition disk_byte"

lemma volume_sorted: "sorted_wrt (\<lambda>(p, bs) (p', _). p + length bs \<le> p') volume"
  by (simp add: volume_def le16_def le32_def inode_bytes_def entry_bytes_def)

lemma disk_byte_chunk:
  assumes "(p, bs) \<in> set volume" and "i < length bs"
  shows "disk_byte (p + 2 ^ 20 + i) = bs ! i"
proof -
  let ?Q = "\<lambda>(p', bs'). p' + 2 ^ 20 \<le> p + 2 ^ 20 + i \<and> p + 2 ^ 20 + i < p' + 2 ^ 20 + length bs'"
  obtain k where k: "k < length volume" "volume ! k = (p, bs)" using assms(1) by (metis in_set_conv_nth)
  have "\<not> ?Q (volume ! j)" if "j < k" for j
    using sorted_wrt_nth_less [OF volume_sorted that k(1)] k(2) by (cases "volume ! j") simp
  then have "\<forall>j < k. \<not> ?Q (volume ! j)" by blast
  then have "find ?Q volume = Some (p, bs)"
    unfolding find_Some_iff using k assms(2) by (intro exI [of _ k]) simp
  then show ?thesis by (simp add: disk_byte_def)
qed

lemma load_volume:
  assumes "(p, bs) \<in> set volume" and "i + n \<le> length bs" and "unat a = p + i"
  shows "load_bytes PV a n = take n (drop i bs)"
proof (rule nth_equalityI)
  show "length (load_bytes PV a n) = length (take n (drop i bs))" using assms(2) by simp
  fix j assume "j < length (load_bytes PV a n)"
  then have j: "j < n" by simp
  have "\<forall>(p, bs) \<in> set volume. p + length bs < 30000"
    by (simp add: volume_def le16_def le32_def inode_bytes_def entry_bytes_def)
  then have "p + length bs < 30000" using assms(1) by blast
  then have "unat (a + of_nat j) = p + (i + j)" using assms(2,3) j by (simp add: unat_word_ariths unat_of_nat)
  then have "PV (a + of_nat j) = disk_byte (p + 2 ^ 20 + (i + j))" by (simp add: partition_def ac_simps)
  also have "\<dots> = bs ! (i + j)" using assms(2) j by (intro disk_byte_chunk [OF assms(1)]) simp
  finally show "load_bytes PV a n ! j = take n (drop i bs) ! j" using j assms(2) by (simp add: nth_append)
qed

lemmas volume_bytes = volume_def le16_def le32_def inode_bytes_def entry_bytes_def

lemma volume_superblock:
  "s_blocks_count PV 1024 = 64" "s_log_block_size PV 1024 = 1" "s_blocks_per_group PV 1024 = 64"
  "s_inodes_per_group PV 1024 = 16" "s_inode_size PV 1024 = 256" "bg_inode_table PV 2048 = 2"
  using load_volume [of 1028 "le32 64" 0 4 1028] load_volume [of 1048 "le32 1" 0 4 1048] load_volume [of 1056 "le32 64" 0 4 1056]
    load_volume [of 1064 "le32 16" 0 4 1064] load_volume [of 1112 "le16 256" 0 2 1112] load_volume [of 2056 "le32 2" 0 4 2056]
  by (simp_all add: s_blocks_count_def s_log_block_size_def s_blocks_per_group_def s_inodes_per_group_def s_inode_size_def
      bg_inode_table_def ld32_def ld16_def volume_bytes)

lemma volume_geometry: "disk_block_size PV = 2048" "disk_groups PV = 1" "geometry_ok PV"
  by (simp_all add: geometry_ok_def disk_block_size_def disk_groups_def volume_superblock)

lemma volume_inodes:
  "inode_group PV 2 = 0" "inode_group PV 3 = 0" "inode_group PV 4 = 0" "inode_group PV 5 = 0" "inode_group PV 6 = 0" "inode_group PV 7 = 0"
  "inode_pos PV 2 = 4352" "inode_pos PV 3 = 4608" "inode_pos PV 4 = 4864" "inode_pos PV 5 = 5120" "inode_pos PV 6 = 5376" "inode_pos PV 7 = 5632"
  by (simp_all add: inode_pos_def inode_group_def group_pos_def volume_geometry volume_superblock)

text \<open>What the inodes and the directory entries of the volume hold.\<close>

lemma volume_inode:
  assumes "(p, inode_bytes mode n block) \<in> set volume" and "unat a = p" and "a + 4 = b" "a + 40 = c"
    and "unat b = p + 4" "unat c = p + 40"
  shows "i_mode PV a = le_word (le16 mode)" "i_size PV a = le_word (le32 n)" "i_block0 PV a = le_word (le32 block)"
proof -
  have l: "length (le16 x) = 2" "length (le32 x) = 4" for x by (simp_all add: le16_def le32_def)
  show "i_mode PV a = le_word (le16 mode)" "i_size PV a = le_word (le32 n)" "i_block0 PV a = le_word (le32 block)"
    using load_volume [OF assms(1), of 0 2 a] load_volume [OF assms(1), of 4 4 b] load_volume [OF assms(1), of 40 4 c] assms
    by (simp_all add: i_mode_def i_size_def i_block0_def ld16_def ld32_def inode_bytes_def l)
qed

lemma volume_files:
  "i_mode PV 4352 = 0x4000" "i_block0 PV 4352 = 5" "i_size PV 4608 = 5" "i_block0 PV 4608 = 6" "i_mode PV 4864 = 0x4000" "i_block0 PV 4864 = 7"
  "i_mode PV 5120 = 0x4000" "i_block0 PV 5120 = 8" "i_mode PV 5376 = 0x4000" "i_block0 PV 5376 = 9" "i_size PV 5632 = 6" "i_block0 PV 5632 = 10"
  "i_size PV 4352 = 2048"
  using volume_inode [of 4352 "0x4000" 2048 5 4352 4356 4392] volume_inode [of 4608 "0x8000" 5 6 4608 4612 4648]
    volume_inode [of 4864 "0x4000" 2048 7 4864 4868 4904] volume_inode [of 5120 "0x4000" 2048 8 5120 5124 5160]
    volume_inode [of 5376 "0x4000" 2048 9 5376 5380 5416] volume_inode [of 5632 "0x8000" 6 10 5632 5636 5672]
  by (simp_all add: volume_def le16_def le32_def)

lemma volume_entry:
  assumes "(p, bs) \<in> set volume" and "drop i bs = entry_bytes ino len name @ post" and "unat e = p + i" and "length name < 256"
    and "p + i < 30000"
  shows "entry_inode PV e = le_word (le32 ino)" "rec_len PV e = le_word (le16 len)" "name_len PV e = of_nat (length name)"
    "name_of PV e = name"
proof -
  have l: "length (le16 x) = 2" "length (le32 x) = 4" for x by (simp_all add: le16_def le32_def)
  have d: "drop (i + j) bs = drop j (entry_bytes ino len name @ post)" for j using assms(2) by (metis add.commute drop_drop)
  have lb: "i + 8 + length name \<le> length bs"
    using arg_cong [OF assms(2), of length] by (cases "i \<le> length bs") (simp_all add: entry_bytes_def l)
  have u: "unat (e + 4) = p + (i + 4)" "unat (e + 6) = p + (i + 6)" "unat (e + 8) = p + (i + 8)"
    using assms(3,5) by (simp_all add: unat_word_ariths)
  note ld = load_volume [OF assms(1)]
  show "entry_inode PV e = le_word (le32 ino)"
    using ld [of i 4 e] assms(3) lb d [of 0] by (simp add: entry_inode_def ld32_def entry_bytes_def l)
  show "rec_len PV e = le_word (le16 len)"
    using ld [OF _ u(1), of 2] lb d [of 4] by (simp add: rec_len_def ld16_def entry_bytes_def l)
  have "load_bytes PV (e + 6) 1 = [of_nat (length name)]"
    using ld [OF _ u(2), of 1] lb d [of 6] by (simp add: entry_bytes_def l)
  then show n: "name_len PV e = of_nat (length name)" by (simp add: name_len_def load_bytes_def)
  have "load_bytes PV (e + 8) (length name) = map byte_of_char name"
    using ld [OF _ u(3), of "length name"] lb d [of 8] by (simp add: entry_bytes_def l)
  then show "name_of PV e = name"
    using assms(4) by (simp add: name_of_def entry_name_def n unat_of_nat comp_def)
qed

lemma volume_root_entries:
  "entry_inode PV 10240 = 3" "rec_len PV 10240 = 20" "name_len PV 10240 = 12" "name_of PV 10240 = ''testfile.txt''"
  "entry_inode PV 10260 = 4" "rec_len PV 10260 = 2028" "name_len PV 10260 = 7" "name_of PV 10260 = ''folder1''"
proof -
  have c: "(10240, entry_bytes 3 20 ''testfile.txt'' @ entry_bytes 4 2028 ''folder1'') \<in> set volume" by (simp add: volume_def)
  have d: "drop 20 (entry_bytes 3 20 ''testfile.txt'' @ entry_bytes 4 2028 ''folder1'') = entry_bytes 4 2028 ''folder1'' @ []"
    by (simp add: entry_bytes_def le16_def le32_def)
  show "entry_inode PV 10240 = 3" "rec_len PV 10240 = 20" "name_len PV 10240 = 12" "name_of PV 10240 = ''testfile.txt''"
    using volume_entry [OF c drop_0, of 10240] by (simp_all add: le16_def le32_def)
  show "entry_inode PV 10260 = 4" "rec_len PV 10260 = 2028" "name_len PV 10260 = 7" "name_of PV 10260 = ''folder1''"
    using volume_entry [OF c d, of 10260] by (simp_all add: le16_def le32_def)
qed

lemma volume_folder_entries:
  "entry_inode PV 14336 = 5" "rec_len PV 14336 = 2048" "name_len PV 14336 = 7" "name_of PV 14336 = ''folder2''"
  "entry_inode PV 16384 = 6" "rec_len PV 16384 = 2048" "name_len PV 16384 = 7" "name_of PV 16384 = ''folder3''"
  "entry_inode PV 18432 = 7" "rec_len PV 18432 = 2048" "name_len PV 18432 = 8" "name_of PV 18432 = ''file.txt''"
  using volume_entry [of 14336 "entry_bytes 5 2048 ''folder2''" 0 5 2048 "''folder2''" "[]" 14336]
    volume_entry [of 16384 "entry_bytes 6 2048 ''folder3''" 0 6 2048 "''folder3''" "[]" 16384]
    volume_entry [of 18432 "entry_bytes 7 2048 ''file.txt''" 0 7 2048 "''file.txt''" "[]" 18432]
  by (simp_all add: volume_def le16_def le32_def)

text \<open>Directories of one entry, and the root with its two.\<close>

lemma single_entry:
  assumes "rec_len PV base = 2048" and "name_len PV base < 200"
  shows "block_entries PV 2048 base = [0]" "dir_ok PV 2048 base"
    "dir_find PV 2048 base xs = (if name_of PV base = xs then Some 0 else None)"
proof -
  have "entry_off PV base 0 = 0" "entry_off PV base (Suc 0) = 2048" using assms(1) by (simp_all add: entry_off_def)
  then show b: "block_entries PV 2048 base = [0]" by (simp add: block_entries_def upt_rec)
  show "dir_ok PV 2048 base" using assms(2) by (simp add: dir_ok_def b entry_off_def word_less_nat_alt)
  show "dir_find PV 2048 base xs = (if name_of PV base = xs then Some 0 else None)" by (simp add: dir_find_def b)
qed

lemma root_entries:
  "block_entries PV 2048 10240 = [0, 1]" "dir_ok PV 2048 10240"
  "dir_find PV 2048 10240 ''testfile.txt'' = Some 0" "dir_find PV 2048 10240 ''folder1'' = Some 1" "dir_find PV 2048 10240 ''nofile'' = None"
proof -
  have e: "entry_at PV 10240 0 = 10240" "entry_at PV 10240 (Suc 0) = 10260" "entry_at PV 10240 (Suc (Suc 0)) = 12288"
    by (simp_all add: volume_root_entries)
  have "entry_off PV 10240 0 = 0" "entry_off PV 10240 (Suc 0) = 20" "entry_off PV 10240 (Suc (Suc 0)) = 2048"
    unfolding entry_off_def e by simp_all
  then show b: "block_entries PV 2048 10240 = [0, 1]" by (simp add: block_entries_def upt_rec)
  show "dir_ok PV 2048 10240" using e by (simp add: dir_ok_def b entry_off_def volume_root_entries)
  show "dir_find PV 2048 10240 ''testfile.txt'' = Some 0" "dir_find PV 2048 10240 ''folder1'' = Some 1" "dir_find PV 2048 10240 ''nofile'' = None"
    using e by (simp_all add: dir_find_def b volume_root_entries)
qed

lemma volume_lookup:
  "file_pos PV 4352 = 10240" "file_pos PV 4608 = 12288" "file_pos PV 4864 = 14336" "file_pos PV 5120 = 16384" "file_pos PV 5376 = 18432" "file_pos PV 5632 = 20480"
  "is_directory PV 4352" "is_directory PV 4864" "is_directory PV 5120" "is_directory PV 5376"
  by (simp_all add: file_pos_def is_directory_def volume_geometry volume_files)

lemma volume_dir_lookup:
  "dir_lookup PV 4352 ''testfile.txt'' = Some 4608" "dir_lookup PV 4352 ''folder1'' = Some 4864" "dir_lookup PV 4352 ''nofile'' = None"
  "dir_lookup PV 4864 ''folder2'' = Some 5120" "dir_lookup PV 5120 ''folder3'' = Some 5376" "dir_lookup PV 5376 ''file.txt'' = Some 5632"
  by (simp_all add: dir_lookup_def volume_lookup volume_geometry root_entries single_entry volume_root_entries volume_folder_entries
      volume_inodes)

lemma volume_lookup_ready:
  "lookup_ready PV 4352 ''testfile.txt''" "lookup_ready PV 4352 ''folder1''" "lookup_ready PV 4352 ''nofile''"
  "lookup_ready PV 4864 ''folder2''" "lookup_ready PV 5120 ''folder3''" "lookup_ready PV 5376 ''file.txt''"
  by (simp_all add: lookup_ready_def volume_lookup volume_geometry root_entries single_entry volume_root_entries volume_folder_entries
      volume_inodes)

section \<open>The paths\<close>

lemma volume_root: "root_pos PV = 4352" by (simp add: root_pos_def volume_inodes)

lemma volume_paths:
  "file_inode_of PV [''testfile.txt''] = Some 4608" "file_inode_of PV [''folder1'', ''folder2'', ''folder3'', ''file.txt''] = Some 5632"
  "file_inode_of PV [''nofile''] = None" "reached PV [''nofile''] = 4352"
  by (simp_all add: file_inode_of_def reached_def volume_root volume_dir_lookup)

lemma volume_path_ready:
  "volume_ready PV [''testfile.txt'']" "volume_ready PV [''folder1'', ''folder2'', ''folder3'', ''file.txt'']" "volume_ready PV [''nofile'']"
  by (simp_all add: volume_ready_def volume_root volume_superblock volume_geometry volume_lookup_ready volume_dir_lookup)

lemma volume_contents:
  "file_size PV 4608 = 5" "file_size PV 5632 = 6" "file_size PV 4352 = 2048"
  "file_bytes PV 4608 5 = map byte_of_char ''hello''" "file_bytes PV 5632 5 = map byte_of_char ''tetra''"
  "file_bytes PV 4352 4 = [3, 0, 0, 0]"
  using load_volume [of 12288 "map byte_of_char ''hello''" 0 5 12288] load_volume [of 20480 "map byte_of_char ''tetras''" 0 5 20480]
    load_volume [of 10240 "entry_bytes 3 20 ''testfile.txt'' @ entry_bytes 4 2028 ''folder1''" 0 4 10240]
  by (simp_all add: file_size_def file_bytes_def volume_files volume_lookup volume_bytes)

text \<open>The literals of the kernel image.\<close>

definition testfile_lit :: u64 where "testfile_lit = 0xFFFF800080008000"

definition folder_file_lit :: u64 where "folder_file_lit = 0xFFFF800080008040"

definition nofile_lit :: u64 where "nofile_lit = 0xFFFF800080008080"

definition put_literal :: "u64 \<Rightarrow> string list \<Rightarrow> mem \<Rightarrow> mem" where
  "put_literal p cs m = store_bytes m p (map byte_of_char (path_text cs) @ [0])"

definition literal_mem :: mem where
  "literal_mem = put_literal nofile_lit [''nofile'']
     (put_literal folder_file_lit [''folder1'', ''folder2'', ''folder3'', ''file.txt'']
       (put_literal testfile_lit [''testfile.txt''] (\<lambda>_. 0)))"

lemmas literal_defs = testfile_lit_def folder_file_lit_def nofile_lit_def

lemma put_literal_above:
  assumes "is_cstr m p xs" and "unat p + length xs < unat q" and "unat q + length (path_text cs) < 2 ^ 64"
  shows "is_cstr (put_literal q cs m) p xs"
  unfolding put_literal_def
proof (rule is_cstr_cong [OF assms(1)], rule store_bytes_out, rule ccontr)
  fix i assume i: "i \<le> length xs"
  let ?n = "length (map byte_of_char (path_text cs) @ [0 :: u8])"
  assume "\<not> ?n \<le> unat (p + of_nat i - q)"
  then have "unat (p + of_nat i) = unat q + unat (p + of_nat i - q)"
    using assms(3) by (intro unat_in_range [of _ _ ?n]) simp_all
  moreover have "unat (p + of_nat i) = unat p + i"
    using i assms(2) unat_bound [of q] by (simp add: unat_word_ariths unat_of_nat)
  ultimately show False using i assms(2) by linarith
qed

lemma literals:
  "is_cstr literal_mem testfile_lit (path_text [''testfile.txt''])"
  "is_cstr literal_mem folder_file_lit (path_text [''folder1'', ''folder2'', ''folder3'', ''file.txt''])"
  "is_cstr literal_mem nofile_lit (path_text [''nofile''])"
proof -
  have put: "is_cstr (put_literal p cs m) p (path_text cs)" if "length (path_text cs) < 100" "CHR 0x00 \<notin> set (path_text cs)" for p cs m
    unfolding put_literal_def using that by (intro is_cstr_store) simp_all
  show "is_cstr literal_mem testfile_lit (path_text [''testfile.txt''])"
    unfolding literal_mem_def by (intro put_literal_above put) (simp_all add: path_text_def literal_defs)
  show "is_cstr literal_mem folder_file_lit (path_text [''folder1'', ''folder2'', ''folder3'', ''file.txt''])"
    unfolding literal_mem_def by (intro put_literal_above put) (simp_all add: path_text_def literal_defs)
  show "is_cstr literal_mem nofile_lit (path_text [''nofile''])"
    unfolding literal_mem_def by (intro put) (simp_all add: path_text_def)
qed

lemma literal_mem_zero:
  assumes "0xFFFF800080009000 \<le> unat x"
  shows "literal_mem x = 0"
proof -
  have "put_literal p cs m x = m x" if "unat p + length (path_text cs) < 0xFFFF800080009000" for p cs m
    unfolding put_literal_def
  proof (rule store_bytes_out, rule ccontr)
    let ?n = "length (map byte_of_char (path_text cs) @ [0 :: u8])"
    assume n: "\<not> ?n \<le> unat (x - p)"
    then have "unat x = unat p + unat (x - p)" using that by (intro unat_in_range [of _ _ ?n]) simp_all
    with n that assms show False by simp
  qed
  then show ?thesis by (simp add: literal_mem_def literal_defs path_text_def)
qed

section \<open>The machine\<close>

lemma disk_at_volume: "disk_at (image_disk disk_byte) disk_byte (\<lambda>_. True) 0 d"
proof -
  have "find (offers (image_disk disk_byte) 2 2 d) [0..<8] = Some 0"
    by (simp add: upt_rec offers_def image_disk_def slot_def layout_defs)
  then show ?thesis using accepting_image_disk serves_image_disk by (auto simp: disk_at_def)
qed

lemma volume_costs: "storage_cost PV = 9172" "file_cost PV cs = 1352 + (\<Sum>c \<leftarrow> cs. 6289 + length c)"
proof -
  have "lookup_cost PV = 6272" by (simp add: lookup_cost_def read_cost_def volume_geometry)
  then show "file_cost PV cs = 1352 + (\<Sum>c \<leftarrow> cs. 6289 + length c)"
    by (simp add: file_cost_def path_cost_def read_cost_def add.assoc)
  show "storage_cost PV = 9172" by (simp add: storage_cost_def mount_cost_def read_cost_def volume_geometry)
qed

text \<open>Kernel states before the memory managers run: the image with its literals, and zeros above.\<close>

lemma literal_boot:
  fixes s :: "'a vheap_scheme"
  assumes "mem s = literal_mem" and "managed_frames_address_start s = 0xFFFF800080013000" and "first_frame_address s = 0x8001B000"
  shows "phys_layout s" "frames_zero s" "used s = {}" "kernel_image (0xFFFF800080013000, literal_mem) s"
proof -
  show lay: "phys_layout s" using assms(2,3) by (simp add: phys_layout_def phys_base_def VIRTUAL_OFFSET_def NFRAMES_def)
  have z: "mem s x = 0" if "in_pool s x" for x
  proof -
    have "unat x = unat (managed_frames_address_start s) + unat (x - managed_frames_address_start s)"
      using that by (intro unat_in_range [OF _ pool_top [OF lay]]) (simp add: in_pool_def)
    then show ?thesis using literal_mem_zero [of x] assms(1,2) by simp
  qed
  then show "used s = {}" using flag_in_pool [of _ s] by (auto simp: used_def)
  show "frames_zero s" using z page_in_pool [OF lay] by (auto simp: frames_zero_def)
  show "kernel_image (0xFFFF800080013000, literal_mem) s" using assms by (simp add: kernel_image_def)
qed

definition sample_fs :: "u32 fsst" where
  "sample_fs = vheap.extend (sample_heap\<lparr>mem := literal_mem\<rparr>)
     \<lparr>dev = 0, block_device = 0, console_device = 0, ext2_instance = 0\<rparr>"

abbreviation RV :: image where
  "RV \<equiv> (0xFFFF800080013000, literal_mem)"

lemma volume_literals:
  "literal_path RV testfile_lit [''testfile.txt'']" "literal_path RV folder_file_lit [''folder1'', ''folder2'', ''folder3'', ''file.txt'']"
  "literal_path RV nofile_lit [''nofile'']"
  using literals by (simp_all add: literal_path_def, simp_all add: literal_defs VIRTUAL_OFFSET_def path_text_def component_ok_def)

lemma sample_fs_boot:
  obtains r t :: "u32 fsst" where "paging_init sample_fs = Some r" "virtual_allocator_init r = Some t"
    "linear_heap t" "kernel_image RV t" "free_list t = VIRTUAL_HEAP_START"
proof -
  have f: "mem sample_fs = literal_mem" "managed_frames_address_start sample_fs = 0xFFFF800080013000" "first_frame_address sample_fs = 0x8001B000"
    by (simp_all add: sample_fs_def vheap.defs sample_heap_def paging.defs sample_paging_def)
  note b = literal_boot [OF f]
  obtain r t :: "u32 fsst" where t: "paging_init sample_fs = Some r" "virtual_allocator_init r = Some t" "free_list t = VIRTUAL_HEAP_START"
    by (rule boot_heap [OF b(1-3)])
  show ?thesis by (rule that [OF t(1,2) boot_linear [OF b(1-3) t(1,2)] boot_image(1) [OF b(1-3) t(1,2) b(4)] t(3)])
qed


text \<open>The mounted volume, with 64 bytes of heap for a caller.\<close>

lemma sample_mounted:
  obtains s :: "u32 fsst" and device q hi data where
    "mounted RV (image_disk disk_byte) disk_byte (\<lambda>_. True) device q (ext2_instance s) hi s"
    "span hi (unat (free_list s)) data 64" "unat (free_list s) = unat VIRTUAL_HEAP_START + 9252"
    "file_path hi testfile_lit [''testfile.txt''] s" "file_path hi nofile_lit [''nofile''] s"
proof -
  let ?V = "image_disk disk_byte" and ?L = "\<lambda>_ :: u32. True"
  obtain r t :: "u32 fsst" where t: "linear_heap t" "kernel_image RV t" "free_list t = VIRTUAL_HEAP_START"
    by (rule sample_fs_boot)
  have "unat (free_list t) + storage_cost PV + 48 \<le> heap_limit" by (simp add: t(3) volume_costs heap_limit_def)
  then obtain device q and u :: "u32 fsst" where u: "mounted RV ?V disk_byte ?L device q (ext2_instance u) (unat (free_list u)) u"
    "unat (free_list u) = unat (free_list t) + storage_cost PV"
    using storage_start_ok [OF t(1,2) refl disk_at_volume volume_geometry(3), of thesis] by (auto simp: volume_superblock)
  let ?hi = "unat (free_list u)"
  have "?hi + unat (64 :: u64) + 32 \<le> heap_limit" by (simp add: u(2) t(3) volume_costs heap_limit_def)
  then obtain data s where "kalloc 64 u = Some (data, s)" and s: "mounted RV ?V disk_byte ?L device q (ext2_instance u) ?hi s"
    "unat data = ?hi + 16" "unat (free_list s) = ?hi + 16 + unat (64 :: u64)" "heap_only u s"
    by (rule mounted_kalloc [OF u(1)])
  have e: "ext2_instance s = ext2_instance u" using s(4) by (cases u, cases s) (simp add: heap_only_def)
  show ?thesis
  proof (rule that)
    show "mounted RV ?V disk_byte ?L device q (ext2_instance s) ?hi s" unfolding e by (rule s(1))
    show "span ?hi (unat (free_list s)) data 64" using s(2,3) by (simp add: span_def)
    show "unat (free_list s) = unat VIRTUAL_HEAP_START + 9252" using s(3) u(2) t(3) by (simp add: volume_costs)
    show "file_path ?hi testfile_lit [''testfile.txt''] s"
      by (rule literal_file_path [OF s(1) volume_literals(1)])
    show "file_path ?hi nofile_lit [''nofile''] s"
      by (rule literal_file_path [OF s(1) volume_literals(3)])
  qed
qed

theorem mounted_invariant_witness:
  "\<exists>(s :: u32 fsst) s' device q hi. (fs_step (image_disk disk_byte) PV hi)\<^sup>*\<^sup>* s s' \<and> out s' = out s @ ''ok'' \<and>
     mounted RV (image_disk disk_byte) disk_byte (\<lambda>_. True) device q (ext2_instance s') hi s' \<and> file_path hi testfile_lit [''testfile.txt''] s'"
proof -
  let ?V = "image_disk disk_byte"
  obtain s :: "u32 fsst" and device q hi data where s:
    "mounted RV ?V disk_byte (\<lambda>_. True) device q (ext2_instance s) hi s" "span hi (unat (free_list s)) data 64"
    by (rule sample_mounted)
  let ?t = "s\<lparr>mem := store_bytes (mem s) data [1, 2, 3]\<rparr>"
  have "fs_step ?V PV hi s ?t" using s(2) by (intro fs_step.Store) (simp add: span_def)
  moreover have "fs_step ?V PV hi ?t (printf ''ok'' [] ?t)" by (rule fs_step.Print)
  ultimately have r: "(fs_step ?V PV hi)\<^sup>*\<^sup>* s (printf ''ok'' [] ?t)" by simp
  show ?thesis
    using r mounted_invariant [OF r s(1)] volume_literals(1)
    by (intro exI [of _ s] exI [of _ "printf ''ok'' [] ?t"] exI [of _ device] exI [of _ q] exI [of _ hi]) (simp add: printf_def vprintf_eq)
qed

theorem get_file_size_correct_witness:
  "\<exists>(s :: u32 fsst) s'. get_file_size (image_disk disk_byte) testfile_lit s = Some (5, s')"
proof -
  obtain s :: "u32 fsst" and device q hi data where s:
    "mounted RV (image_disk disk_byte) disk_byte (\<lambda>_. True) device q (ext2_instance s) hi s"
    "unat (free_list s) = unat VIRTUAL_HEAP_START + 9252" "file_path hi testfile_lit [''testfile.txt''] s"
    by (rule sample_mounted)
  have "unat (free_list s) + file_cost PV [''testfile.txt''] + 16 \<le> heap_limit" by (simp add: s(2) volume_costs heap_limit_def)
  from get_file_size_correct [OF s(1,3) volume_path_ready(1) this volume_paths(1)] show ?thesis by (auto simp: volume_contents)
qed

theorem read_file_correct_witness:
  "\<exists>(s :: u32 fsst) data s'. read_file (image_disk disk_byte) testfile_lit 5 data s = Some (0, s') \<and>
     load_bytes (mem s') data 5 = map byte_of_char ''hello''"
proof -
  obtain s :: "u32 fsst" and device q hi data where s:
    "mounted RV (image_disk disk_byte) disk_byte (\<lambda>_. True) device q (ext2_instance s) hi s" "span hi (unat (free_list s)) data 64"
    "unat (free_list s) = unat VIRTUAL_HEAP_START + 9252" "file_path hi testfile_lit [''testfile.txt''] s"
    by (rule sample_mounted)
  have h: "unat (free_list s) + file_cost PV [''testfile.txt''] + read_cost 5 + 16 \<le> heap_limit"
    "span hi (unat (free_list s)) data (unat (5 :: u64))"
    using s(2) by (simp_all add: s(3) volume_costs heap_limit_def read_cost_def span_def)
  from read_file_correct [OF s(1,4) volume_path_ready(1) h volume_paths(1)] show ?thesis by (auto simp: volume_contents)
qed

theorem missing_file_not_reported_witness:
  "\<exists>(s :: u32 fsst) data s' s''. get_file_size (image_disk disk_byte) nofile_lit s = Some (2048, s') \<and>
     read_file (image_disk disk_byte) nofile_lit 4 data s = Some (0, s'') \<and> load_bytes (mem s'') data 4 = [3, 0, 0, 0]"
proof -
  obtain s :: "u32 fsst" and device q hi data where s:
    "mounted RV (image_disk disk_byte) disk_byte (\<lambda>_. True) device q (ext2_instance s) hi s" "span hi (unat (free_list s)) data 64"
    "unat (free_list s) = unat VIRTUAL_HEAP_START + 9252" "file_path hi nofile_lit [''nofile''] s"
    by (rule sample_mounted)
  have h: "unat (free_list s) + file_cost PV [''nofile''] + read_cost 4 + 16 \<le> heap_limit"
    "span hi (unat (free_list s)) data (unat (4 :: u64))"
    using s(2) by (simp_all add: s(3) volume_costs heap_limit_def read_cost_def span_def)
  from missing_file_not_reported [OF s(1,4) volume_path_ready(3) h volume_paths(3)] show ?thesis
    unfolding volume_paths volume_contents by (auto simp: volume_contents)
qed

end
