(* ===== verification/Context.thy ===== *)
theory Context
  imports Prelude
begin

text \<open>
  Register access and the context object: \<^verbatim>\<open>kernel/arch/riscv64/processor.cpp\<close>,
  \<^verbatim>\<open>kernel/processor.h\<close> and \<^verbatim>\<open>kernel/context.c\<close>. The register file at the point of the read
  is the argument \<open>regs\<close>; a variable that is read without having been assigned has the value
  \<open>left\<close> that its storage held.
\<close>

datatype Register = A1 | A2 | A3 | A4 | A5 | A6 | A7

definition read_register :: "(Register \<Rightarrow> u64) \<Rightarrow> u64 \<Rightarrow> Register \<Rightarrow> u64" where
  "read_register regs left reg = (let val = left in
     case reg of
       A1 \<Rightarrow> regs A1
     | A7 \<Rightarrow> regs A7
     | _ \<Rightarrow> val)"

text \<open>The static pointer to the one context object, 0 before the first constructor call.\<close>

record context_state =
  context_instance :: u64

definition Context_new :: "u64 \<Rightarrow> 'a context_state_scheme \<Rightarrow> 'a context_state_scheme" where
  "Context_new this s = s\<lparr>context_instance := this\<rparr>"

definition Context_get_instance :: "'a context_state_scheme \<Rightarrow> u64" where
  "Context_get_instance s = context_instance s"

text \<open>
  The value of a register is what \<^verbatim>\<open>read_register\<close> returns, whatever its uninitialised variable
  held, for \<^verbatim>\<open>a1\<close> and \<^verbatim>\<open>a7\<close> only; for the five others the result does not depend on the
  registers at all.
\<close>

lemma read_register_reads:
  "(\<forall>regs left. read_register regs left reg = regs reg) \<longleftrightarrow> reg = A1 \<or> reg = A7"
proof
  assume *: "\<forall>regs left. read_register regs left reg = regs reg"
  show "reg = A1 \<or> reg = A7"
    using * [rule_format, of "\<lambda>_. 0" 1] by (cases reg) (simp_all add: read_register_def)
qed (auto simp: read_register_def)

lemma read_register_left:
  "reg \<notin> {A1, A7} \<Longrightarrow> read_register regs left reg = read_register regs' left reg"
  by (cases reg) (simp_all add: read_register_def)

lemma Context_last_constructed:
  "ps \<noteq> [] \<Longrightarrow> Context_get_instance (fold Context_new ps s) = last ps"
  by (induction ps rule: rev_induct) (simp_all add: Context_new_def Context_get_instance_def)

end
