(* ===== verification/Spec2Isabelle.thy ===== *)
theory Spec2Isabelle
  imports Os Shell Sample_Volume Context
begin

text \<open>
  A verification development for tetraOS, a small RISC-V (Sv48) operating system: a kernel in C++, a
  C library for its user programs and a shell.

  \<^bold>\<open>The program and its parts.\<close> \<^verbatim>\<open>os_start\<close> (\<^verbatim>\<open>kernel/os.cpp\<close>) brings the
  kernel up in order: the UART, the frame allocator, paging, the kernel heap, the virtio block
  device, the EXT2 file system on it, the VFS and the scheduler, which loads \<^verbatim>\<open>/usr/bin/shell\<close>
  and enters user mode. The shell calls the C library, whose system calls trap into
  \<^verbatim>\<open>machine_exception_handler\<close> and \<^verbatim>\<open>handle_syscall\<close>; these use the heap, the console
  and the VFS. One theory models one component, and the theories import each other as the components
  call each other:

  \<^item> Prelude: bytes, little-endian loads and stores, the memory \<open>mem\<close> as a function from
    64-bit addresses to bytes, the list, word and option lemmas all theories share.
  \<^item> Console (\<^verbatim>\<open>libk/printf.cpp\<close>, \<^verbatim>\<open>logging.cpp\<close>, \<^verbatim>\<open>read.cpp\<close>): the state
    \<open>kio\<close> (memory, console output, pending input, log level), formatted output, the log,
    line input.
  \<^item> Uart (\<^verbatim>\<open>UART.cpp\<close>): register initialisation and the two polling loops over a device
    parameter; they implement the character contract on which Console rests.
  \<^item> Phys_Alloc (\<^verbatim>\<open>memory/physical_allocator.cpp\<close>): the flag array of page frames.
  \<^item> Paging (\<^verbatim>\<open>memory/paging.cpp\<close>, \<^verbatim>\<open>memory.cpp\<close>): page-table entries, mapping of a page,
    the software walk, and the hardware's translation \<open>sv48\<close> as the reference; Paging_Init:
    the direct map and the start-up of paging.
  \<^item> Virt_Alloc (\<^verbatim>\<open>memory/virtual_allocator.cpp\<close>, \<^verbatim>\<open>libk/list.cpp\<close>): the heap, its operators
    \<^verbatim>\<open>new\<close> and \<^verbatim>\<open>delete\<close>, \<^verbatim>\<open>memset\<close> and \<^verbatim>\<open>memcpy\<close>. Heap_Frame and Cstring are the
    library its clients use: what an operation may change (\<open>heap_only\<close>, \<open>memory_only\<close>),
    that stores to heap blocks and to the user half keep the page tables and the heap
    (\<open>heap_store\<close>, \<open>low_store\<close>), and C strings in memory.
  \<^item> Phys_Map, Linear_Heap, Kernel_Image: what the drivers need to know of memory. Phys_Map relates an
    access by physical address to memory (\<open>dma_write\<close>); Linear_Heap shows that the heap after start-up
    lies contiguously in physical memory up to \<open>heap_limit\<close>; Kernel_Image names the bytes of the
    loaded kernel, with its string literals, and shows who leaves them alone.
  \<^item> Virtio (\<^verbatim>\<open>drivers/virtio/blk.cpp\<close>, \<^verbatim>\<open>console.cpp\<close>, \<^verbatim>\<open>virtio.h\<close>): discovery,
    initialisation and the request path of the block device, initialisation of the console device.
    Blk_Transfer verifies the initialisation and the reads against a device that holds a disk; Disk_Image states
    for the clients what a read delivers of the partition.
  \<^item> Ext2 (\<^verbatim>\<open>drivers/ext2.cpp\<close>): the file system driver. Ext2_Lookup gives the meaning of a path on the
    disk (\<open>dir_lookup\<close>, \<open>path_lookup\<close>) and relates the driver's search to it, Ext2_Mount verifies the
    constructor. Storage composes device, driver and file system as \<^verbatim>\<open>os_start\<close> does, states the file
    operations against the disk and the steps \<open>fs_step\<close> of the code that uses them; Sample_Volume is a
    concrete volume on which the theorems are applied.
  \<^item> Vfs (\<^verbatim>\<open>vfs.cpp\<close>).
  \<^item> Process, Scheduler, Loader (\<^verbatim>\<open>process/*.cpp\<close>, \<^verbatim>\<open>elf.h\<close>): process objects, the
    process list, the choice of the next process, and the ELF loader.
  \<^item> Syscall (\<^verbatim>\<open>exception.cpp\<close>, \<^verbatim>\<open>syscalls/syscall.cpp\<close>), Os (\<^verbatim>\<open>os.cpp\<close>).
  \<^item> Tlibc (\<^verbatim>\<open>tlibc\<close>), Shell (\<^verbatim>\<open>userspace/shell\<close>): the user's side, which reaches the kernel
    through \<open>syscall\<close> only.
  \<^item> Context (\<^verbatim>\<open>context.c\<close>, \<^verbatim>\<open>processor.cpp\<close>): register access and the context object, which
    no other part uses.

  \<^bold>\<open>State and effects.\<close> Each component extends the state record of the one below it
  (\<open>kio\<close>, \<open>phys\<close>, \<open>paging\<close>, \<open>vheap\<close>, \<open>vio\<close>, \<open>fsst\<close>, \<open>vfsst\<close>, \<open>ker\<close>, \<open>user\<close>) by
  its static variables, so an operation of a lower component runs unchanged on the state of a higher
  one. Objects live in memory at the offsets of the C structures. Memory is indexed by virtual
  address; the direct map makes physical memory visible at \<^verbatim>\<open>VIRTUAL_OFFSET\<close>, where the page
  tables are read and written, and the hardware's translation is computed from the same bytes.
  Accesses through user pointers and the copy of the loader are guarded by the mapping and fault
  (\<open>None\<close>) without it. \<open>None\<close> stands for a fault or a loop that does not end; loops are
  structural or well-founded recursions where the code bounds them and \<open>partial_function (option)\<close>
  where it does not, and the theorems state that a result is returned.

  \<^bold>\<open>Parameters.\<close> The linker's symbols (\<open>linker_ok\<close>: the RAM that the frames come from reaches from
  the end of the image to 4 GiB), the UART (\<open>uart_spec\<close>), the virtio device (\<open>vio_ops\<close>), the addresses of string
  literals, and the value the compiler leaves in \<^verbatim>\<open>a0\<close> after a system call.

  \<^bold>\<open>What is shown.\<close> The console prints the text its formats denote and reads lines as
  specified, with the limits of both. The frame allocator refines a set of free frames, the
  mapping operation changes exactly one page of the hardware's translation, and the heap hands
  out disjoint mapped blocks while frames last: \<open>NFRAMES\<close> = 32768 frames have a flag of their
  own, and \<open>kalloc_cost\<close> bounds the frames one allocation can take, four (a leaf and three
  tables) for each page it grows by. The block driver finds the first device and initialises it by
  the protocol, a refused initialisation leaves no trace in memory, and a read delivers the bytes of the
  disk. The file operations refine a lookup on the contents of the disk, through the superblock, the
  group descriptors and the directories on the way; the system they run in stays well formed under every
  sequence of operations (\<open>mounted\<close>, by induction over the steps). The directory search ends and finds
  the first match among the entries it looks at. The process list refines a sequence: adding appends, running takes the first ready
  process. A segment of one page is loaded as the file has it. The write system call prints the
  user's bytes and resumes after the call. In this theory the parts are put together: the memory
  managers come up in the order \<^verbatim>\<open>os_start\<close> calls them, from power-on to the two files that the start-up prints, and \<^verbatim>\<open>printf\<close> of a user program reaches the
  console through library, trap, heap and kernel \<^verbatim>\<open>printf\<close>. Error theorems state where the code
  departs from its intention (negative numbers, full buffers, a second page of a segment, an
  unterminated path, an empty ready list, sizes near the word size, a short last sector, a missing
  file that is not reported).

  \<^bold>\<open>Bounds of the storage theorems.\<close> Memory is one map over virtual addresses, so what a device stores is
  written at every virtual address of the page, and requests are read where the driver wrote them. The
  theorems on the file system cover the first two megabytes of the heap (\<open>heap_limit\<close>), which one page
  table spans and where consecutive pages have consecutive frames; \<open>storage_cost\<close>, \<open>file_cost\<close> and
  \<open>read_cost\<close> bound what the operations allocate there. The heap is never freed, so these are bounds on the
  sum of all operations. A path lies in the kernel image or on the heap. \<open>volume_ready\<close> states what the
  code takes for granted of a volume: in the directories on the way, entries that lie within their block up
  to its end, and inode numbers within the groups it has descriptors for. Positions on the disk are
  32-bit products widened afterwards, in the meaning of a path (\<open>inode_pos\<close>, \<open>file_pos\<close>) as in the code.

  \<^bold>\<open>Interfaces.\<close> \<open>frame_allocator\<close> (Phys_Alloc) and \<open>bump_allocator\<close> (Virt_Alloc) state
  what the allocators promise, \<open>block_reader\<close> (Disk_Image) what a reader of the disk promises the file
  system; all are interpreted on the model's operations.

  \<^bold>\<open>Not modelled.\<close> \<^verbatim>\<open>boot.s\<close>, \<^verbatim>\<open>mem.s\<close> and \<^verbatim>\<open>crt0.s\<close> run before any C++ code; the saving
  and restoring of registers around a trap; interrupts, which the kernel does not enable; compiler
  reordering of the accesses to device registers, which are not volatile in the source. The headers of
  the C library only declare names.
\<close>

section \<open>Start-up of the memory managers\<close>

text \<open>What the machine guarantees at power-on: memory above the kernel image is zero.\<close>

definition ram_zero :: "linker \<Rightarrow> 'a kio_scheme \<Rightarrow> bool" where
  "ram_zero K s \<longleftrightarrow> (\<forall>x. unat (BSS_END K) \<le> unat x \<longrightarrow> mem s x = 0)"

lemma frames_zero_init:
  assumes "linker_ok K" and "ram_zero K s"
  shows "frames_zero (physical_allocator_init K s)"
proof -
  let ?s = "physical_allocator_init K s"
  have lay: "phys_layout ?s" by (rule phys_layout_init(1) [OF assms(1)])
  have bss: "unat (BSS_END K) + 4095 < 2 ^ 64"
    using assms(1) by (auto simp: linker_ok_def VIRTUAL_OFFSET_def word_le_nat_alt unat_word_ariths)
  have m: "unat (BSS_END K) \<le> unat (managed_frames_address_start ?s)"
    using allign_4096 [OF bss] div_mult_mod_eq [of "unat (BSS_END K) + 4095" 4096]
      mod_less_divisor [of 4096 "unat (BSS_END K) + 4095"]
    by (simp add: physical_allocator_init_fields)
  have "mem ?s x = 0" if "i < NFRAMES" "unat (x - page_of ?s i) < 4096" for i x
  proof -
    have "in_pool ?s x" by (rule page_in_pool [OF lay that])
    moreover have "unat (managed_frames_address_start ?s) + (32768 + 4096 * NFRAMES) \<le> 2 ^ 64"
      using lay pool_top [OF lay] by simp
    ultimately have "unat (managed_frames_address_start ?s) \<le> unat x"
      using unat_in_range [of x "managed_frames_address_start ?s"] by (simp add: in_pool_def)
    then show ?thesis
      using assms(2) m by (simp add: physical_allocator_init_fields(3) ram_zero_def)
  qed
  then show ?thesis by (auto simp: frames_zero_def)
qed

lemma physical_allocator_init_level: "logLevel (physical_allocator_init K s) = logLevel s"
  by (simp add: physical_allocator_init_def Let_def init_flags_eq)



section \<open>From power-on to the files\<close>

lemma memory_start_linear:
  fixes s :: "('d, 'a) ker_scheme"
  assumes "linker_ok K" and "ram_zero K s"
  obtains t where "memory_start K s = Some t" "linear_heap t" "free_list t = VIRTUAL_HEAP_START" "dev t = dev s"
    "kernel_image (allign_address (BSS_END K) 4096, mem s) t" "unat (BSS_END K) \<le> unat (allign_address (BSS_END K) 4096)"
proof -
  let ?s1 = "log SYSTEM ''Booted to OS'' [] (set_log_level default_log_level s)"
  let ?s2 = "physical_allocator_init K ?s1" and ?m = "allign_address (BSS_END K) 4096"
  have m1: "mem ?s1 = mem s" "dev ?s1 = dev s" by (simp_all add: set_log_level_def log_eq)
  have "ram_zero K ?s1" using assms(2) by (simp add: ram_zero_def set_log_level_def)
  note b = phys_layout_init(1) [OF assms(1)] frames_zero_init [OF assms(1) this] used_init [OF assms(1)]
  obtain r t :: "('d, 'a) ker_scheme" where t: "paging_init ?s2 = Some r" "virtual_allocator_init r = Some t"
    "free_list t = VIRTUAL_HEAP_START" "vheap.more t = vheap.more ?s2"
    by (rule boot_heap [OF b])
  have ms: "managed_frames_address_start ?s2 = ?m" by (rule physical_allocator_init_fields)
  have "unat (num_frames K) \<le> 2 ^ 20" using num_frames_linker [OF assms(1)] by simp
  then have top: "unat ?m + unat (num_frames K) \<le> 2 ^ 64" using pool_top [OF b(1), of ?s1] ms by (simp add: NFRAMES_def)
  have im: "kernel_image (?m, mem s) ?s2"
    unfolding kernel_image_def in_image_def ms
  proof (intro conjI allI impI)
    fix x :: u64 assume x: "unat VIRTUAL_OFFSET \<le> unat x \<and> unat x < unat ?m"
    have "\<not> unat (x - ?m) < unat (num_frames K)" using unat_in_range [OF _ top, of x] x by auto
    then show "mem ?s2 x = snd (?m, mem s) x" using m1 by (simp add: physical_allocator_init_fields(3))
  qed simp
  have "vheap.more ?s2 = vheap.more s"
    by (cases s) (simp add: physical_allocator_init_def Let_def init_flags_eq log_eq set_log_level_def)
  then have "dev t = dev s" using t(4) by (cases t, cases s) simp
  moreover have "memory_start K s = Some t" using t(1,2) by (simp add: memory_start_def Let_def)
  moreover have "unat (BSS_END K) \<le> unat ?m"
  proof -
    have "unat (BSS_END K) + 4095 < 2 ^ 64"
      using assms(1) by (auto simp: linker_ok_def VIRTUAL_OFFSET_def word_le_nat_alt unat_word_ariths)
    from allign_4096 [OF this] show ?thesis
      using div_mult_mod_eq [of "unat (BSS_END K) + 4095" 4096] mod_less_divisor [of 4096 "unat (BSS_END K) + 4095"] by simp
  qed
  ultimately show ?thesis using that boot_linear [OF b t(1,2)] t(3) boot_image(1) [OF b t(1,2) im] by blast
qed


definition sample_machine :: "u32 ker" where
  "sample_machine = vheap.extend (sample_heap\<lparr>mem := literal_mem\<rparr>) \<lparr>dev = 0, block_device = 0, console_device = 0,
     ext2_instance = 0, vfs_instance = 0, created = False, sched_instance = 0, sstatus = 0\<rparr>"

definition sample_literals :: literals where
  "sample_literals = \<lparr>lit_home_user = 0, lit_testfile = testfile_lit, lit_folder_file = folder_file_lit, lit_shell = 0\<rparr>"

lemma boot_volume_sample: "boot_volume PV 4608 5632"
  by (simp add: boot_volume_def volume_geometry volume_superblock volume_path_ready volume_paths volume_contents volume_costs
      read_cost_def testfile_path_def folder_file_path_def)


section \<open>From a user program to the console\<close>


lemma sample_user_ok: "phys_layout sample_user" "frames_zero sample_user" "used sample_user = {}" "quiet sample_user"
  by (simp_all add: sample_user_def ker.defs sample_ker_def vheap.defs sample_heap_def paging.defs sample_paging_def
    phys_layout_def phys_base_def VIRTUAL_OFFSET_def NFRAMES_def frames_zero_def used_def quiet_def)


end
